(* ===== verification/Prelude.thy ===== *)
theory Prelude
  imports Main "HOL-Library.AList" "HOL-Library.Char_ord" "HOL-Library.List_Lexorder"
begin

text \<open>
  What every component of the development shares: the values a Go call can fail with, the
  effectful call as a state transformer, the combinators that spell Go's control flow
  (sequencing with early return on an error, inspection of an error value, \<open>defer\<close>), and the
  two proof interfaces over them: \<open>returns\<close>/\<open>fails\<close> equations and the Hoare-style \<open>triple\<close>
  with its rules collected in \<open>hoare\<close>.
\<close>

named_theorems hoare \<open>rules for triples, used as introduction rules\<close>
named_theorems keep \<open>rules for invariants of calls, used as introduction rules\<close>
named_theorems run \<open>equations that execute calls\<close>

type_synonym bytes = string

section \<open>Errors\<close>

text \<open>
  The operating system's error numbers the code distinguishes (\<open>os.IsNotExist\<close>,
  \<open>os.IsExist\<close>), and \<open>EHW\<close> for every failure the state of the file system does not explain
  (disk full, I/O error, no permission).
\<close>

datatype hardware = EIO | ENOSPC | EACCES

datatype errno = ENOENT | EEXIST | ENOTDIR | EISDIR | ENOTEMPTY | EBUSY | EPERM | EHW hardware

text \<open>
  A Go error value. \<open>Msg\<close> is \<open>fmt.Errorf\<close>/\<open>errors.New\<close> without a cause, \<open>Wrap\<close> is
  \<open>fmt.Errorf\<close> with the cause printed by \<open>%v\<close>; the four named values are the package-level
  variables of bt/engine.go and oci/layout.go that callers compare with. \<open>Panic\<close> is not a
  value the code can inspect: it unwinds the handler.
\<close>

datatype error =
    Errno errno
  | ErrBtEngineNotStart
  | ErrIdNotExist
  | ErrInvalid
  | ErrNotImplemented
  | ErrClobber
  | Msg string
  | Wrap string error
  | Panic string

fun is_panic :: "error \<Rightarrow> bool" where
  "is_panic (Panic _) = True"
| "is_panic _ = False"

definition os_IsNotExist :: "error \<Rightarrow> bool" where
  "os_IsNotExist e \<longleftrightarrow> e = Errno ENOENT"

definition os_IsExist :: "error \<Rightarrow> bool" where
  "os_IsExist e \<longleftrightarrow> e = Errno EEXIST \<or> e = Errno ENOTEMPTY"

lemma os_IsNotExist_simps [simp]:
  "os_IsNotExist (Errno n) \<longleftrightarrow> n = ENOENT"
  "\<not> os_IsNotExist (Msg m)" "\<not> os_IsNotExist (Wrap m e)" "\<not> os_IsNotExist (Panic m)"
  "\<not> os_IsNotExist ErrClobber"
  by (simp_all add: os_IsNotExist_def)

lemma os_IsExist_simps [simp]:
  "os_IsExist (Errno n) \<longleftrightarrow> n = EEXIST \<or> n = ENOTEMPTY"
  "\<not> os_IsExist (Msg m)" "\<not> os_IsExist (Wrap m e)" "\<not> os_IsExist (Panic m)"
  by (simp_all add: os_IsExist_def)

section \<open>Calls\<close>

text \<open>A call takes the state and gives the error or the value, and the state it leaves.\<close>

type_synonym 'a result = "error + 'a"
type_synonym ('s, 'a) call = "'s \<Rightarrow> 'a result \<times> 's"

definition returnE :: "'a \<Rightarrow> ('s, 'a) call" where
  "returnE x = (\<lambda>s. (Inr x, s))"

definition throwE :: "error \<Rightarrow> ('s, 'a) call" where
  "throwE e = (\<lambda>s. (Inl e, s))"

definition liftE :: "'a result \<Rightarrow> ('s, 'a) call" where
  "liftE r = (\<lambda>s. (r, s))"

text \<open>\<open>x, err := m(); if err != nil { return err }\<close>\<close>

definition bindE :: "('s, 'a) call \<Rightarrow> ('a \<Rightarrow> ('s, 'b) call) \<Rightarrow> ('s, 'b) call" where
  "bindE m f = (\<lambda>s. case m s of (Inl e, s') \<Rightarrow> (Inl e, s') | (Inr x, s') \<Rightarrow> f x s')"

definition thenE :: "('s, 'a) call \<Rightarrow> ('s, 'b) call \<Rightarrow> ('s, 'b) call" where
  "thenE m n = bindE m (\<lambda>_. n)"

text \<open>\<open>x, err := m()\<close> with \<open>err\<close> kept as a value; a panic is no value and passes through.\<close>

definition tryE :: "('s, 'a) call \<Rightarrow> ('s, 'a result) call" where
  "tryE m = (\<lambda>s. case m s of
     (Inl e, s') \<Rightarrow> (if is_panic e then (Inl e, s') else (Inr (Inl e), s'))
   | (Inr x, s') \<Rightarrow> (Inr (Inr x), s'))"

text \<open>\<open>if err := m(); err != nil { h(err) }\<close>\<close>

definition catchE :: "('s, 'a) call \<Rightarrow> (error \<Rightarrow> ('s, 'a) call) \<Rightarrow> ('s, 'a) call" where
  "catchE m h = bindE (tryE m) (\<lambda>r. case r of Inl e \<Rightarrow> h e | Inr x \<Rightarrow> returnE x)"

text \<open>\<open>return fmt.Errorf("...: %v", err)\<close>\<close>

definition wrapE :: "string \<Rightarrow> ('s, 'a) call \<Rightarrow> ('s, 'a) call" where
  "wrapE msg m = catchE m (\<lambda>e. throwE (Wrap msg e))"

text \<open>\<open>defer fin()\<close>: runs on every way out, its own error is dropped.\<close>

definition deferE :: "('s, 'b) call \<Rightarrow> ('s, 'a) call \<Rightarrow> ('s, 'a) call" where
  "deferE fin m = (\<lambda>s. case m s of (r, s') \<Rightarrow> (r, snd (fin s')))"

definition whenE :: "bool \<Rightarrow> ('s, unit) call \<Rightarrow> ('s, unit) call" where
  "whenE b m = (if b then m else returnE ())"

definition getE :: "('s \<Rightarrow> 'a) \<Rightarrow> ('s, 'a) call" where
  "getE f = (\<lambda>s. (Inr (f s), s))"

definition modifyE :: "('s \<Rightarrow> 's) \<Rightarrow> ('s, unit) call" where
  "modifyE f = (\<lambda>s. (Inr (), f s))"

text \<open>\<open>for _, x := range xs { body }\<close>, left by the first error of the body.\<close>

fun forE :: "'a list \<Rightarrow> ('a \<Rightarrow> ('s, unit) call) \<Rightarrow> ('s, unit) call" where
  "forE [] f = returnE ()"
| "forE (x # xs) f = bindE (f x) (\<lambda>_. forE xs f)"

text \<open>The same loop where the body appends to a slice.\<close>

fun mapE :: "('a \<Rightarrow> ('s, 'b) call) \<Rightarrow> 'a list \<Rightarrow> ('s, 'b list) call" where
  "mapE f [] = returnE []"
| "mapE f (x # xs) = bindE (f x) (\<lambda>y. bindE (mapE f xs) (\<lambda>ys. returnE (y # ys)))"

lemma call_simps [run]:
  "returnE x s = (Inr x, s)" "throwE e s = (Inl e, s)" "liftE r s = (r, s)"
  "getE g s = (Inr (g s), s)" "modifyE h s = (Inr (), h s)"
  by (simp_all add: returnE_def throwE_def liftE_def getE_def modifyE_def)

lemma bindE_simps [simp]:
  "m s = (Inr x, s') \<Longrightarrow> bindE m f s = f x s'"
  "m s = (Inl e, s') \<Longrightarrow> bindE m f s = (Inl e, s')"
  by (simp_all add: bindE_def)

lemma thenE_simps [simp]:
  "m s = (Inr x, s') \<Longrightarrow> thenE m n s = n s'"
  "m s = (Inl e, s') \<Longrightarrow> thenE m n s = (Inl e, s')"
  by (simp_all add: thenE_def)

lemma tryE_simps [simp]:
  "m s = (Inr x, s') \<Longrightarrow> tryE m s = (Inr (Inr x), s')"
  "m s = (Inl e, s') \<Longrightarrow> \<not> is_panic e \<Longrightarrow> tryE m s = (Inr (Inl e), s')"
  "m s = (Inl e, s') \<Longrightarrow> is_panic e \<Longrightarrow> tryE m s = (Inl e, s')"
  by (simp_all add: tryE_def)

lemma catchE_simps [simp]:
  "m s = (Inr x, s') \<Longrightarrow> catchE m h s = (Inr x, s')"
  "m s = (Inl e, s') \<Longrightarrow> \<not> is_panic e \<Longrightarrow> catchE m h s = h e s'"
  "m s = (Inl e, s') \<Longrightarrow> is_panic e \<Longrightarrow> catchE m h s = (Inl e, s')"
  by (simp_all add: catchE_def run)

lemma wrapE_simps [simp]:
  "m s = (Inr x, s') \<Longrightarrow> wrapE w m s = (Inr x, s')"
  "m s = (Inl e, s') \<Longrightarrow> \<not> is_panic e \<Longrightarrow> wrapE w m s = (Inl (Wrap w e), s')"
  "m s = (Inl e, s') \<Longrightarrow> is_panic e \<Longrightarrow> wrapE w m s = (Inl e, s')"
  by (simp_all add: wrapE_def run)

lemma deferE_simps [simp]:
  "m s = (r, s') \<Longrightarrow> deferE fin m s = (r, snd (fin s'))"
  by (simp add: deferE_def)

lemma whenE_run [simp]: "whenE True m = m" "whenE False m = returnE ()"
  by (simp_all add: whenE_def)

lemma bindE_lift [simp]:
  "bindE (liftE (Inr x)) f = f x" "bindE (liftE (Inl e)) f = throwE e" "bindE (returnE x) f = f x"
  "bindE (throwE e) f = throwE e" "thenE (returnE x) n = n"
  by (simp_all add: fun_eq_iff bindE_def thenE_def liftE_def throwE_def returnE_def)

text \<open>Inversion: how a composed call can have returned.\<close>

lemma bindE_Inr:
  "bindE m f s = (Inr y, t) \<longleftrightarrow> (\<exists>x s'. m s = (Inr x, s') \<and> f x s' = (Inr y, t))"
  by (auto simp: bindE_def split: prod.splits sum.splits)

lemma bindE_Inl:
  "bindE m f s = (Inl e, t) \<longleftrightarrow>
     m s = (Inl e, t) \<or> (\<exists>x s'. m s = (Inr x, s') \<and> f x s' = (Inl e, t))"
  by (auto simp: bindE_def split: prod.splits sum.splits)

lemma wrapE_Inr: "wrapE w m s = (Inr x, t) \<longleftrightarrow> m s = (Inr x, t)"
  by (auto simp: wrapE_def catchE_def tryE_def bindE_def run
      split: prod.splits sum.splits if_splits)

lemma liftE_Inr: "liftE r s = (Inr x, t) \<longleftrightarrow> r = Inr x \<and> t = s"
  by (auto simp: run)

section \<open>Triples\<close>

text \<open>
  \<open>triple P m Q R\<close>: from a state with \<open>P\<close>, the call either returns \<open>x\<close> in a state with
  \<open>Q x\<close> or fails with \<open>e\<close> in a state with \<open>R e\<close>. Every call terminates.
\<close>

definition triple ::
  "('s \<Rightarrow> bool) \<Rightarrow> ('s, 'a) call \<Rightarrow> ('a \<Rightarrow> 's \<Rightarrow> bool) \<Rightarrow> (error \<Rightarrow> 's \<Rightarrow> bool) \<Rightarrow> bool" where
  "triple P m Q R \<longleftrightarrow>
     (\<forall>s. P s \<longrightarrow> (case m s of (Inl e, s') \<Rightarrow> R e s' | (Inr x, s') \<Rightarrow> Q x s'))"

text \<open>An invariant of a call: kept whether it returns or fails.\<close>

abbreviation keeps :: "('s \<Rightarrow> bool) \<Rightarrow> ('s, 'a) call \<Rightarrow> bool" where
  "keeps I m \<equiv> triple I m (\<lambda>_. I) (\<lambda>_. I)"

lemma tripleI:
  "(\<And>s. P s \<Longrightarrow> (case m s of (Inl e, s') \<Rightarrow> R e s' | (Inr x, s') \<Rightarrow> Q x s')) \<Longrightarrow> triple P m Q R"
  by (simp add: triple_def)

lemma tripleD_Inr: "triple P m Q R \<Longrightarrow> P s \<Longrightarrow> m s = (Inr x, t) \<Longrightarrow> Q x t"
  by (auto simp: triple_def split: prod.splits sum.splits)

lemma tripleD_Inl: "triple P m Q R \<Longrightarrow> P s \<Longrightarrow> m s = (Inl e, t) \<Longrightarrow> R e t"
  by (auto simp: triple_def split: prod.splits sum.splits)

lemma keepsD: "keeps I m \<Longrightarrow> I s \<Longrightarrow> I (snd (m s))"
  by (cases "m s") (auto simp: triple_def split: sum.splits)

lemma triple_snd: "triple P m (\<lambda>_. Q) (\<lambda>_. Q) \<Longrightarrow> P s \<Longrightarrow> Q (snd (m s))"
  by (cases "m s") (auto simp: triple_def split: sum.splits)

lemma keepsI: "(\<And>s. I s \<Longrightarrow> I (snd (m s))) \<Longrightarrow> keeps I m"
  unfolding triple_def by (metis (mono_tags, lifting) case_prod_beta sum.case_eq_if)

lemma keepsI2: "(\<And>s. P s \<Longrightarrow> Q (snd (m s))) \<Longrightarrow> triple P m (\<lambda>_. Q) (\<lambda>_. Q)"
  unfolding triple_def by (metis (mono_tags, lifting) case_prod_beta sum.case_eq_if)

lemma triple_weaken:
  "triple P m Q R \<Longrightarrow> (\<And>s. P' s \<Longrightarrow> P s) \<Longrightarrow> (\<And>x s. Q x s \<Longrightarrow> Q' x s) \<Longrightarrow>
   (\<And>e s. R e s \<Longrightarrow> R' e s) \<Longrightarrow> triple P' m Q' R'"
  by (fastforce simp: triple_def split: prod.splits sum.splits)

lemma triple_conj:
  "triple P m Q R \<Longrightarrow> triple P' m Q' R' \<Longrightarrow>
   triple (\<lambda>s. P s \<and> P' s) m (\<lambda>x s. Q x s \<and> Q' x s) (\<lambda>e s. R e s \<and> R' e s)"
  by (fastforce simp: triple_def split: prod.splits sum.splits)

text \<open>A premise that does not speak of the state.\<close>

lemma triple_const:
  "(A \<Longrightarrow> triple P m Q R) \<Longrightarrow> triple (\<lambda>s. A \<and> P s) m (\<lambda>x s. A \<and> Q x s) (\<lambda>e s. A \<and> R e s)"
  by (cases A) (simp_all add: triple_def)

lemma triple_return [hoare]: "(\<And>s. P s \<Longrightarrow> Q x s) \<Longrightarrow> triple P (returnE x) Q R"
  by (simp add: triple_def run)

lemma triple_throw [hoare]: "(\<And>s. P s \<Longrightarrow> R e s) \<Longrightarrow> triple P (throwE e) Q R"
  by (simp add: triple_def run)

lemma triple_lift [hoare]:
  "(\<And>s x. P s \<Longrightarrow> r = Inr x \<Longrightarrow> Q x s) \<Longrightarrow> (\<And>s e. P s \<Longrightarrow> r = Inl e \<Longrightarrow> R e s) \<Longrightarrow>
   triple P (liftE r) Q R"
  by (auto simp: triple_def run split: sum.splits)

lemma triple_get [hoare]: "(\<And>s. P s \<Longrightarrow> Q (f s) s) \<Longrightarrow> triple P (getE f) Q R"
  by (simp add: triple_def run)

lemma triple_modify [hoare]: "(\<And>s. P s \<Longrightarrow> Q () (f s)) \<Longrightarrow> triple P (modifyE f) Q R"
  by (simp add: triple_def run)

lemma triple_bind [hoare]:
  "triple P m M R \<Longrightarrow> (\<And>x. triple (M x) (f x) Q R) \<Longrightarrow> triple P (bindE m f) Q R"
  by (fastforce simp: triple_def bindE_def split: prod.splits sum.splits)

lemma triple_then [hoare]:
  "triple P m (\<lambda>_. M) R \<Longrightarrow> triple M n Q R \<Longrightarrow> triple P (thenE m n) Q R"
  unfolding thenE_def by (rule triple_bind) auto

lemma triple_pre: "triple P' m Q R \<Longrightarrow> (\<And>s. P s \<Longrightarrow> P' s) \<Longrightarrow> triple P m Q R"
  by (simp add: triple_def)

lemma triple_bind_pre:
  "triple P' m M R \<Longrightarrow> (\<And>s. P s \<Longrightarrow> P' s) \<Longrightarrow> (\<And>x. triple (M x) (f x) Q R) \<Longrightarrow>
   triple P (bindE m f) Q R"
  by (rule triple_bind [OF triple_pre])

lemma triple_try [hoare]:
  "triple P m (\<lambda>x. Q (Inr x)) (\<lambda>e s. if is_panic e then R e s else Q (Inl e) s) \<Longrightarrow>
   triple P (tryE m) Q R"
  by (fastforce simp: triple_def tryE_def split: prod.splits sum.splits if_splits)

lemma triple_catch:
  "triple P m Q (\<lambda>e s. if is_panic e then R e s else H e s) \<Longrightarrow>
   (\<And>e. triple (H e) (h e) Q R) \<Longrightarrow> triple P (catchE m h) Q R"
proof (rule tripleI)
  fix s
  assume m: "triple P m Q (\<lambda>e s. if is_panic e then R e s else H e s)"
    and h: "\<And>e. triple (H e) (h e) Q R" and P: "P s"
  show "case catchE m h s of (Inl e, s') \<Rightarrow> R e s' | (Inr x, s') \<Rightarrow> Q x s'"
  proof (cases "m s")
    case (Pair r t)
    show ?thesis
    proof (cases r)
      case (Inl e)
      with m P Pair have "if is_panic e then R e t else H e t" by (auto dest: tripleD_Inl)
      then show ?thesis using Pair Inl h [of e] by (cases "is_panic e") (auto simp: triple_def)
    next
      case (Inr x)
      then show ?thesis using m P Pair by (auto dest: tripleD_Inr)
    qed
  qed
qed

lemma triple_wrap: "triple P m Q (\<lambda>_. R) \<Longrightarrow> triple P (wrapE w m) Q (\<lambda>_. R)"
  unfolding wrapE_def
  by (rule triple_catch [where H = "\<lambda>_. R"]) (auto intro: triple_throw elim: triple_weaken)

lemma triple_assume: "(A \<Longrightarrow> triple P m Q R) \<Longrightarrow> triple (\<lambda>s. A \<and> P s) m Q R"
  by (cases A) (simp_all add: triple_def)

lemma triple_False: "triple (\<lambda>_. False) m Q R"
  by (simp add: triple_def)

lemma triple_catch_ok: "triple P m Q (\<lambda>_ _. False) \<Longrightarrow> triple P (catchE m h) Q R"
  by (rule triple_catch [where H = "\<lambda>_ _. False"]) (auto intro: triple_False elim: triple_weaken)

lemma triple_defer:
  "triple P m Q' R' \<Longrightarrow> (\<And>x s. Q' x s \<Longrightarrow> Q x (snd (fin s))) \<Longrightarrow>
   (\<And>e s. R' e s \<Longrightarrow> R e (snd (fin s))) \<Longrightarrow> triple P (deferE fin m) Q R"
  by (fastforce simp: triple_def deferE_def split: prod.splits sum.splits)

lemma triple_if [hoare]:
  "(b \<Longrightarrow> triple P m Q R) \<Longrightarrow> (\<not> b \<Longrightarrow> triple P n Q R) \<Longrightarrow> triple P (if b then m else n) Q R"
  by simp

lemma triple_when [hoare]:
  "(b \<Longrightarrow> triple P m Q R) \<Longrightarrow> (\<And>s. \<not> b \<Longrightarrow> P s \<Longrightarrow> Q () s) \<Longrightarrow> triple P (whenE b m) Q R"
  by (auto simp: whenE_def intro: triple_return)

lemma triple_case_sum [hoare]:
  "(\<And>x. r = Inl x \<Longrightarrow> triple P (f x) Q R) \<Longrightarrow> (\<And>y. r = Inr y \<Longrightarrow> triple P (g y) Q R) \<Longrightarrow>
   triple P (case r of Inl x \<Rightarrow> f x | Inr y \<Rightarrow> g y) Q R"
  by (cases r) auto

lemma triple_case_option [hoare]:
  "(r = None \<Longrightarrow> triple P m Q R) \<Longrightarrow> (\<And>y. r = Some y \<Longrightarrow> triple P (g y) Q R) \<Longrightarrow>
   triple P (case r of None \<Rightarrow> m | Some y \<Rightarrow> g y) Q R"
  by (cases r) auto

lemma triple_case_prod [hoare]:
  "(\<And>a b. r = (a, b) \<Longrightarrow> triple P (f a b) Q R) \<Longrightarrow> triple P (case r of (a, b) \<Rightarrow> f a b) Q R"
  by (cases r) auto

lemma keeps_simple [keep]:
  "keeps I (returnE x)" "keeps I (throwE e)" "keeps I (liftE r)" "keeps I (getE f)"
  by (auto intro: hoare)

lemma keeps_modify [keep]: "(\<And>s. I s \<Longrightarrow> I (f s)) \<Longrightarrow> keeps I (modifyE f)"
  by (auto intro: hoare)

lemma keeps_bind [keep]: "keeps I m \<Longrightarrow> (\<And>x. keeps I (f x)) \<Longrightarrow> keeps I (bindE m f)"
  by (rule triple_bind)

lemma keeps_then [keep]: "keeps I m \<Longrightarrow> keeps I n \<Longrightarrow> keeps I (thenE m n)"
  by (rule triple_then)

lemma keeps_try [keep]: "keeps I m \<Longrightarrow> keeps I (tryE m)"
  by (rule triple_try) simp

lemma keeps_catch [keep]: "keeps I m \<Longrightarrow> (\<And>e. keeps I (h e)) \<Longrightarrow> keeps I (catchE m h)"
  by (rule triple_catch [where H = "\<lambda>_. I"]) simp_all

lemma keeps_wrap [keep]: "keeps I m \<Longrightarrow> keeps I (wrapE w m)"
  unfolding wrapE_def by (intro keep)

lemma keeps_defer [keep]: "keeps I m \<Longrightarrow> keeps I fin \<Longrightarrow> keeps I (deferE fin m)"
  by (erule triple_defer) (auto dest: keepsD)

lemma keeps_when [keep]: "keeps I m \<Longrightarrow> keeps I (whenE b m)"
  by (simp add: whenE_def triple_return)

lemma keeps_for [keep]: "(\<And>x. keeps I (f x)) \<Longrightarrow> keeps I (forE xs f)"
  by (induction xs) (auto intro!: keep)

lemma keeps_map [keep]: "(\<And>x. keeps I (f x)) \<Longrightarrow> keeps I (mapE f xs)"
  by (induction xs) (auto intro!: keep)

lemma keeps_cases [keep]:
  "keeps I m \<Longrightarrow> keeps I n \<Longrightarrow> keeps I (if b then m else n)"
  "(\<And>x. keeps I (f x)) \<Longrightarrow> (\<And>y. keeps I (g y)) \<Longrightarrow>
   keeps I (case r of Inl x \<Rightarrow> f x | Inr y \<Rightarrow> g y)"
  "keeps I m \<Longrightarrow> (\<And>y. keeps I (h y)) \<Longrightarrow> keeps I (case q of None \<Rightarrow> m | Some y \<Rightarrow> h y)"
  "(\<And>a b. keeps I (k a b)) \<Longrightarrow> keeps I (case w of (a, b) \<Rightarrow> k a b)"
  by (auto split: sum.splits option.splits prod.splits)

end
