(* ===== verification/Go_Lib.thy ===== *)
theory Go_Lib
  imports Prelude "HOL-Library.Signed_Division"
begin

text \<open>
  The part of Go's standard library the program computes with: \<open>strings.Split\<close>, \<open>SplitN\<close> and
  \<open>Join\<close>, \<open>strconv.Itoa\<close>, \<open>encoding/hex\<close> and the \<open>%x\<close> verb, and the lexical path functions of
  \<open>path\<close> and \<open>path/filepath\<close>. Go strings and byte slices are Isabelle strings (a \<open>char\<close> is a
  byte). The lemmas relate joined paths to lists of components, the form in which the file
  system model addresses its nodes.
\<close>

named_theorems path \<open>equations that compute with paths built from well-formed names\<close>

section \<open>Strings\<close>

abbreviation slash :: char where "slash \<equiv> CHR ''/''"
abbreviation dot :: char where "dot \<equiv> CHR ''.''"
abbreviation colon :: char where "colon \<equiv> CHR '':''"

text \<open>\<open>strings.Split(s, sep)\<close> for a one-byte separator.\<close>

fun split_on :: "char \<Rightarrow> string \<Rightarrow> string list" where
  "split_on c [] = [[]]"
| "split_on c (x # xs) =
     (if x = c then [] # split_on c xs
      else (case split_on c xs of [] \<Rightarrow> [[x]] | y # ys \<Rightarrow> (x # y) # ys))"

text \<open>\<open>strings.Join(xs, sep)\<close>\<close>

fun join_with :: "char \<Rightarrow> string list \<Rightarrow> string" where
  "join_with c [] = []"
| "join_with c [x] = x"
| "join_with c (x # xs) = x @ c # join_with c xs"

text \<open>The text before and after the first occurrence of a separator.\<close>

fun cut :: "string \<Rightarrow> string \<Rightarrow> (string \<times> string) option" where
  "cut sep [] = (if sep = [] then Some ([], []) else None)"
| "cut sep (x # xs) =
     (if take (length sep) (x # xs) = sep then Some ([], drop (length sep) (x # xs))
      else map_option (\<lambda>(a, b). (x # a, b)) (cut sep xs))"

text \<open>\<open>strings.SplitN(s, sep, 2)\<close>\<close>

definition SplitN2 :: "string \<Rightarrow> string \<Rightarrow> string list" where
  "SplitN2 s sep = (case cut sep s of None \<Rightarrow> [s] | Some (a, b) \<Rightarrow> [a, b])"

text \<open>\<open>strconv.Itoa\<close>\<close>

fun utoa :: "nat \<Rightarrow> string" where
  "utoa n = (if n < 10 then [char_of (48 + n)] else utoa (n div 10) @ [char_of (48 + n mod 10)])"

declare utoa.simps [simp del]

definition Itoa :: "int \<Rightarrow> string" where
  "Itoa i = (if i < 0 then CHR ''-'' # utoa (nat (- i)) else utoa (nat i))"

lemma split_on_nonempty [simp]: "split_on c xs \<noteq> []"
  by (cases xs) (auto split: list.splits)

lemma split_on_append_sep: "split_on c (xs @ c # ys) = split_on c xs @ split_on c ys"
  by (induction xs) (auto split: list.splits simp: neq_Nil_conv)

lemma split_on_no_sep: "c \<notin> set xs \<Longrightarrow> split_on c xs = [xs]"
  by (induction xs) auto

lemma split_on_parts: "x \<in> set (split_on c xs) \<Longrightarrow> c \<notin> set x"
proof (induction xs arbitrary: x)
  case (Cons a xs)
  then show ?case
    by (cases "split_on c xs") (auto split: if_splits)
qed simp

lemma split_on_join:
  "(\<And>x. x \<in> set xs \<Longrightarrow> c \<notin> set x) \<Longrightarrow> xs \<noteq> [] \<Longrightarrow> split_on c (join_with c xs) = xs"
  by (induction c xs rule: join_with.induct) (auto simp: split_on_append_sep split_on_no_sep)

lemma join_split_on [simp]: "join_with c (split_on c xs) = xs"
proof (induction xs)
  case (Cons a xs)
  then show ?case
    by (cases "split_on c xs"; cases "tl (split_on c xs)") auto
qed simp

lemma join_with_append:
  "xs \<noteq> [] \<Longrightarrow> ys \<noteq> [] \<Longrightarrow> join_with c (xs @ ys) = join_with c xs @ c # join_with c ys"
  by (induction c xs rule: join_with.induct) (auto simp: neq_Nil_conv)

lemma cut_some: "cut sep s = Some (a, b) \<Longrightarrow> s = a @ sep @ b"
proof (induction sep s arbitrary: a b rule: cut.induct)
  case (2 sep x xs)
  show ?case
  proof (cases "take (length sep) (x # xs) = sep")
    case True
    then show ?thesis
      using "2.prems" append_take_drop_id [of "length sep" "x # xs"] by auto
  next
    case False
    then show ?thesis using 2 by (auto split: prod.splits)
  qed
qed (auto split: if_splits)

lemma cut_char: "c \<notin> set a \<Longrightarrow> cut [c] (a @ c # b) = Some (a, b)"
  by (induction a) auto

lemma cut_char_None: "cut [c] s = None \<longleftrightarrow> c \<notin> set s"
  by (induction s) auto

lemma cut_char_fst: "cut [c] s = Some (a, b) \<Longrightarrow> c \<notin> set a"
  by (induction s arbitrary: a) (auto split: if_splits)

section \<open>Integers\<close>

text \<open>
  The value of an int64 after an operation that may overflow. \<open>sdiv\<close> and \<open>smod\<close> truncate as Go's \<open>/\<close>
  and \<open>%\<close> do; the quotient of the least int64 by -1 wraps around.
\<close>

definition int64 :: "int \<Rightarrow> int" where
  "int64 x = signed_take_bit 63 x"

definition int64_quot :: "int \<Rightarrow> int \<Rightarrow> int" where
  "int64_quot a b = int64 (a sdiv b)"

lemma int64_id: "- (2 ^ 63) \<le> x \<Longrightarrow> x < 2 ^ 63 \<Longrightarrow> int64 x = x"
  unfolding int64_def by (rule signed_take_bit_int_eq_self) simp_all

lemma int64_quot_pos:
  assumes "0 \<le> a" "a < 2 ^ 63" "0 < b"
  shows "int64_quot a b = a div b"
proof -
  have q: "a sdiv b = a div b" using assms by (cases "a = 0") (simp_all add: signed_divide_int_def)
  have "0 \<le> a div b" "a div b \<le> a"
    using assms zdiv_mono2 [of a 1 b] by (simp_all add: pos_imp_zdiv_nonneg_iff)
  then show ?thesis using assms(2) q int64_id [of "a div b"] by (simp add: int64_quot_def)
qed

section \<open>Hexadecimal\<close>

definition hexchar :: "nat \<Rightarrow> char" where
  "hexchar n = char_of (if n < 10 then 48 + n else 87 + n)"

text \<open>\<open>fmt.Sprintf("%x", b)\<close> and \<open>hex.EncodeToString(b)\<close>\<close>

definition hex_encode :: "bytes \<Rightarrow> string" where
  "hex_encode bs =
     concat (map (\<lambda>c. [hexchar (of_char c div 16), hexchar (of_char c mod 16)]) bs)"

definition fromHexChar :: "char \<Rightarrow> nat option" where
  "fromHexChar c =
     (let n = of_char c in
      if 48 \<le> n \<and> n \<le> 57 then Some (n - 48)
      else if 97 \<le> n \<and> n \<le> 102 then Some (n - 87)
      else if 65 \<le> n \<and> n \<le> 70 then Some (n - 55)
      else None)"

text \<open>
  \<open>hex.Decode(dst, src)\<close> with room for \<open>n\<close> bytes in \<open>dst\<close>: an odd length and a byte that is no
  hexadecimal digit are errors, a write beyond \<open>dst\<close> is an index panic.
\<close>

fun hex_loop :: "nat \<Rightarrow> string \<Rightarrow> bytes result" where
  "hex_loop n (a # b # src) =
     (case (fromHexChar a, fromHexChar b) of
        (Some x, Some y) \<Rightarrow>
          (case n of 0 \<Rightarrow> Inl (Panic ''index out of range'')
           | Suc m \<Rightarrow> map_sum id (\<lambda>r. char_of (16 * x + y) # r) (hex_loop m src))
      | _ \<Rightarrow> Inl (Msg ''encoding/hex: invalid byte''))"
| "hex_loop n _ = Inr []"

definition hex_Decode :: "nat \<Rightarrow> string \<Rightarrow> bytes result" where
  "hex_Decode n src =
     (if odd (length src) then Inl (Msg ''encoding/hex: odd length hex string'')
      else hex_loop n src)"

lemma of_char_less [simp]: "of_char (c :: char) < (256 :: nat)"
  by (simp add: nat_of_char_less_256)

lemma fromHexChar_hexchar [simp]: "n < 16 \<Longrightarrow> fromHexChar (hexchar n) = Some n"
  by (auto simp: fromHexChar_def hexchar_def Let_def of_char_of)

lemma hexchar_not_slash: "n < 16 \<Longrightarrow> hexchar n \<noteq> slash \<and> hexchar n \<noteq> dot \<and> hexchar n \<noteq> colon"
proof -
  assume n: "n < 16"
  then have "of_char (hexchar n) = (if n < 10 then 48 + n else 87 + n)"
    by (auto simp: hexchar_def of_char_of)
  then have "of_char (hexchar n) > (57::nat) \<or> of_char (hexchar n) \<ge> (48::nat) \<and> of_char (hexchar n) \<le> (57::nat)"
    and "of_char (hexchar n) > (47 :: nat)" and "of_char (hexchar n) \<noteq> (58 :: nat)"
    using n by auto
  then show ?thesis by auto
qed

lemma hex_encode_simps [simp]:
  "hex_encode [] = []"
  "hex_encode (c # cs) = hexchar (of_char c div 16) # hexchar (of_char c mod 16) # hex_encode cs"
  by (simp_all add: hex_encode_def)

lemma length_hex_encode [simp]: "length (hex_encode bs) = 2 * length bs"
  by (induction bs) auto

lemma hex_encode_chars:
  "c \<in> set (hex_encode bs) \<Longrightarrow> c \<noteq> slash \<and> c \<noteq> dot \<and> c \<noteq> colon"
proof (induction bs)
  case (Cons b bs)
  have "of_char b div 16 < (16 :: nat)" using of_char_less [of b] by linarith
  with Cons show ?case
    using hexchar_not_slash [of "of_char b div 16"] hexchar_not_slash [of "of_char b mod 16"]
    by auto
qed simp

lemma hex_loop_encode: "length bs \<le> n \<Longrightarrow> hex_loop n (hex_encode bs) = Inr bs"
proof (induction bs arbitrary: n)
  case (Cons b bs)
  have "of_char b div 16 < (16 :: nat)" using of_char_less [of b] by linarith
  with Cons show ?case by (cases n) auto
qed simp

lemma hex_Decode_encode: "length bs \<le> n \<Longrightarrow> hex_Decode n (hex_encode bs) = Inr bs"
  by (simp add: hex_Decode_def hex_loop_encode)

lemma hex_loop_length: "hex_loop n src = Inr bs \<Longrightarrow> even (length src) \<Longrightarrow> length src = 2 * length bs"
  by (induction n src arbitrary: bs rule: hex_loop.induct)
     (auto split: option.splits nat.splits simp: map_sum_def split: sum.splits)

section \<open>Paths\<close>

text \<open>
  \<open>path.Clean\<close> (on Unix also \<open>filepath.Clean\<close>): the elements in order on a stack, \<open>.\<close> and empty
  elements dropped, \<open>..\<close> removing the element before it, kept only at the start of a relative
  path.
\<close>

fun clean_elems :: "bool \<Rightarrow> string list \<Rightarrow> string list \<Rightarrow> string list" where
  "clean_elems rooted st [] = rev st"
| "clean_elems rooted st (c # cs) =
     (if c = [] \<or> c = ''.'' then clean_elems rooted st cs
      else if c = ''..'' then
        (case st of
           [] \<Rightarrow> clean_elems rooted (if rooted then [] else [''..'']) cs
         | t # ts \<Rightarrow> clean_elems rooted (if t = ''..'' then ''..'' # st else ts) cs)
      else clean_elems rooted (c # st) cs)"

definition rooted :: "string \<Rightarrow> bool" where
  "rooted p = (case p of [] \<Rightarrow> False | c # _ \<Rightarrow> c = slash)"

definition Clean :: "string \<Rightarrow> string" where
  "Clean p =
     (if p = [] then ''.''
      else let out = join_with slash (clean_elems (rooted p) [] (split_on slash p)) in
        if rooted p then slash # out else if out = [] then ''.'' else out)"

text \<open>\<open>path.Join\<close>, \<open>filepath.Join\<close>\<close>

definition Join :: "string list \<Rightarrow> string" where
  "Join elems =
     (case dropWhile (\<lambda>e. e = []) elems of [] \<Rightarrow> [] | es \<Rightarrow> Clean (join_with slash es))"

text \<open>\<open>filepath.Dir\<close>, \<open>filepath.Base\<close>, \<open>filepath.Ext\<close>\<close>

definition filepath_Dir :: "string \<Rightarrow> string" where
  "filepath_Dir p = Clean (rev (dropWhile (\<lambda>c. c \<noteq> slash) (rev p)))"

definition filepath_Base :: "string \<Rightarrow> string" where
  "filepath_Base p =
     (if p = [] then ''.''
      else let q = rev (takeWhile (\<lambda>c. c \<noteq> slash) (dropWhile (\<lambda>c. c = slash) (rev p))) in
        if q = [] then ''/'' else q)"

definition filepath_Ext :: "string \<Rightarrow> string" where
  "filepath_Ext p =
     (let seg = rev (takeWhile (\<lambda>c. c \<noteq> slash) (rev p)) in
      if dot \<in> set seg then dot # rev (takeWhile (\<lambda>c. c \<noteq> dot) (rev seg)) else [])"

text \<open>
  The components the operating system walks: an absolute path starts with the empty name, which
  keeps it apart from the relative path of the same names.
\<close>

definition comps :: "string \<Rightarrow> string list" where
  "comps p =
     (if rooted p then [[]] else []) @ filter (\<lambda>c. c \<noteq> [] \<and> c \<noteq> ''.'') (split_on slash p)"

text \<open>A name that is one path component and stands for itself.\<close>

definition name_ok :: "string \<Rightarrow> bool" where
  "name_ok c \<longleftrightarrow> c \<noteq> [] \<and> c \<noteq> ''.'' \<and> c \<noteq> ''..'' \<and> slash \<notin> set c"

lemma name_okD:
  assumes "name_ok c"
  shows "c \<noteq> []" "c \<noteq> ''.''" "c \<noteq> ''..''" "slash \<notin> set c"
  using assms by (auto simp: name_ok_def)

lemma name_ok_hex: "bs \<noteq> [] \<Longrightarrow> name_ok (hex_encode bs)"
proof -
  assume "bs \<noteq> []"
  then obtain a b r where e: "hex_encode bs = a # b # r" by (cases bs) auto
  have "dot \<notin> set (hex_encode bs)" "slash \<notin> set (hex_encode bs)"
    using hex_encode_chars by blast+
  with e show ?thesis by (auto simp: name_ok_def)
qed

lemma clean_elems_append:
  "clean_elems r st (xs @ ys) = clean_elems r (rev (clean_elems r st xs)) ys"
  by (induction r st xs rule: clean_elems.induct) (auto split: list.splits)

lemma clean_elems_names:
  "(\<And>x. x \<in> set xs \<Longrightarrow> name_ok x) \<Longrightarrow> clean_elems r st xs = rev st @ xs"
  by (induction xs arbitrary: st) (auto simp: name_ok_def)

text \<open>What is on the stack: proper names, above a block of \<open>..\<close> that is there only if relative.\<close>

fun stack_ok :: "bool \<Rightarrow> string list \<Rightarrow> bool" where
  "stack_ok r [] = True"
| "stack_ok r (t # ts) =
     (if t = ''..'' then \<not> r \<and> set ts \<subseteq> {''..''} else name_ok t \<and> stack_ok r ts)"

lemma stack_ok_dots: "\<not> r \<Longrightarrow> set ts \<subseteq> {''..''} \<Longrightarrow> stack_ok r ts"
  by (induction ts) auto

lemma clean_elems_stack:
  "stack_ok r st \<Longrightarrow> (\<And>x. x \<in> set xs \<Longrightarrow> slash \<notin> set x) \<Longrightarrow> stack_ok r (rev (clean_elems r st xs))"
proof (induction r st xs rule: clean_elems.induct)
  case (2 r st c cs)
  have "stack_ok r (c # st)" if "c \<noteq> []" "c \<noteq> ''.''" "c \<noteq> ''..''"
    using that "2.prems" by (simp add: name_ok_def)
  moreover have "stack_ok r (if t = ''..'' then ''..'' # st else ts)" if "st = t # ts" for t ts
    using that "2.prems"(1) by (auto split: if_splits)
  ultimately show ?case
    using 2 by (auto split: list.splits)
qed simp

lemma stack_ok_mem: "x \<in> set st \<Longrightarrow> stack_ok r st \<Longrightarrow> x \<noteq> [] \<and> x \<noteq> ''.'' \<and> slash \<notin> set x"
  by (induction st) (auto simp: name_ok_def split: if_splits)

lemma clean_elems_mem:
  assumes "x \<in> set (clean_elems r [] (split_on slash p))"
  shows "x \<noteq> [] \<and> x \<noteq> ''.'' \<and> slash \<notin> set x"
proof -
  have "stack_ok r (rev (clean_elems r [] (split_on slash p)))"
    by (rule clean_elems_stack) (auto dest: split_on_parts)
  with assms show ?thesis using stack_ok_mem by (metis set_rev)
qed

lemma rooted_Cons [simp]: "rooted (c # cs) \<longleftrightarrow> c = slash" and rooted_Nil [simp]: "\<not> rooted []"
  by (simp_all add: rooted_def)

lemma rooted_append [simp]: "p \<noteq> [] \<Longrightarrow> rooted (p @ q) = rooted p"
  by (cases p) auto

lemma not_rooted_join: "(\<And>x. x \<in> set xs \<Longrightarrow> x \<noteq> [] \<and> slash \<notin> set x) \<Longrightarrow> \<not> rooted (join_with slash xs)"
  by (cases xs; cases "tl xs"; cases "hd xs") (fastforce simp: rooted_def)+

lemma rooted_Clean [simp]: "rooted (Clean p) = rooted p"
  by (auto simp: Clean_def Let_def dest: clean_elems_mem intro!: not_rooted_join
      simp del: not_rooted_join)

lemma comps_join:
  assumes "\<And>x. x \<in> set xs \<Longrightarrow> x \<noteq> [] \<and> x \<noteq> ''.'' \<and> slash \<notin> set x"
  shows "comps (join_with slash xs) = xs" "comps (slash # join_with slash xs) = [] # xs"
proof -
  have f: "filter (\<lambda>c. c \<noteq> [] \<and> c \<noteq> ''.'') xs = xs"
    using assms by (auto simp: filter_id_conv)
  have "\<not> rooted (join_with slash xs)" using assms by (intro not_rooted_join) auto
  then show "comps (join_with slash xs) = xs" "comps (slash # join_with slash xs) = [] # xs"
    using assms f by (cases "xs = []"; auto simp: comps_def split_on_join)+
qed

text \<open>The components of a cleaned path are its cleaned elements.\<close>

lemma comps_Clean:
  "p \<noteq> [] \<Longrightarrow> comps (Clean p) =
     (if rooted p then [[]] else []) @ clean_elems (rooted p) [] (split_on slash p)"
proof -
  let ?xs = "clean_elems (rooted p) [] (split_on slash p)"
  assume "p \<noteq> []"
  have xs: "x \<in> set ?xs \<Longrightarrow> x \<noteq> [] \<and> x \<noteq> ''.'' \<and> slash \<notin> set x" for x
    by (rule clean_elems_mem)
  have "?xs = []" if "join_with slash ?xs = []"
    using that xs by (cases ?xs; cases "tl ?xs") auto
  moreover have "comps ''.'' = []" by (simp add: comps_def)
  ultimately show ?thesis
    using \<open>p \<noteq> []\<close> comps_join [OF xs, of ?xs] by (auto simp: Clean_def Let_def)
qed

lemma Join_Cons: "p \<noteq> [] \<Longrightarrow> Join (p # ps) = Clean (join_with slash (p # ps))"
  by (simp add: Join_def)

lemma comps_Join_split:
  assumes "p \<noteq> []"
  shows "comps (Join [p, q]) =
    (if rooted p then [[]] else []) @
      clean_elems (rooted p) (rev (clean_elems (rooted p) [] (split_on slash p))) (split_on slash q)"
  using assms by (simp add: Join_Cons comps_Clean split_on_append_sep clean_elems_append)

lemma Join_names:
  assumes "\<And>x. x \<in> set xs \<Longrightarrow> name_ok x" "xs \<noteq> []"
  shows "Join xs = join_with slash xs"
proof -
  have ne: "join_with slash xs \<noteq> []"
    using assms by (cases xs; cases "tl xs") (auto simp: name_ok_def)
  have "\<not> rooted (join_with slash xs)"
    using assms by (intro not_rooted_join) (auto simp: name_ok_def)
  moreover have "split_on slash (join_with slash xs) = xs"
    using assms by (intro split_on_join) (auto simp: name_ok_def)
  ultimately have "Clean (join_with slash xs) = join_with slash xs"
    using assms ne by (simp add: Clean_def Let_def clean_elems_names)
  then show ?thesis using assms by (cases xs) (auto simp: Join_Cons name_ok_def)
qed

text \<open>Joining proper names to a path appends them to its components.\<close>

lemma comps_Join_names [path]:
  assumes "p \<noteq> []" "\<And>x. x \<in> set xs \<Longrightarrow> name_ok x" "xs \<noteq> []"
  shows "comps (Join [p, join_with slash xs]) = comps (Clean p) @ xs"
proof -
  have "split_on slash (join_with slash xs) = xs"
    using assms by (intro split_on_join) (auto simp: name_ok_def)
  then show ?thesis
    using assms by (simp add: comps_Join_split comps_Clean clean_elems_names)
qed

lemma comps_Join_name [path]:
  "p \<noteq> [] \<Longrightarrow> name_ok x \<Longrightarrow> comps (Join [p, x]) = comps (Clean p) @ [x]"
  using comps_Join_names [of p "[x]"] by simp

lemma Clean_nonempty [simp]: "Clean p \<noteq> []"
  by (auto simp: Clean_def Let_def)

lemma Join_Clean: "p \<noteq> [] \<Longrightarrow> Join (p # ps) \<noteq> []"
  by (simp add: Join_Cons)

lemma Clean_Clean [simp]: "Clean (Clean p) = Clean p"
proof (cases "p = []")
  case True
  have "Clean ''.'' = ''.''" by (simp add: Clean_def)
  then show ?thesis using True by (simp add: Clean_def)
next
  case False
  let ?xs = "clean_elems (rooted p) [] (split_on slash p)"
  have st: "stack_ok (rooted p) (rev ?xs)"
    by (rule clean_elems_stack) (auto dest: split_on_parts)
  have keep: "clean_elems r st' ys = rev st' @ ys"
    if "stack_ok r (rev ys @ st')" for r st' ys
    using that
  proof (induction ys arbitrary: st')
    case (Cons y ys)
    have sub: "stack_ok r (us @ vs) \<Longrightarrow> stack_ok r vs" for us vs
      by (induction us) (auto intro: stack_ok_dots split: if_splits)
    from Cons.prems have "stack_ok r (y # st')" using sub [of "rev ys" "y # st'"] by simp
    then show ?case
      using Cons.IH [of "y # st'"] Cons.prems
      by (auto simp: name_ok_def split: if_splits list.splits)
  qed simp
  have xs: "x \<in> set ?xs \<Longrightarrow> x \<noteq> [] \<and> x \<noteq> ''.'' \<and> slash \<notin> set x" for x
    by (rule clean_elems_mem)
  have "clean_elems (rooted p) [] ?xs = ?xs" using keep [of "rooted p" ?xs "[]"] st by simp
  moreover have "split_on slash (join_with slash ?xs) = (if ?xs = [] then [[]] else ?xs)"
    using xs by (auto intro: split_on_join)
  moreover have "\<not> rooted (join_with slash ?xs)" using xs by (intro not_rooted_join) auto
  moreover have "?xs = []" if "join_with slash ?xs = []"
    using that xs by (cases ?xs; cases "tl ?xs") auto
  moreover have "Clean ''.'' = ''.''" by (simp add: Clean_def)
  ultimately show ?thesis
    using False by (cases "?xs = []") (auto simp: Clean_def [of p] Clean_def [of "slash # _"]
        Clean_def [of "join_with slash _"] Let_def)
qed

lemma clean_elems_Clean:
  assumes "p \<noteq> []"
  shows "clean_elems (rooted p) [] (split_on slash (Clean p)) = clean_elems (rooted p) [] (split_on slash p)"
proof -
  have "comps (Clean (Clean p)) = comps (Clean p)" by simp
  moreover have "Clean p \<noteq> []" "rooted (Clean p) = rooted p" using assms by simp_all
  ultimately show ?thesis using comps_Clean [of "Clean p"] comps_Clean [OF assms] by (simp del: Clean_Clean)
qed

lemma Clean_cong:
  assumes "p \<noteq> []" "q \<noteq> []" "rooted p = rooted q"
    and "clean_elems (rooted q) [] (split_on slash p) = clean_elems (rooted q) [] (split_on slash q)"
  shows "Clean p = Clean q"
  using assms by (simp add: Clean_def)

lemma Clean_Join [simp]: "p \<noteq> [] \<Longrightarrow> Clean (Join (p # ps)) = Join (p # ps)"
  by (simp add: Join_Cons)

end
