(* ===== verification/File_System.thy ===== *)
theory File_System
  imports Go_Lib "HOL-Library.Sublist"
begin

text \<open>
  The file system the program works on: a tree of named nodes over a table of inodes, so that
  two names can be hard links to one file, as \<open>os.Link\<close> makes them. Every system call can fail
  for a reason of its own (\<open>faults\<close>, a schedule of hardware failures consumed one entry per
  call; a failing write may leave a part of its data), so that a statement about all states is
  a statement about all error paths of the code. Paths are addressed by their components
  (\<open>comps\<close>); symbolic links, permissions and time stamps are not modelled.
\<close>

section \<open>State\<close>

datatype node = Dir | File nat

record fs =
  tree :: "(string list \<times> node) list"
  inodes :: "nat \<Rightarrow> bytes"
  next_ino :: nat
  faults :: "(hardware \<times> nat) option list"
  rnd :: "nat \<Rightarrow> string"

text \<open>The working directory (no components) and the root always exist.\<close>

definition node_at :: "'z fs_scheme \<Rightarrow> string list \<Rightarrow> node option" where
  "node_at s ps = (if ps = [] \<or> ps = [[]] then Some Dir else map_of (tree s) ps)"

text \<open>What a reader of the path sees: nothing, a directory, or a file with its content.\<close>

definition view :: "'z fs_scheme \<Rightarrow> string list \<Rightarrow> bytes option option" where
  "view s ps = map_option (\<lambda>n. case n of Dir \<Rightarrow> None | File i \<Rightarrow> Some (inodes s i)) (node_at s ps)"

definition set_node :: "string list \<Rightarrow> node \<Rightarrow> 'z fs_scheme \<Rightarrow> 'z fs_scheme" where
  "set_node ps n s = s\<lparr>tree := AList.update ps n (tree s)\<rparr>"

definition del_node :: "string list \<Rightarrow> 'z fs_scheme \<Rightarrow> 'z fs_scheme" where
  "del_node ps s = s\<lparr>tree := AList.delete ps (tree s)\<rparr>"

text \<open>The walk down the path: every component before the last has to be a directory.\<close>

fun walk :: "(string list \<Rightarrow> node option) \<Rightarrow> string list \<Rightarrow> string list \<Rightarrow> errno + node" where
  "walk look pre [] = (case look pre of None \<Rightarrow> Inl ENOENT | Some n \<Rightarrow> Inr n)"
| "walk look pre (c # cs) =
     (case look pre of
        None \<Rightarrow> Inl ENOENT
      | Some (File _) \<Rightarrow> Inl ENOTDIR
      | Some Dir \<Rightarrow> walk look (pre @ [c]) cs)"

definition resolve :: "'z fs_scheme \<Rightarrow> string list \<Rightarrow> errno + node" where
  "resolve s ps = walk (node_at s) [] ps"

text \<open>The walk of a call that may create the last component.\<close>

definition resolve_new :: "'z fs_scheme \<Rightarrow> string list \<Rightarrow> errno + node option" where
  "resolve_new s ps =
     (case resolve s ps of
        Inr n \<Rightarrow> Inr (Some n)
      | Inl e \<Rightarrow>
          (case resolve s (butlast ps) of
             Inl e' \<Rightarrow> Inl e' | Inr (File _) \<Rightarrow> Inl ENOTDIR | Inr Dir \<Rightarrow> Inr None))"

definition children :: "'z fs_scheme \<Rightarrow> string list \<Rightarrow> string list" where
  "children s ps =
     map (last \<circ> fst) (filter (\<lambda>(k, n). k \<noteq> [] \<and> butlast k = ps) (tree s))"

section \<open>System calls\<close>

definition syscall :: "('z fs_scheme \<Rightarrow> (errno + 'a) \<times> 'z fs_scheme) \<Rightarrow> ('z fs_scheme, 'a) call" where
  "syscall f s =
     (case faults s of
        [] \<Rightarrow> map_prod (map_sum Errno id) id (f s)
      | None # fl \<Rightarrow> map_prod (map_sum Errno id) id (f (s\<lparr>faults := fl\<rparr>))
      | Some (h, k) # fl \<Rightarrow> (Inl (Errno (EHW h)), s\<lparr>faults := fl\<rparr>))"

definition os_Stat :: "string \<Rightarrow> ('z fs_scheme, node) call" where
  "os_Stat p = syscall (\<lambda>s. (resolve s (comps p), s))"

definition os_Open :: "string \<Rightarrow> ('z fs_scheme, node) call" where
  "os_Open p = syscall (\<lambda>s. (resolve s (comps p), s))"

definition read_all :: "node \<Rightarrow> ('z fs_scheme, bytes) call" where
  "read_all n = syscall (\<lambda>s. (case n of Dir \<Rightarrow> Inl EISDIR | File i \<Rightarrow> Inr (inodes s i), s))"

definition ioutil_ReadFile :: "string \<Rightarrow> ('z fs_scheme, bytes) call" where
  "ioutil_ReadFile p = bindE (os_Open p) read_all"

definition new_file :: "string list \<Rightarrow> 'z fs_scheme \<Rightarrow> (errno + nat) \<times> 'z fs_scheme" where
  "new_file ps s =
     (Inr (next_ino s), set_node ps (File (next_ino s))
        (s\<lparr>inodes := (inodes s)(next_ino s := []), next_ino := Suc (next_ino s)\<rparr>))"

text \<open>\<open>os.Create\<close>: an existing file is emptied, whatever other names it has.\<close>

definition k_create :: "string list \<Rightarrow> 'z fs_scheme \<Rightarrow> (errno + nat) \<times> 'z fs_scheme" where
  "k_create ps s =
     (case resolve_new s ps of
        Inl e \<Rightarrow> (Inl e, s)
      | Inr (Some Dir) \<Rightarrow> (Inl EISDIR, s)
      | Inr (Some (File i)) \<Rightarrow> (Inr i, s\<lparr>inodes := (inodes s)(i := [])\<rparr>)
      | Inr None \<Rightarrow> new_file ps s)"

definition k_create_excl :: "string list \<Rightarrow> 'z fs_scheme \<Rightarrow> (errno + nat) \<times> 'z fs_scheme" where
  "k_create_excl ps s =
     (case resolve_new s ps of
        Inl e \<Rightarrow> (Inl e, s)
      | Inr (Some _) \<Rightarrow> (Inl EEXIST, s)
      | Inr None \<Rightarrow> new_file ps s)"

definition k_mkdir :: "string list \<Rightarrow> 'z fs_scheme \<Rightarrow> (errno + unit) \<times> 'z fs_scheme" where
  "k_mkdir ps s =
     (case resolve_new s ps of
        Inl e \<Rightarrow> (Inl e, s)
      | Inr (Some _) \<Rightarrow> (Inl EEXIST, s)
      | Inr None \<Rightarrow> (Inr (), set_node ps Dir s))"

text \<open>
  \<open>rename(2)\<close> of a file: the new name is replaced in one step; two names of one file are left
  alone, as POSIX asks. Directories are never renamed by the program.
\<close>

definition k_rename :: "string list \<Rightarrow> string list \<Rightarrow> 'z fs_scheme \<Rightarrow> (errno + unit) \<times> 'z fs_scheme" where
  "k_rename a b s =
     (case resolve s a of
        Inl e \<Rightarrow> (Inl e, s)
      | Inr Dir \<Rightarrow> (Inl EISDIR, s)
      | Inr (File i) \<Rightarrow>
          (case resolve_new s b of
             Inl e \<Rightarrow> (Inl e, s)
           | Inr (Some Dir) \<Rightarrow> (Inl EISDIR, s)
           | Inr r \<Rightarrow> (Inr (), if r = Some (File i) then s
                                else set_node b (File i) (del_node a s))))"

definition k_remove :: "string list \<Rightarrow> 'z fs_scheme \<Rightarrow> (errno + unit) \<times> 'z fs_scheme" where
  "k_remove ps s =
     (case resolve s ps of
        Inl e \<Rightarrow> (Inl e, s)
      | Inr (File _) \<Rightarrow> (Inr (), del_node ps s)
      | Inr Dir \<Rightarrow>
          (if ps = [] \<or> ps = [[]] then (Inl EBUSY, s)
           else if children s ps \<noteq> [] then (Inl ENOTEMPTY, s)
           else (Inr (), del_node ps s)))"

definition k_removeAll :: "string list \<Rightarrow> 'z fs_scheme \<Rightarrow> (errno + unit) \<times> 'z fs_scheme" where
  "k_removeAll ps s = (Inr (), s\<lparr>tree := filter (\<lambda>(k, n). \<not> prefix ps k) (tree s)\<rparr>)"

definition k_link :: "string list \<Rightarrow> string list \<Rightarrow> 'z fs_scheme \<Rightarrow> (errno + unit) \<times> 'z fs_scheme" where
  "k_link a b s =
     (case resolve s a of
        Inl e \<Rightarrow> (Inl e, s)
      | Inr Dir \<Rightarrow> (Inl EPERM, s)
      | Inr (File i) \<Rightarrow>
          (case resolve_new s b of
             Inl e \<Rightarrow> (Inl e, s)
           | Inr (Some _) \<Rightarrow> (Inl EEXIST, s)
           | Inr None \<Rightarrow> (Inr (), set_node b (File i) s)))"

definition os_Create :: "string \<Rightarrow> ('z fs_scheme, nat) call" where
  "os_Create p = syscall (k_create (comps p))"

definition create_excl :: "string \<Rightarrow> ('z fs_scheme, nat) call" where
  "create_excl p = syscall (k_create_excl (comps p))"

definition os_Mkdir :: "string \<Rightarrow> ('z fs_scheme, unit) call" where
  "os_Mkdir p = syscall (k_mkdir (comps p))"

definition os_Rename :: "string \<Rightarrow> string \<Rightarrow> ('z fs_scheme, unit) call" where
  "os_Rename a b = syscall (k_rename (comps a) (comps b))"

definition os_Remove :: "string \<Rightarrow> ('z fs_scheme, unit) call" where
  "os_Remove p = syscall (k_remove (comps p))"

definition os_RemoveAll :: "string \<Rightarrow> ('z fs_scheme, unit) call" where
  "os_RemoveAll p = syscall (k_removeAll (comps p))"

definition os_Link :: "string \<Rightarrow> string \<Rightarrow> ('z fs_scheme, unit) call" where
  "os_Link a b = syscall (k_link (comps a) (comps b))"

text \<open>Appending to an open file; a fault leaves the first \<open>k\<close> bytes written.\<close>

definition append_to :: "nat \<Rightarrow> bytes \<Rightarrow> 'z fs_scheme \<Rightarrow> 'z fs_scheme" where
  "append_to i bs s = s\<lparr>inodes := (inodes s)(i := inodes s i @ bs)\<rparr>"

definition file_Write :: "nat \<Rightarrow> bytes \<Rightarrow> ('z fs_scheme, unit) call" where
  "file_Write i bs s =
     (case faults s of
        [] \<Rightarrow> (Inr (), append_to i bs s)
      | None # fl \<Rightarrow> (Inr (), append_to i bs (s\<lparr>faults := fl\<rparr>))
      | Some (h, k) # fl \<Rightarrow> (Inl (Errno (EHW h)), append_to i (take k bs) (s\<lparr>faults := fl\<rparr>)))"

text \<open>\<open>ioutil.ReadDir\<close>: the names in the directory in order.\<close>

definition ioutil_ReadDir :: "string \<Rightarrow> ('z fs_scheme, string list) call" where
  "ioutil_ReadDir p = syscall (\<lambda>s.
     (case resolve s (comps p) of
        Inl e \<Rightarrow> Inl e | Inr (File _) \<Rightarrow> Inl ENOTDIR | Inr Dir \<Rightarrow> Inr (sort (children s (comps p))), s))"

text \<open>
  \<open>filepath.Walk\<close> with a callback that ignores the error it is given and never returns one: the
  callback sees the root (present or not) and then every node below it, directories before
  their content and names in order, which is the order of the lists of components.
\<close>

definition filepath_Walk :: "string \<Rightarrow> 'z fs_scheme \<Rightarrow> string list list" where
  "filepath_Walk p s =
     comps p # (case resolve s (comps p) of
        Inr Dir \<Rightarrow> sort (map fst (filter (\<lambda>(k, n). strict_prefix (comps p) k) (tree s)))
      | _ \<Rightarrow> [])"

text \<open>
  \<open>ioutil.TempFile\<close> and \<open>TempDir\<close>: up to 10000 names with the next pseudo-random suffix until
  one does not exist. The suffixes are a stream in the state.
\<close>

definition nextSuffix :: "('z fs_scheme, string) call" where
  "nextSuffix s = (Inr (rnd s 0), s\<lparr>rnd := \<lambda>n. rnd s (Suc n)\<rparr>)"

fun temp_loop ::
  "(string \<Rightarrow> ('z fs_scheme, 'a) call) \<Rightarrow> nat \<Rightarrow> string \<Rightarrow> string \<Rightarrow> ('z fs_scheme, string \<times> 'a) call"
where
  "temp_loop mk 0 dir pre = throwE (Errno EEXIST)"
| "temp_loop mk (Suc n) dir pre =
     bindE nextSuffix (\<lambda>sfx.
     bindE (tryE (mk (Join [dir, pre @ sfx]))) (\<lambda>r. case r of
        Inr x \<Rightarrow> returnE (Join [dir, pre @ sfx], x)
      | Inl e \<Rightarrow> if os_IsExist e then temp_loop mk n dir pre else throwE e))"

definition ioutil_TempFile :: "string \<Rightarrow> string \<Rightarrow> ('z fs_scheme, string \<times> nat) call" where
  "ioutil_TempFile dir pre = temp_loop create_excl 10000 dir pre"

definition ioutil_TempDir :: "string \<Rightarrow> string \<Rightarrow> ('z fs_scheme, string) call" where
  "ioutil_TempDir dir pre = bindE (temp_loop os_Mkdir 10000 dir pre) (\<lambda>(d, u). returnE d)"

text \<open>\<open>os.MkdirAll\<close> on the reversed components.\<close>

fun mkdirAll :: "string list \<Rightarrow> ('z fs_scheme, unit) call" where
  "mkdirAll [] = returnE ()"
| "mkdirAll (c # cs) =
     (if c = [] \<and> cs = [] then returnE ()
      else bindE (tryE (syscall (\<lambda>s. (resolve s (rev (c # cs)), s)))) (\<lambda>r. case r of
        Inr Dir \<Rightarrow> returnE ()
      | Inr (File _) \<Rightarrow> throwE (Errno ENOTDIR)
      | Inl _ \<Rightarrow>
          bindE (mkdirAll cs) (\<lambda>_.
          catchE (syscall (k_mkdir (rev (c # cs)))) (\<lambda>e.
          bindE (tryE (syscall (\<lambda>s. (resolve s (rev (c # cs)), s)))) (\<lambda>r'.
            if r' = Inr Dir then returnE () else throwE e)))))"

definition os_MkdirAll :: "string \<Rightarrow> ('z fs_scheme, unit) call" where
  "os_MkdirAll p = mkdirAll (rev (comps p))"

section \<open>Well-formed states\<close>

text \<open>
  Every node has a directory above it, file numbers are below the next one to be given out, and
  a random suffix never contains a separator.
\<close>

definition is_path :: "string list \<Rightarrow> bool" where
  "is_path ps \<longleftrightarrow> ps \<noteq> [] \<and> ps \<noteq> [[]]"

definition wf_fs :: "'z fs_scheme \<Rightarrow> bool" where
  "wf_fs s \<longleftrightarrow>
     distinct (map fst (tree s)) \<and>
     (\<forall>ps n. map_of (tree s) ps = Some n \<longrightarrow> is_path ps \<and> node_at s (butlast ps) = Some Dir) \<and>
     (\<forall>ps i. node_at s ps = Some (File i) \<longrightarrow> i < next_ino s) \<and>
     (\<forall>n. slash \<notin> set (rnd s n))"

lemma node_at_root [simp]: "node_at s [] = Some Dir" "node_at s [[]] = Some Dir"
  by (simp_all add: node_at_def)

lemma node_at_path: "is_path ps \<Longrightarrow> node_at s ps = map_of (tree s) ps"
  by (simp add: node_at_def is_path_def)

lemma node_not_dir_path: "node_at s ps \<noteq> Some Dir \<Longrightarrow> is_path ps"
  by (auto simp: node_at_def is_path_def split: if_splits)

lemma view_simps [simp]:
  "view s ps = None \<longleftrightarrow> node_at s ps = None"
  "view s ps = Some None \<longleftrightarrow> node_at s ps = Some Dir"
  "view s ps = Some (Some d) \<longleftrightarrow> (\<exists>i. node_at s ps = Some (File i) \<and> inodes s i = d)"
  by (cases "node_at s ps"; cases "the (node_at s ps)"; auto simp: view_def)+

lemma node_at_cong:
  "tree t = tree s \<Longrightarrow> node_at t = node_at s"
  by (rule ext) (simp add: node_at_def)

lemma state_update_simps [simp]:
  "node_at (s\<lparr>faults := fl\<rparr>) = node_at s" "node_at (s\<lparr>rnd := x\<rparr>) = node_at s"
  "node_at (s\<lparr>inodes := g\<rparr>) = node_at s" "node_at (s\<lparr>next_ino := k\<rparr>) = node_at s"
  "view (s\<lparr>faults := fl\<rparr>) = view s" "view (s\<lparr>rnd := x\<rparr>) = view s"
  "wf_fs (s\<lparr>faults := fl\<rparr>) = wf_fs s" "wf_fs (s\<lparr>inodes := g\<rparr>) = wf_fs s"
  by (auto simp: node_at_def view_def wf_fs_def fun_eq_iff split: option.splits node.splits)

lemma wf_fs_parent:
  assumes "wf_fs s" "node_at s ps = Some n" "is_path ps"
  shows "node_at s (butlast ps) = Some Dir"
  using assms by (auto simp: wf_fs_def node_at_path)

lemma wf_fs_ino: "wf_fs s \<Longrightarrow> node_at s ps = Some (File i) \<Longrightarrow> i < next_ino s"
  by (auto simp: wf_fs_def)

lemma wf_fs_prefix:
  assumes "wf_fs s" "node_at s (xs @ ys) = Some n" "ys \<noteq> []"
  shows "node_at s xs = Some Dir"
  using assms(2,3)
proof (induction ys arbitrary: n rule: rev_induct)
  case (snoc y ys)
  have "node_at s (xs @ ys) = Some Dir"
  proof (cases "is_path (xs @ ys @ [y])")
    case True
    with snoc.prems assms(1) show ?thesis
      using wf_fs_parent [of s "xs @ ys @ [y]"] by (simp add: butlast_append)
  next
    case False
    then have "xs @ ys = []" by (auto simp: is_path_def append_eq_Cons_conv)
    then show ?thesis by simp
  qed
  then show ?case using snoc.IH by (cases "ys = []") auto
qed simp

lemma wf_fs_no_child:
  "wf_fs s \<Longrightarrow> node_at s ps \<noteq> Some Dir \<Longrightarrow> ys \<noteq> [] \<Longrightarrow> node_at s (ps @ ys) = None"
  using wf_fs_prefix by fastforce

lemma walk_Inr: "walk look pre cs = Inr n \<Longrightarrow> look (pre @ cs) = Some n"
  by (induction look pre cs rule: walk.induct) (auto split: option.splits node.splits)

lemma walk_ok:
  "(\<And>xs ys. cs = xs @ ys \<Longrightarrow> ys \<noteq> [] \<Longrightarrow> look (pre @ xs) = Some Dir) \<Longrightarrow>
   walk look pre cs = (case look (pre @ cs) of None \<Rightarrow> Inl ENOENT | Some n \<Rightarrow> Inr n)"
proof (induction cs arbitrary: pre)
  case (Cons c cs)
  have "look pre = Some Dir" using Cons.prems [of "[]" "c # cs"] by simp
  moreover have "walk look (pre @ [c]) cs = (case look ((pre @ [c]) @ cs) of None \<Rightarrow> Inl ENOENT | Some n \<Rightarrow> Inr n)"
  proof (rule Cons.IH)
    fix xs ys assume "cs = xs @ ys" "ys \<noteq> []"
    then show "look ((pre @ [c]) @ xs) = Some Dir" using Cons.prems [of "c # xs" ys] by simp
  qed
  ultimately show ?case by simp
qed (simp split: option.splits)

lemma resolve_Inr: "resolve s ps = Inr n \<Longrightarrow> node_at s ps = Some n"
  unfolding resolve_def by (drule walk_Inr) simp

lemma resolve_node: "wf_fs s \<Longrightarrow> node_at s ps = Some n \<Longrightarrow> resolve s ps = Inr n"
  unfolding resolve_def by (subst walk_ok) (auto dest: wf_fs_prefix)

lemma resolve_iff: "wf_fs s \<Longrightarrow> resolve s ps = Inr n \<longleftrightarrow> node_at s ps = Some n"
  using resolve_Inr resolve_node by blast

lemma resolve_absent:
  assumes wf: "wf_fs s" and "node_at s ps = None" "node_at s (butlast ps) = Some Dir"
  shows "resolve s ps = Inl ENOENT"
proof -
  have "node_at s xs = Some Dir" if "ps = xs @ ys" "ys \<noteq> []" for xs ys
  proof (cases "butlast ys = []")
    case True
    then show ?thesis using that assms by (simp add: butlast_append)
  next
    case False
    then show ?thesis using that assms(3) wf_fs_prefix [OF wf, of xs "butlast ys"]
      by (simp add: butlast_append)
  qed
  then show ?thesis unfolding resolve_def by (subst walk_ok) (auto simp: assms)
qed

lemma resolve_new_Some: "wf_fs s \<Longrightarrow> node_at s ps = Some n \<Longrightarrow> resolve_new s ps = Inr (Some n)"
  by (simp add: resolve_new_def resolve_node)

lemma resolve_new_None:
  "wf_fs s \<Longrightarrow> node_at s ps = None \<Longrightarrow> node_at s (butlast ps) = Some Dir \<Longrightarrow>
   resolve_new s ps = Inr None"
  by (simp add: resolve_new_def resolve_absent resolve_node)

lemma resolve_new_InrD:
  assumes "wf_fs s" "resolve_new s ps = Inr r"
  shows "r = node_at s ps" "node_at s (butlast ps) = Some Dir \<or> ps = [[]]"
proof -
  show "r = node_at s ps"
  proof (cases "resolve s ps")
    case (Inl e)
    then have "node_at s ps = None"
      using resolve_node [OF assms(1)] by (cases "node_at s ps") auto
    with Inl show ?thesis
      using assms by (auto simp: resolve_new_def split: sum.splits node.splits)
  next
    case (Inr n)
    then show ?thesis using assms by (auto simp: resolve_new_def dest: resolve_Inr)
  qed
  show "node_at s (butlast ps) = Some Dir \<or> ps = [[]]"
  proof (cases "resolve s ps")
    case (Inl e)
    then show ?thesis
      using assms by (auto simp: resolve_new_def split: sum.splits node.splits dest: resolve_Inr)
  next
    case (Inr n)
    then have "node_at s ps = Some n" by (rule resolve_Inr)
    then show ?thesis
      using wf_fs_parent [OF assms(1), of ps n] by (cases "ps = []") (auto simp: is_path_def)
  qed
qed

lemma node_at_set_node [simp]:
  "node_at (set_node ps n s) qs = (if is_path ps \<and> qs = ps then Some n else node_at s qs)"
  by (auto simp: node_at_def set_node_def is_path_def update_conv')

lemma node_at_del_node [simp]:
  "node_at (del_node ps s) qs = (if is_path ps \<and> qs = ps then None else node_at s qs)"
  by (auto simp: node_at_def del_node_def is_path_def delete_conv')

lemma set_node_fields [simp]:
  "inodes (set_node ps n s) = inodes s" "next_ino (set_node ps n s) = next_ino s"
  "faults (set_node ps n s) = faults s" "rnd (set_node ps n s) = rnd s"
  "fs.more (set_node ps n s) = fs.more s"
  by (simp_all add: set_node_def)

lemma del_node_fields [simp]:
  "inodes (del_node ps s) = inodes s" "next_ino (del_node ps s) = next_ino s"
  "faults (del_node ps s) = faults s" "rnd (del_node ps s) = rnd s"
  "fs.more (del_node ps s) = fs.more s"
  by (simp_all add: del_node_def)

lemma butlast_neq: "is_path ps \<Longrightarrow> butlast ps \<noteq> ps"
  by (cases ps rule: rev_cases) (auto simp: is_path_def)

lemma wf_set_node:
  assumes wf: "wf_fs s" and "node_at s ps \<noteq> Some Dir" "node_at s (butlast ps) = Some Dir"
    and ino: "\<And>i. n = File i \<Longrightarrow> i < next_ino s"
  shows "wf_fs (set_node ps n s)"
proof -
  have path: "is_path ps" using assms(2) by (rule node_not_dir_path)
  have "distinct (map fst (tree (set_node ps n s)))"
    using wf by (simp add: wf_fs_def set_node_def distinct_update)
  moreover have "is_path qs \<and> node_at (set_node ps n s) (butlast qs) = Some Dir"
    if "map_of (tree (set_node ps n s)) qs = Some m" for qs m
  proof (cases "qs = ps")
    case True
    then show ?thesis using assms path butlast_neq by simp
  next
    case False
    then have "map_of (tree s) qs = Some m"
      using that by (simp add: set_node_def update_conv')
    then show ?thesis using wf assms(2) by (auto simp: wf_fs_def)
  qed
  ultimately show ?thesis
    using wf ino path by (auto simp: wf_fs_def)
qed

lemma wf_del_node:
  assumes wf: "wf_fs s" and nochild: "\<And>c. node_at s (ps @ [c]) = None"
  shows "wf_fs (del_node ps s)"
proof (cases "is_path ps")
  case True
  have "distinct (map fst (tree (del_node ps s)))"
    using wf by (simp add: wf_fs_def del_node_def distinct_delete)
  moreover have "is_path qs \<and> node_at (del_node ps s) (butlast qs) = Some Dir"
    if "map_of (tree (del_node ps s)) qs = Some m" for qs m
  proof -
    have qs: "map_of (tree s) qs = Some m" "qs \<noteq> ps"
      using that by (auto simp: del_node_def delete_conv' split: if_splits)
    then have "is_path qs" "node_at s (butlast qs) = Some Dir" using wf by (auto simp: wf_fs_def)
    moreover have "butlast qs \<noteq> ps"
    proof
      assume "butlast qs = ps"
      then have "qs = ps @ [last qs]"
        using \<open>is_path qs\<close> by (metis append_butlast_last_id is_path_def)
      then show False using nochild [of "last qs"] qs \<open>is_path qs\<close> by (simp add: node_at_path)
    qed
    ultimately show ?thesis by simp
  qed
  ultimately show ?thesis using wf by (auto simp: wf_fs_def split: if_splits)
next
  case False
  then have "node_at (del_node ps s) = node_at s" by auto
  moreover have "map_of (tree s) ps = None" using wf False by (cases "map_of (tree s) ps") (auto simp: wf_fs_def)
  then have "tree (del_node ps s) = tree s"
    by (simp add: del_node_def map_of_eq_None_iff)
  ultimately show ?thesis using wf by (simp add: wf_fs_def)
qed

lemma wf_del_file: "wf_fs s \<Longrightarrow> node_at s ps = Some (File i) \<Longrightarrow> wf_fs (del_node ps s)"
  by (rule wf_del_node) (auto intro: wf_fs_no_child)

lemma children_None:
  assumes "wf_fs s" "children s ps = []" "is_path (ps @ [c])"
  shows "node_at s (ps @ [c]) = None"
proof (rule ccontr)
  assume "node_at s (ps @ [c]) \<noteq> None"
  then obtain n where "(ps @ [c], n) \<in> set (tree s)"
    using assms(3) by (auto simp: node_at_path dest: map_of_SomeD)
  then have "c \<in> set (children s ps)" by (force simp: children_def)
  with assms show False by simp
qed

section \<open>What the calls do to the view\<close>

lemma view_set_file:
  "is_path ps \<Longrightarrow> view (set_node ps (File i) s) = (view s)(ps \<mapsto> Some (inodes s i))"
  by (auto simp: view_def fun_eq_iff)

lemma view_set_dir: "is_path ps \<Longrightarrow> view (set_node ps Dir s) = (view s)(ps \<mapsto> None)"
  by (auto simp: view_def fun_eq_iff)

lemma view_del_node: "is_path ps \<Longrightarrow> view (del_node ps s) = (view s)(ps := None)"
  by (auto simp: view_def fun_eq_iff)

lemma view_cong_inodes:
  "(\<And>i. node_at s ps = Some (File i) \<Longrightarrow> inodes t i = inodes s i) \<Longrightarrow> node_at t ps = node_at s ps \<Longrightarrow>
   view t ps = view s ps"
  by (cases "node_at s ps"; cases "the (node_at s ps)") (auto simp: view_def)

text \<open>The only name of an open file.\<close>

definition sole :: "'z fs_scheme \<Rightarrow> string list \<Rightarrow> nat \<Rightarrow> bool" where
  "sole s ps i \<longleftrightarrow> node_at s ps = Some (File i) \<and> (\<forall>qs. node_at s qs = Some (File i) \<longrightarrow> qs = ps)"

lemma new_file_props:
  assumes wf: "wf_fs s" and absent: "node_at s ps = None" and parent: "node_at s (butlast ps) = Some Dir"
    and t: "new_file ps s = (r, t)"
  shows "r = Inr (next_ino s)" "wf_fs t" "view t = (view s)(ps \<mapsto> Some [])"
    "sole t ps (next_ino s)" "inodes t (next_ino s) = []" "faults t = faults s"
    "rnd t = rnd s" "fs.more t = fs.more s"
proof -
  let ?s = "s\<lparr>inodes := (inodes s)(next_ino s := []), next_ino := Suc (next_ino s)\<rparr>"
  have path: "is_path ps" using absent by (auto intro: node_not_dir_path [of s])
  have less: "node_at s qs = Some (File i) \<Longrightarrow> i < next_ino s" for qs i
    using wf by (rule wf_fs_ino)
  have wf': "wf_fs ?s"
    using wf by (fastforce simp: wf_fs_def node_at_def split: if_splits)
  have t': "t = set_node ps (File (next_ino s)) ?s" and "r = Inr (next_ino s)"
    using t by (simp_all add: new_file_def)
  then show "r = Inr (next_ino s)" by simp
  show "wf_fs t" unfolding t' by (rule wf_set_node [OF wf']) (simp_all add: absent parent)
  show "view t = (view s)(ps \<mapsto> Some [])"
  proof
    fix qs show "view t qs = ((view s)(ps \<mapsto> Some [])) qs"
    proof (cases "qs = ps")
      case True
      then show ?thesis using path by (simp add: t' view_set_file)
    next
      case False
      then show ?thesis by (auto simp: t' dest: less intro!: view_cong_inodes)
    qed
  qed
  show "sole t ps (next_ino s)" using path less by (auto simp: sole_def t')
  show "inodes t (next_ino s) = []" "faults t = faults s" "rnd t = rnd s"
    "fs.more t = fs.more s"
    by (simp_all add: t')
qed

lemma append_to_props:
  assumes "sole s ps i"
  shows "sole (append_to i bs s) ps i" "inodes (append_to i bs s) i = inodes s i @ bs"
    "qs \<noteq> ps \<Longrightarrow> view (append_to i bs s) qs = view s qs"
proof -
  show "sole (append_to i bs s) ps i" "inodes (append_to i bs s) i = inodes s i @ bs"
    using assms by (simp_all add: append_to_def sole_def)
  assume "qs \<noteq> ps"
  with assms have "node_at s qs \<noteq> Some (File i)" by (auto simp: sole_def)
  then show "view (append_to i bs s) qs = view s qs"
    by (intro view_cong_inodes) (auto simp: append_to_def)
qed

lemma append_to_fields [simp]:
  "wf_fs (append_to i bs s) = wf_fs s" "faults (append_to i bs s) = faults s"
  "fs.more (append_to i bs s) = fs.more s" "node_at (append_to i bs s) = node_at s"
  by (simp_all add: append_to_def)

lemma k_rename_Inl: "k_rename a b s = (Inl e, t) \<Longrightarrow> t = s"
  by (auto simp: k_rename_def split: sum.splits node.splits option.splits if_splits)

lemma k_rename_Inr:
  assumes wf: "wf_fs s" and t: "k_rename a b s = (Inr u, t)" and a: "sole s a i"
  shows "wf_fs t"
    and "view t = (if b = a then view s else (view s)(a := None, b \<mapsto> Some (inodes s i)))"
    and "fs.more t = fs.more s" "faults t = faults s"
proof -
  have na: "node_at s a = Some (File i)" and only: "node_at s qs = Some (File i) \<Longrightarrow> qs = a" for qs
    using a by (auto simp: sole_def)
  have pa: "is_path a" using na by (auto intro: node_not_dir_path [of s])
  have ra: "resolve s a = Inr (File i)" using na by (rule resolve_node [OF wf])
  obtain r where r: "resolve_new s b = Inr r" and nd: "r \<noteq> Some Dir"
    and t': "t = (if r = Some (File i) then s else set_node b (File i) (del_node a s))"
    using t by (auto simp: k_rename_def ra split: sum.splits option.splits node.splits)
  have rb: "r = node_at s b" using resolve_new_InrD [OF wf r] by simp
  have pb: "is_path b" using nd rb by (auto intro: node_not_dir_path [of s])
  have pd: "node_at s (butlast b) = Some Dir"
    using resolve_new_InrD [OF wf r] pb by (auto simp: is_path_def)
  have case1: "b = a" if "r = Some (File i)" using that only rb by auto
  have case2: "b \<noteq> a" if "r \<noteq> Some (File i)" using that na rb by auto
  show "view t = (if b = a then view s else (view s)(a := None, b \<mapsto> Some (inodes s i)))"
    using case1 case2 pa pb by (auto simp: t' view_set_file view_del_node)
  have "wf_fs (del_node a s)" using wf na by (rule wf_del_file)
  moreover have "butlast b \<noteq> a" using pd na by auto
  ultimately have "wf_fs (set_node b (File i) (del_node a s))" if "b \<noteq> a"
    using that nd rb pd wf_fs_ino [OF wf na] by (intro wf_set_node) auto
  then show "wf_fs t" using wf case2 by (auto simp: t')
  show "fs.more t = fs.more s" "faults t = faults s" by (auto simp: t')
qed

lemma k_rename_total:
  "wf_fs s \<Longrightarrow> node_at s a = Some (File i) \<Longrightarrow> node_at s (butlast b) = Some Dir \<Longrightarrow>
   node_at s b \<noteq> Some Dir \<Longrightarrow> \<exists>t. k_rename a b s = (Inr (), t)"
  by (cases "node_at s b"; cases "the (node_at s b)")
     (auto simp: k_rename_def resolve_node resolve_new_None resolve_new_Some)

lemma k_remove_Inl: "k_remove ps s = (Inl e, t) \<Longrightarrow> t = s"
  by (auto simp: k_remove_def split: sum.splits node.splits if_splits)

lemma k_remove_Inr:
  assumes wf: "wf_fs s" and t: "k_remove ps s = (Inr u, t)"
  shows "wf_fs t" "view t = (view s)(ps := None)" "node_at s ps \<noteq> None" "is_path ps"
    "fs.more t = fs.more s" "faults t = faults s"
proof -
  obtain n where r: "resolve s ps = Inr n" and t': "t = del_node ps s"
    and c: "n = Dir \<Longrightarrow> children s ps = [] \<and> is_path ps"
    using t by (auto simp: k_remove_def is_path_def split: sum.splits node.splits if_splits)
  then have n: "node_at s ps = Some n" by (auto dest: resolve_Inr)
  then have p: "is_path ps" using c by (cases n) (auto intro: node_not_dir_path [of s])
  have "node_at s (ps @ [x]) = None" for x
    using c wf_fs_no_child [OF wf, of ps "[x]"] children_None [OF wf, of ps x] n p
    by (cases n) (auto simp: is_path_def)
  then show "wf_fs t" unfolding t' by (rule wf_del_node [OF wf])
  show "view t = (view s)(ps := None)" "node_at s ps \<noteq> None" "is_path ps"
    "fs.more t = fs.more s" "faults t = faults s"
    using n p by (simp_all add: t' view_del_node)
qed

lemma k_mkdir_Inl: "k_mkdir ps s = (Inl e, t) \<Longrightarrow> t = s"
  by (auto simp: k_mkdir_def split: sum.splits option.splits)

lemma k_mkdir_Inr:
  assumes wf: "wf_fs s" and t: "k_mkdir ps s = (Inr u, t)"
  shows "wf_fs t" "view t = (view s)(ps \<mapsto> None)" "node_at s ps = None" "is_path ps"
    "node_at s (butlast ps) = Some Dir" "fs.more t = fs.more s" "faults t = faults s"
    "rnd t = rnd s"
proof -
  have r: "resolve_new s ps = Inr None" and t': "t = set_node ps Dir s"
    using t by (auto simp: k_mkdir_def split: sum.splits option.splits)
  have n: "node_at s ps = None" "node_at s (butlast ps) = Some Dir"
    using resolve_new_InrD [OF wf r] by auto
  then have p: "is_path ps" by (auto intro: node_not_dir_path [of s])
  show "wf_fs t" unfolding t' by (rule wf_set_node [OF wf]) (auto simp: n)
  show "view t = (view s)(ps \<mapsto> None)" "node_at s ps = None" "is_path ps"
    "node_at s (butlast ps) = Some Dir" "fs.more t = fs.more s" "faults t = faults s"
    "rnd t = rnd s"
    using n p by (simp_all add: t' view_set_dir)
qed

lemma k_create_excl_Inl: "k_create_excl ps s = (Inl e, t) \<Longrightarrow> t = s"
  by (auto simp: k_create_excl_def new_file_def split: sum.splits option.splits)

lemma k_create_excl_Inr:
  assumes wf: "wf_fs s" and t: "k_create_excl ps s = (Inr i, t)"
  shows "node_at s ps = None" "node_at s (butlast ps) = Some Dir" "new_file ps s = (Inr i, t)"
proof -
  have r: "resolve_new s ps = Inr None" and "new_file ps s = (Inr i, t)"
    using t by (auto simp: k_create_excl_def split: sum.splits option.splits)
  then show "node_at s ps = None" "node_at s (butlast ps) = Some Dir" "new_file ps s = (Inr i, t)"
    using resolve_new_InrD [OF wf r] by auto
qed

lemma map_of_filter_key:
  "map_of (filter (\<lambda>(k, n). P k) al) x = (if P x then map_of al x else None)"
  by (induction al) auto

lemma k_removeAll_props:
  assumes wf: "wf_fs s" and p: "is_path ps" and t: "k_removeAll ps s = (r, t)"
  shows "wf_fs t" "view t qs = (if prefix ps qs then None else view s qs)"
    "fs.more t = fs.more s" "faults t = faults s" "r = Inr ()"
proof -
  have t': "t = s\<lparr>tree := filter (\<lambda>(k, n). \<not> prefix ps k) (tree s)\<rparr>" "r = Inr ()"
    using t by (auto simp: k_removeAll_def)
  have m: "map_of (tree t) qs = (if prefix ps qs then None else map_of (tree s) qs)" for qs
    by (simp add: t' map_of_filter_key)
  show "r = Inr ()" "fs.more t = fs.more s" "faults t = faults s" using t' by simp_all
  have np: "\<not> prefix ps []" "\<not> prefix ps [[]]"
    using p by (auto simp: is_path_def prefix_Cons)
  have n: "node_at t qs = (if prefix ps qs then None else node_at s qs)" for qs
    using m np by (auto simp: node_at_def)
  show "view t qs = (if prefix ps qs then None else view s qs)"
    by (simp add: view_def n) (simp add: t')
  have d: "distinct (map fst (tree t))"
    using wf by (simp add: t' wf_fs_def distinct_map_filter)
  have "is_path qs \<and> node_at t (butlast qs) = Some Dir" if "map_of (tree t) qs = Some k" for qs k
  proof -
    have q: "map_of (tree s) qs = Some k" "\<not> prefix ps qs" using that m by (auto split: if_splits)
    then have "is_path qs" "node_at s (butlast qs) = Some Dir" using wf by (auto simp: wf_fs_def)
    moreover have "\<not> prefix ps (butlast qs)"
      using q by (metis prefix_order.trans prefixeq_butlast)
    ultimately show ?thesis by (simp add: n)
  qed
  moreover have "i < next_ino t" if "node_at t qs = Some (File i)" for qs i
    using that wf_fs_ino [OF wf, of qs i] by (simp add: n split: if_splits) (simp add: t')
  moreover have "rnd t = rnd s" by (simp add: t')
  ultimately show "wf_fs t" using wf d by (simp add: wf_fs_def)
qed

end
