(* ===== verification/File_Rules.thy ===== *)
theory File_Rules
  imports File_System
begin

text \<open>
  Hoare rules for the system calls, over the view of the file system. The ghost boolean \<open>c\<close>
  says that no hardware fault is scheduled: one rule then gives both what a call does under
  every fault schedule and that it cannot fail where nothing is wrong. \<open>fs_st c V\<close> fixes the
  whole view, \<open>temp_st\<close> is a view with one private, freshly made file, \<open>agree T V\<close> fixes the
  view outside the directory \<open>T\<close>.
\<close>

definition fs_st :: "bool \<Rightarrow> (string list \<Rightarrow> bytes option option) \<Rightarrow> 'z fs_scheme \<Rightarrow> bool" where
  "fs_st c V s \<longleftrightarrow> wf_fs s \<and> (c \<longrightarrow> faults s = []) \<and> view s = V"

definition temp_st ::
  "bool \<Rightarrow> (string list \<Rightarrow> bytes option option) \<Rightarrow> string list \<Rightarrow> nat \<Rightarrow> bytes \<Rightarrow> 'z fs_scheme \<Rightarrow> bool"
where
  "temp_st c V ps i d s \<longleftrightarrow>
     wf_fs s \<and> (c \<longrightarrow> faults s = []) \<and> sole s ps i \<and> inodes s i = d \<and> view s = V(ps \<mapsto> Some d)
     \<and> V ps = None"

definition agree ::
  "string list \<Rightarrow> (string list \<Rightarrow> bytes option option) \<Rightarrow> 'z fs_scheme \<Rightarrow> bool" where
  "agree T V s \<longleftrightarrow> wf_fs s \<and> (\<forall>ps. \<not> prefix T ps \<longrightarrow> view s ps = V ps)"

lemma fs_st_agree: "fs_st c V s \<Longrightarrow> agree T V s"
  by (simp add: fs_st_def agree_def)

lemma temp_st_agree: "temp_st c V ps i d s \<Longrightarrow> prefix T ps \<Longrightarrow> agree T V s"
  by (auto simp: temp_st_def agree_def)

lemma temp_st_fs_st: "temp_st c V ps i d s \<Longrightarrow> fs_st c (V(ps \<mapsto> Some d)) s"
  by (simp add: temp_st_def fs_st_def)

lemma fs_st_node: "fs_st c V s \<Longrightarrow> node_at s ps = None \<longleftrightarrow> V ps = None"
  by (auto simp: fs_st_def)

lemma fs_st_dir: "fs_st c V s \<Longrightarrow> node_at s ps = Some Dir \<longleftrightarrow> V ps = Some None"
  by (auto simp: fs_st_def)

lemma fs_st_Some: "fs_st c V s \<Longrightarrow> node_at s ps = Some n \<Longrightarrow> \<exists>x. V ps = Some x"
  using fs_st_node [of c V s ps] by (cases "V ps") auto

lemma fs_st_faults: "fs_st c V s \<Longrightarrow> faults s = x # fl \<Longrightarrow> fs_st c V (s\<lparr>faults := fl\<rparr>) \<and> \<not> c"
  by (auto simp: fs_st_def)

lemma temp_st_faults:
  "temp_st c V ps i d s \<Longrightarrow> faults s = x # fl \<Longrightarrow> temp_st c V ps i d (s\<lparr>faults := fl\<rparr>) \<and> \<not> c"
  by (auto simp: temp_st_def sole_def)

text \<open>The rule every other one comes from.\<close>

lemma triple_syscall:
  assumes fault: "\<And>s x fl. P s \<Longrightarrow> faults s = x # fl \<Longrightarrow> P (s\<lparr>faults := fl\<rparr>)"
    and hw: "\<And>s h k fl. P s \<Longrightarrow> faults s = Some (h, k) # fl \<Longrightarrow> R (Errno (EHW h)) (s\<lparr>faults := fl\<rparr>)"
    and ok: "\<And>s x t. P s \<Longrightarrow> f s = (Inr x, t) \<Longrightarrow> Q x t"
    and err: "\<And>s e t. P s \<Longrightarrow> f s = (Inl e, t) \<Longrightarrow> R (Errno e) t"
  shows "triple P (syscall f) Q R"
proof (rule tripleI)
  fix s assume P: "P s"
  have kernel: "case map_prod (map_sum Errno id) id (f u) of (Inl e, s') \<Rightarrow> R e s' | (Inr x, s') \<Rightarrow> Q x s'"
    if "P u" for u
    using ok [OF that] err [OF that] by (cases "f u"; cases "fst (f u)") auto
  show "case syscall f s of (Inl e, s') \<Rightarrow> R e s' | (Inr x, s') \<Rightarrow> Q x s'"
  proof (cases "faults s")
    case Nil
    then show ?thesis using kernel [OF P] by (simp add: syscall_def)
  next
    case (Cons x fl)
    then show ?thesis
      using kernel [OF fault [OF P Cons]] hw [OF P] by (cases x) (auto simp: syscall_def)
  qed
qed

text \<open>A call that only looks.\<close>

lemma stat_triple:
  "triple (fs_st c V) (syscall (\<lambda>s. (resolve s ps, s)))
     (\<lambda>n s. fs_st c V s \<and> node_at s ps = Some n)
     (\<lambda>e s. fs_st c V s \<and> \<not> is_panic e \<and> \<not> os_IsExist e \<and> (e = Errno ENOENT \<longrightarrow> V ps = None) \<and>
        (c \<longrightarrow> V ps = None \<and> (V (butlast ps) = Some None \<longrightarrow> e = Errno ENOENT)))"
proof (rule triple_syscall)
  fix s :: "'a fs_scheme" and e t
  assume s: "fs_st c V s" and "(resolve s ps, s) = (Inl e, t)"
  then have e: "resolve s ps = Inl e" "t = s" by auto
  then have none: "node_at s ps = None"
    using resolve_node [of s ps] s by (cases "node_at s ps") (auto simp: fs_st_def)
  have "e = ENOENT" if "V (butlast ps) = Some None"
    using that e none s resolve_absent [of s ps] by (auto simp: fs_st_def)
  moreover have "e = ENOENT \<or> e = ENOTDIR"
  proof -
    have "walk look pre cs = Inl e \<Longrightarrow> e = ENOENT \<or> e = ENOTDIR" for look pre cs
      by (induction look pre cs rule: walk.induct) (auto split: option.splits node.splits)
    then show ?thesis using e by (auto simp: resolve_def)
  qed
  ultimately show "fs_st c V t \<and> \<not> is_panic (Errno e) \<and> \<not> os_IsExist (Errno e) \<and>
      (Errno e = Errno ENOENT \<longrightarrow> V ps = None) \<and>
      (c \<longrightarrow> V ps = None \<and> (V (butlast ps) = Some None \<longrightarrow> Errno e = Errno ENOENT))"
    using s none e by (auto simp: fs_st_node)
qed (auto dest: resolve_Inr fs_st_faults)

lemma os_Stat_triple:
  "triple (fs_st c V) (os_Stat p)
     (\<lambda>n s. fs_st c V s \<and> node_at s (comps p) = Some n)
     (\<lambda>e s. fs_st c V s \<and> \<not> is_panic e \<and> \<not> os_IsExist e \<and> (e = Errno ENOENT \<longrightarrow> V (comps p) = None) \<and>
        (c \<longrightarrow> V (comps p) = None \<and> (V (butlast (comps p)) = Some None \<longrightarrow> e = Errno ENOENT)))"
  unfolding os_Stat_def by (rule stat_triple)

lemma os_Open_triple:
  "triple (fs_st c V) (os_Open p)
     (\<lambda>n s. fs_st c V s \<and> node_at s (comps p) = Some n)
     (\<lambda>e s. fs_st c V s \<and> \<not> is_panic e \<and> \<not> os_IsExist e \<and> (e = Errno ENOENT \<longrightarrow> V (comps p) = None) \<and>
        (c \<longrightarrow> V (comps p) = None \<and> (V (butlast (comps p)) = Some None \<longrightarrow> e = Errno ENOENT)))"
  unfolding os_Open_def by (rule stat_triple)

lemma read_all_triple:
  "triple (\<lambda>s. fs_st c V s \<and> node_at s ps = Some n) (read_all n)
     (\<lambda>d s. fs_st c V s \<and> V ps = Some (Some d))
     (\<lambda>e s. fs_st c V s \<and> \<not> is_panic e \<and> e \<noteq> Errno ENOENT \<and> (c \<longrightarrow> n = Dir))"
  unfolding read_all_def
  by (rule triple_syscall) (auto simp: fs_st_def split: node.splits)

lemma ioutil_ReadFile_triple:
  "triple (fs_st c V) (ioutil_ReadFile p)
     (\<lambda>d s. fs_st c V s \<and> V (comps p) = Some (Some d))
     (\<lambda>e s. fs_st c V s \<and> \<not> is_panic e \<and> (e = Errno ENOENT \<longrightarrow> V (comps p) = None) \<and>
        (c \<longrightarrow> (\<forall>d. V (comps p) \<noteq> Some (Some d)) \<and>
           (V (comps p) = None \<and> V (butlast (comps p)) = Some None \<longrightarrow> e = Errno ENOENT)))"
  unfolding ioutil_ReadFile_def
proof (rule triple_bind [where M = "\<lambda>n s. fs_st c V s \<and> node_at s (comps p) = Some n"],
    goal_cases)
  case 1
  show ?case by (rule triple_weaken [OF os_Open_triple]) auto
next
  case (2 n)
  have "triple (\<lambda>s. V (comps p) = Some (case n of Dir \<Rightarrow> None | File i \<Rightarrow> Some (inodes s i)) \<and> fs_st c V s \<and> node_at s (comps p) = Some n) (read_all n)
     (\<lambda>d s. fs_st c V s \<and> V (comps p) = Some (Some d))
     (\<lambda>e s. fs_st c V s \<and> \<not> is_panic e \<and> e \<noteq> Errno ENOENT \<and> (c \<longrightarrow> V (comps p) = Some None))"
    unfolding read_all_def
    by (rule triple_syscall) (auto simp: fs_st_def split: node.splits)
  then show ?case
    by (rule triple_weaken) (auto simp: fs_st_def view_def split: node.splits)
qed

lemma create_excl_triple:
  "triple (fs_st c V) (create_excl p)
     (\<lambda>i s. temp_st c V (comps p) i [] s)
     (\<lambda>e s. fs_st c V s \<and> \<not> is_panic e \<and> (os_IsExist e \<longrightarrow> V (comps p) \<noteq> None) \<and>
        (c \<and> V (butlast (comps p)) = Some None \<longrightarrow> V (comps p) \<noteq> None \<and> os_IsExist e))"
  unfolding create_excl_def
proof (rule triple_syscall)
  fix s :: "'a fs_scheme" and i t
  assume s: "fs_st c V s" and k: "k_create_excl (comps p) s = (Inr i, t)"
  then have wf: "wf_fs s" by (simp add: fs_st_def)
  note k' = k_create_excl_Inr [OF wf k]
  note props = new_file_props [OF wf k']
  show "temp_st c V (comps p) i [] t"
    using s props k'(1) by (auto simp: temp_st_def fs_st_def)
next
  fix s :: "'a fs_scheme" and e t
  assume s: "fs_st c V s" and k: "k_create_excl (comps p) s = (Inl e, t)"
  then have wf: "wf_fs s" and V: "view s = V" by (simp_all add: fs_st_def)
  have ts: "t = s" using k by (rule k_create_excl_Inl)
  have "V (comps p) \<noteq> None \<and> e = EEXIST" if "V (butlast (comps p)) = Some None"
    using that k resolve_new_None [OF wf, of "comps p"] resolve_new_Some [OF wf, of "comps p"]
      fs_st_node [OF s, of "comps p"] fs_st_dir [OF s, of "butlast (comps p)"]
    by (cases "node_at s (comps p)") (auto simp: k_create_excl_def new_file_def)
  moreover have "V (comps p) \<noteq> None" if "os_IsExist (Errno e)"
  proof (cases "resolve_new s (comps p)")
    case (Inl e')
    have "walk look pre cs = Inl x \<Longrightarrow> x = ENOENT \<or> x = ENOTDIR" for look pre cs x
      by (induction look pre cs rule: walk.induct) (auto split: option.splits node.splits)
    then have "e' = ENOENT \<or> e' = ENOTDIR"
      using Inl by (auto simp: resolve_new_def resolve_def split: sum.splits node.splits)
    then show ?thesis using Inl k that by (auto simp: k_create_excl_def)
  next
    case (Inr r)
    then show ?thesis
      using k resolve_new_InrD(1) [OF wf Inr] fs_st_node [OF s, of "comps p"]
      by (auto simp: k_create_excl_def new_file_def split: option.splits)
  qed
  ultimately show "fs_st c V t \<and> \<not> is_panic (Errno e) \<and> (os_IsExist (Errno e) \<longrightarrow> V (comps p) \<noteq> None) \<and>
      (c \<and> V (butlast (comps p)) = Some None \<longrightarrow> V (comps p) \<noteq> None \<and> os_IsExist (Errno e))"
    using s ts by auto
qed (auto dest: fs_st_faults)

lemma file_Write_triple:
  "triple (temp_st c V ps i d) (file_Write i bs)
     (\<lambda>_. temp_st c V ps i (d @ bs))
     (\<lambda>e s. (\<exists>d'. temp_st c V ps i d' s) \<and> \<not> is_panic e \<and> \<not> os_IsNotExist e \<and> \<not> c)"
proof (rule tripleI)
  fix s :: "'a fs_scheme"
  assume s: "temp_st c V ps i d s"
  have app: "temp_st c V ps i (d @ x) (append_to i x u)" if "temp_st c V ps i d u" for x u
    using that append_to_props [where s = u and ps = ps and i = i and bs = x] by (auto simp: temp_st_def fun_eq_iff sole_def)
  show "case file_Write i bs s of (Inl e, s') \<Rightarrow> (\<exists>d'. temp_st c V ps i d' s') \<and> \<not> is_panic e \<and>
          \<not> os_IsNotExist e \<and> \<not> c
    | (Inr x, s') \<Rightarrow> temp_st c V ps i (d @ bs) s'"
  proof (cases "faults s")
    case Nil
    then show ?thesis using app [OF s] by (simp add: file_Write_def)
  next
    case (Cons x fl)
    from temp_st_faults [OF s Cons] have u: "temp_st c V ps i d (s\<lparr>faults := fl\<rparr>)" "\<not> c" by auto
    then show ?thesis
      using app [OF u(1), of bs] app [OF u(1), of "take (snd (the x)) bs"] Cons
      by (cases x) (fastforce simp: file_Write_def)+
  qed
qed

lemma os_Rename_triple:
  assumes "comps a \<noteq> comps b"
  shows "triple (temp_st c V (comps a) i d) (os_Rename a b)
     (\<lambda>_. fs_st c (V(comps b \<mapsto> Some d)))
     (\<lambda>e s. temp_st c V (comps a) i d s \<and> \<not> is_panic e \<and>
        \<not> (c \<and> V (butlast (comps b)) = Some None \<and> V (comps b) \<noteq> Some None))"
  unfolding os_Rename_def
proof (rule triple_syscall)
  fix s :: "'a fs_scheme" and u t
  assume s: "temp_st c V (comps a) i d s" and k: "k_rename (comps a) (comps b) s = (Inr u, t)"
  then have wf: "wf_fs s" and sole: "sole s (comps a) i" by (simp_all add: temp_st_def)
  show "fs_st c (V(comps b \<mapsto> Some d)) t"
    using k_rename_Inr [OF wf k sole] s assms by (auto simp: fs_st_def temp_st_def fun_eq_iff)
next
  fix s :: "'a fs_scheme" and e t
  assume s: "temp_st c V (comps a) i d s" and k: "k_rename (comps a) (comps b) s = (Inl e, t)"
  then have wf: "wf_fs s" and na: "node_at s (comps a) = Some (File i)" and ts: "t = s"
    by (auto simp: temp_st_def sole_def dest: k_rename_Inl)
  have v: "view s = V(comps a \<mapsto> Some d)" using s by (simp add: temp_st_def)
  have "\<not> (V (butlast (comps b)) = Some None \<and> V (comps b) \<noteq> Some None)"
  proof
    assume d: "V (butlast (comps b)) = Some None \<and> V (comps b) \<noteq> Some None"
    have "V (comps a) = None" using s by (simp add: temp_st_def)
    then have "butlast (comps b) \<noteq> comps a" using d by auto
    then have "view s (butlast (comps b)) = Some None" "view s (comps b) \<noteq> Some None"
      using d v assms by auto
    then obtain t' where "k_rename (comps a) (comps b) s = (Inr (), t')"
      using k_rename_total [OF wf na] by auto
    with k show False by simp
  qed
  then show "temp_st c V (comps a) i d t \<and> \<not> is_panic (Errno e) \<and>
      \<not> (c \<and> V (butlast (comps b)) = Some None \<and> V (comps b) \<noteq> Some None)"
    using s ts by simp
qed (auto dest: temp_st_faults)

lemma os_Remove_triple:
  "triple (fs_st c V) (os_Remove p)
     (\<lambda>_. fs_st c (V(comps p := None)))
     (\<lambda>e s. fs_st c V s \<and> \<not> is_panic e \<and> (e = Errno ENOENT \<longrightarrow> V (comps p) = None) \<and>
        (c \<longrightarrow> (\<forall>d. V (comps p) \<noteq> Some (Some d)) \<and>
           (V (comps p) = None \<and> V (butlast (comps p)) = Some None \<longrightarrow> e = Errno ENOENT)))"
  unfolding os_Remove_def
proof (rule triple_syscall)
  fix s :: "'a fs_scheme" and u t
  assume s: "fs_st c V s" and k: "k_remove (comps p) s = (Inr u, t)"
  then show "fs_st c (V(comps p := None)) t"
    using k_remove_Inr [OF _ k] by (auto simp: fs_st_def)
next
  fix s :: "'a fs_scheme" and e t
  assume s: "fs_st c V s" and k: "k_remove (comps p) s = (Inl e, t)"
  then have wf: "wf_fs s" and ts: "t = s" and v: "view s = V"
    by (auto simp: fs_st_def dest: k_remove_Inl)
  have "e = ENOENT" if "V (comps p) = None" "V (butlast (comps p)) = Some None"
    using that k resolve_absent [OF wf, of "comps p"] v by (auto simp: k_remove_def)
  moreover have "V (comps p) = None" if "e = ENOENT"
  proof (cases "node_at s (comps p)")
    case (Some n)
    then show ?thesis
      using k resolve_node [OF wf] that by (cases n) (auto simp: k_remove_def split: if_splits)
  qed (use v in auto)
  moreover have "V (comps p) \<noteq> Some (Some d)" for d
    using k resolve_node [OF wf, of "comps p"] v by (auto simp: k_remove_def)
  ultimately show "fs_st c V t \<and> \<not> is_panic (Errno e) \<and> (Errno e = Errno ENOENT \<longrightarrow> V (comps p) = None) \<and>
      (c \<longrightarrow> (\<forall>d. V (comps p) \<noteq> Some (Some d)) \<and>
         (V (comps p) = None \<and> V (butlast (comps p)) = Some None \<longrightarrow> Errno e = Errno ENOENT))"
    using s ts by auto
qed (auto dest: fs_st_faults)

lemma os_RemoveAll_triple:
  assumes "is_path (comps p)"
  shows "triple (agree (comps p) V) (os_RemoveAll p)
     (\<lambda>_ s. agree (comps p) V s \<and> (\<forall>qs. prefix (comps p) qs \<longrightarrow> view s qs = None))
     (\<lambda>_. agree (comps p) V)"
  unfolding os_RemoveAll_def
proof (rule triple_syscall)
  fix s :: "'a fs_scheme" and u t
  assume s: "agree (comps p) V s" and k: "k_removeAll (comps p) s = (Inr u, t)"
  then have wf: "wf_fs s" by (simp add: agree_def)
  note props = k_removeAll_props [OF wf assms k]
  show "agree (comps p) V t \<and> (\<forall>qs. prefix (comps p) qs \<longrightarrow> view t qs = None)"
    using s props(1) unfolding agree_def props(2) by simp
qed (auto simp: agree_def k_removeAll_def)

section \<open>What the calls leave alone\<close>

text \<open>
  No system call touches the fields a larger state adds to \<open>fs\<close>, and only the temporary-name
  loop draws from the stream of suffixes.
\<close>

lemma syscall_frame:
  assumes "\<And>s fl. g (s\<lparr>faults := fl\<rparr>) = g s" and "\<And>s. g (snd (f s)) = g s"
  shows "keeps (\<lambda>s. g s = M) (syscall f)"
proof (rule triple_syscall)
  show "f s = (Inr x, t) \<Longrightarrow> g t = M" "f s = (Inl e, t) \<Longrightarrow> g t = M" if "g s = M" for s x e t
    using assms(2) [of s] that by auto
qed (simp_all add: assms(1))

lemma k_more [simp]:
  "fs.more (snd (new_file ps s)) = fs.more s" "rnd (snd (new_file ps s)) = rnd s"
  "fs.more (snd (k_create ps s)) = fs.more s" "rnd (snd (k_create ps s)) = rnd s"
  "fs.more (snd (k_create_excl ps s)) = fs.more s" "rnd (snd (k_create_excl ps s)) = rnd s"
  "fs.more (snd (k_mkdir ps s)) = fs.more s" "rnd (snd (k_mkdir ps s)) = rnd s"
  "fs.more (snd (k_rename ps qs s)) = fs.more s" "rnd (snd (k_rename ps qs s)) = rnd s"
  "fs.more (snd (k_remove ps s)) = fs.more s" "rnd (snd (k_remove ps s)) = rnd s"
  "fs.more (snd (k_removeAll ps s)) = fs.more s" "rnd (snd (k_removeAll ps s)) = rnd s"
  "fs.more (snd (k_link ps qs s)) = fs.more s" "rnd (snd (k_link ps qs s)) = rnd s"
  by (simp_all add: new_file_def k_create_def k_create_excl_def k_mkdir_def k_rename_def
      k_remove_def k_removeAll_def k_link_def split: sum.splits option.splits node.splits)

lemma sys_more [keep]:
  "keeps (\<lambda>s. fs.more s = M) (os_Stat p)" "keeps (\<lambda>s. fs.more s = M) (os_Open p)"
  "keeps (\<lambda>s. fs.more s = M) (read_all n)" "keeps (\<lambda>s. fs.more s = M) (os_Create p)"
  "keeps (\<lambda>s. fs.more s = M) (create_excl p)" "keeps (\<lambda>s. fs.more s = M) (os_Mkdir p)"
  "keeps (\<lambda>s. fs.more s = M) (os_Rename p q)" "keeps (\<lambda>s. fs.more s = M) (os_Remove p)"
  "keeps (\<lambda>s. fs.more s = M) (os_RemoveAll p)" "keeps (\<lambda>s. fs.more s = M) (os_Link p q)"
  "keeps (\<lambda>s. fs.more s = M) (ioutil_ReadDir p)"
  unfolding os_Stat_def os_Open_def read_all_def os_Create_def create_excl_def os_Mkdir_def
    os_Rename_def os_Remove_def os_RemoveAll_def os_Link_def ioutil_ReadDir_def
  by (rule syscall_frame; simp)+

lemma file_Write_more [keep]: "keeps (\<lambda>s. fs.more s = M) (file_Write i bs)"
  by (rule tripleI) (auto simp: file_Write_def split: list.splits option.splits)

lemma ioutil_ReadFile_more [keep]: "keeps (\<lambda>s. fs.more s = M) (ioutil_ReadFile p)"
  unfolding ioutil_ReadFile_def by (intro keep)

lemma mk_rnd:
  "keeps (\<lambda>s. rnd s = r) (create_excl p)" "keeps (\<lambda>s. rnd s = r) (os_Mkdir p)"
  unfolding create_excl_def os_Mkdir_def by (rule syscall_frame; simp)+

lemma nextSuffix_more [keep]: "keeps (\<lambda>s. fs.more s = M) nextSuffix"
  by (rule tripleI) (simp add: nextSuffix_def)

lemma temp_loop_more:
  "(\<And>p. keeps (\<lambda>s. fs.more s = M) (mk p)) \<Longrightarrow> keeps (\<lambda>s. fs.more s = M) (temp_loop mk n dir pre)"
  by (induction n) (auto intro!: keep)

lemma ioutil_TempFile_more [keep]: "keeps (\<lambda>s. fs.more s = M) (ioutil_TempFile dir pre)"
  unfolding ioutil_TempFile_def by (intro temp_loop_more keep)

lemma ioutil_TempDir_more [keep]: "keeps (\<lambda>s. fs.more s = M) (ioutil_TempDir dir pre)"
  unfolding ioutil_TempDir_def by (intro keep temp_loop_more)

lemma stat_more [keep]: "keeps (\<lambda>s. fs.more s = M) (syscall (\<lambda>s. (resolve s ps, s)))"
  by (rule syscall_frame) auto

lemma mkdir_more [keep]: "keeps (\<lambda>s. fs.more s = M) (syscall (k_mkdir ps))"
  by (rule syscall_frame) auto

lemma os_MkdirAll_more [keep]: "keeps (\<lambda>s. fs.more s = M) (os_MkdirAll p)"
proof -
  have "keeps (\<lambda>s. fs.more s = M) (mkdirAll cs)" for cs
    by (induction cs) (auto intro!: keep split: node.splits)
  then show ?thesis by (simp add: os_MkdirAll_def)
qed

section \<open>Temporary names\<close>

definition temp_prefix :: "string \<Rightarrow> bool" where
  "temp_prefix pre \<longleftrightarrow> pre \<noteq> [] \<and> hd pre \<noteq> dot \<and> slash \<notin> set pre"

lemma temp_name_ok: "temp_prefix pre \<Longrightarrow> slash \<notin> set sfx \<Longrightarrow> name_ok (pre @ sfx)"
  by (cases pre) (auto simp: temp_prefix_def name_ok_def)

text \<open>
  The loop: whatever creates the node, it ends with a new name in the directory or leaves
  everything as it was; without faults it fails only when all of its names are taken.
\<close>

lemma temp_loop_triple:
  fixes mk :: "string \<Rightarrow> ('z fs_scheme, 'v) call"
  assumes mk: "\<And>p. triple (fs_st c V) (mk p) (Q p)
      (\<lambda>e s. fs_st c V s \<and> \<not> is_panic e \<and> (os_IsExist e \<longrightarrow> V (comps p) \<noteq> None) \<and>
         (c \<and> V (butlast (comps p)) = Some None \<longrightarrow> V (comps p) \<noteq> None \<and> os_IsExist e))"
    and rnd: "\<And>p r. keeps (\<lambda>s. rnd s = r) (mk p)"
    and pre: "temp_prefix pre" and dir: "dir \<noteq> []"
  shows "triple (\<lambda>s. fs_st c V s \<and> (c \<longrightarrow> V (comps (Clean dir)) = Some None \<and>
            (\<exists>k<n. V (comps (Clean dir) @ [pre @ rnd s k]) = None)))
     (temp_loop mk n dir pre)
     (\<lambda>(nm, x) s. (\<exists>sfx. comps nm = comps (Clean dir) @ [pre @ sfx]) \<and> Clean nm = nm \<and> Q nm x s)
     (\<lambda>e s. fs_st c V s \<and> \<not> is_panic e \<and> \<not> c)"
proof (induction n)
  case 0
  show ?case by (auto intro!: triple_throw)
next
  case (Suc n)
  let ?T = "comps (Clean dir)"
  let ?fresh = "\<lambda>n s. c \<longrightarrow> V ?T = Some None \<and> (\<exists>k<n. V (?T @ [pre @ rnd s k]) = None)"
  have nm: "comps (Join [dir, pre @ sfx]) = ?T @ [pre @ sfx]" if "slash \<notin> set sfx" for sfx
    using that pre dir by (intro comps_Join_name temp_name_ok)
  have draw: "triple (\<lambda>s :: 'z fs_scheme. fs_st c V s \<and> ?fresh (Suc n) s) nextSuffix
      (\<lambda>sfx s. slash \<notin> set sfx \<and> fs_st c V s \<and> (c \<and> V (?T @ [pre @ sfx]) \<noteq> None \<longrightarrow> ?fresh n s) \<and>
         (c \<longrightarrow> V ?T = Some None)) (\<lambda>e s. fs_st c V s \<and> \<not> is_panic e \<and> \<not> c)"
  proof (rule tripleI)
    fix s :: "'z fs_scheme"
    assume s: "fs_st c V s \<and> ?fresh (Suc n) s"
    then have "fs_st c V (s\<lparr>rnd := \<lambda>n. rnd s (Suc n)\<rparr>)" "slash \<notin> set (rnd s 0)"
      by (auto simp: fs_st_def wf_fs_def)
    moreover have "\<exists>k<n. V (?T @ [pre @ rnd s (Suc k)]) = None"
      if "c" "V (?T @ [pre @ rnd s 0]) \<noteq> None"
    proof -
      from s that obtain k where "k < Suc n" "V (?T @ [pre @ rnd s k]) = None" by blast
      with that show ?thesis by (cases k) auto
    qed
    ultimately show "case nextSuffix s of (Inl e, s') \<Rightarrow> fs_st c V s' \<and> \<not> is_panic e \<and> \<not> c
      | (Inr sfx, s') \<Rightarrow> slash \<notin> set sfx \<and> fs_st c V s' \<and>
          (c \<and> V (?T @ [pre @ sfx]) \<noteq> None \<longrightarrow> ?fresh n s') \<and> (c \<longrightarrow> V ?T = Some None)"
      using s by (auto simp: nextSuffix_def)
  qed
  let ?M = "\<lambda>sfx r s. case r of Inr x \<Rightarrow> Q (Join [dir, pre @ sfx]) x s
     | Inl e \<Rightarrow> fs_st c V s \<and> \<not> is_panic e \<and> (c \<longrightarrow> os_IsExist e) \<and> (os_IsExist e \<longrightarrow> ?fresh n s)"
  have attempt: "triple (\<lambda>s. fs_st c V s \<and> (c \<and> V (?T @ [pre @ sfx]) \<noteq> None \<longrightarrow> ?fresh n s) \<and>
         (c \<longrightarrow> V ?T = Some None))
      (tryE (mk (Join [dir, pre @ sfx]))) (?M sfx) (\<lambda>e s. fs_st c V s \<and> \<not> is_panic e \<and> \<not> c)"
    if sfx: "slash \<notin> set sfx" for sfx
  proof (rule tripleI)
    fix s :: "'z fs_scheme"
    assume s: "fs_st c V s \<and> (c \<and> V (?T @ [pre @ sfx]) \<noteq> None \<longrightarrow> ?fresh n s) \<and>
         (c \<longrightarrow> V ?T = Some None)"
    show "case tryE (mk (Join [dir, pre @ sfx])) s of
        (Inl e, s') \<Rightarrow> fs_st c V s' \<and> \<not> is_panic e \<and> \<not> c | (Inr r, s') \<Rightarrow> ?M sfx r s'"
    proof (cases "mk (Join [dir, pre @ sfx]) s")
      case (Pair r s')
      then show ?thesis
      proof (cases r)
        case (Inl e)
        from s have st: "fs_st c V s" and dirc: "c \<longrightarrow> V ?T = Some None"
          and more: "c \<and> V (?T @ [pre @ sfx]) \<noteq> None \<longrightarrow> ?fresh n s" by blast+
        have e: "fs_st c V s'" "\<not> is_panic e" "os_IsExist e \<longrightarrow> V (?T @ [pre @ sfx]) \<noteq> None"
          "c \<and> V ?T = Some None \<longrightarrow> os_IsExist e"
          using tripleD_Inl [OF mk st, of "Join [dir, pre @ sfx]" e s'] Pair Inl nm [OF sfx]
          by simp_all
        have "rnd s' = rnd s"
          using tripleD_Inl [OF rnd, of s "rnd s" "Join [dir, pre @ sfx]" e s'] Pair Inl by simp
        then have "?fresh n s'" if "os_IsExist e"
          using that e(3) more by (simp only:) blast
        moreover have t: "tryE (mk (Join [dir, pre @ sfx])) s = (Inr (Inl e), s')"
          using Pair Inl e(2) by simp
        ultimately show ?thesis using e dirc unfolding t prod.case sum.case by blast
      next
        case (Inr x)
        from s have "fs_st c V s" by blast
        from tripleD_Inr [OF mk this, of "Join [dir, pre @ sfx]" x s'] Inr Pair
        show ?thesis by simp
      qed
    qed
  qed
  show ?case
    unfolding temp_loop.simps
  proof (rule triple_bind [OF draw], goal_cases)
    case (1 sfx)
    show ?case
    proof (cases "slash \<notin> set sfx")
      case True
      show ?thesis
      proof (rule triple_bind [where M = "?M sfx"], goal_cases)
        case 1
        show ?case by (rule triple_weaken [OF attempt [OF True]]) auto
      next
        case (2 r)
        show ?case
        proof (cases r)
          case (Inl e)
          show ?thesis
            unfolding Inl sum.case
            by (intro triple_if; (rule triple_weaken [OF Suc.IH] | rule triple_throw); auto)
        next
          case (Inr x)
          show ?thesis
            unfolding Inr sum.case using nm [OF True] dir by (intro triple_return) auto
        qed
      qed
    next
      case False
      then show ?thesis by (auto simp: triple_def)
    qed
  qed
qed

lemma ioutil_TempFile_triple:
  assumes "temp_prefix pre" "dir \<noteq> []"
  shows "triple (\<lambda>s. fs_st c V s \<and> (c \<longrightarrow> V (comps (Clean dir)) = Some None \<and>
            (\<exists>k<10000. V (comps (Clean dir) @ [pre @ rnd s k]) = None)))
     (ioutil_TempFile dir pre)
     (\<lambda>(nm, i) s. (\<exists>sfx. comps nm = comps (Clean dir) @ [pre @ sfx]) \<and> Clean nm = nm \<and>
        temp_st c V (comps nm) i [] s)
     (\<lambda>e s. fs_st c V s \<and> \<not> is_panic e \<and> \<not> c)"
  unfolding ioutil_TempFile_def
  by (rule temp_loop_triple [OF create_excl_triple mk_rnd(1) assms])

section \<open>Directories\<close>

lemma resolve_new_Inl: "resolve_new s ps = Inl e \<Longrightarrow> e = ENOENT \<or> e = ENOTDIR"
proof -
  have "walk look pre cs = Inl x \<Longrightarrow> x = ENOENT \<or> x = ENOTDIR" for look pre cs x
    by (induction look pre cs rule: walk.induct) (auto split: option.splits node.splits)
  moreover assume "resolve_new s ps = Inl e"
  ultimately show ?thesis by (auto simp: resolve_new_def resolve_def split: sum.splits node.splits)
qed

lemma k_mkdir_triple:
  "triple (fs_st c V) (syscall (k_mkdir ps))
     (\<lambda>_ s. fs_st c (V(ps \<mapsto> None)) s \<and> V ps = None)
     (\<lambda>e s. fs_st c V s \<and> \<not> is_panic e \<and> (os_IsExist e \<longrightarrow> V ps \<noteq> None) \<and>
        (c \<and> V (butlast ps) = Some None \<longrightarrow> V ps \<noteq> None \<and> os_IsExist e))"
proof (rule triple_syscall)
  fix s :: "'a fs_scheme" and u t
  assume s: "fs_st c V s" and k: "k_mkdir ps s = (Inr u, t)"
  then have wf: "wf_fs s" by (simp add: fs_st_def)
  show "fs_st c (V(ps \<mapsto> None)) t \<and> V ps = None"
    using k_mkdir_Inr [OF wf k] s fs_st_node [OF s, of ps] by (auto simp: fs_st_def)
next
  fix s :: "'a fs_scheme" and e t
  assume s: "fs_st c V s" and k: "k_mkdir ps s = (Inl e, t)"
  then have wf: "wf_fs s" by (simp add: fs_st_def)
  have ts: "t = s" using k by (rule k_mkdir_Inl)
  have "V ps \<noteq> None \<and> e = EEXIST" if "V (butlast ps) = Some None"
    using that k resolve_new_None [OF wf, of ps] resolve_new_Some [OF wf, of ps]
      fs_st_node [OF s, of ps] fs_st_dir [OF s, of "butlast ps"]
    by (cases "node_at s ps") (auto simp: k_mkdir_def)
  moreover have "V ps \<noteq> None" if "os_IsExist (Errno e)"
  proof (cases "resolve_new s ps")
    case (Inl e')
    then show ?thesis using resolve_new_Inl [OF Inl] k that by (auto simp: k_mkdir_def)
  next
    case (Inr r)
    then show ?thesis
      using k resolve_new_InrD(1) [OF wf Inr] fs_st_node [OF s, of ps]
      by (auto simp: k_mkdir_def split: option.splits)
  qed
  ultimately show "fs_st c V t \<and> \<not> is_panic (Errno e) \<and> (os_IsExist (Errno e) \<longrightarrow> V ps \<noteq> None) \<and>
      (c \<and> V (butlast ps) = Some None \<longrightarrow> V ps \<noteq> None \<and> os_IsExist (Errno e))"
    using s ts by auto
qed (auto dest: fs_st_faults)

lemma os_Mkdir_triple:
  "triple (fs_st c V) (os_Mkdir p)
     (\<lambda>_ s. fs_st c (V(comps p \<mapsto> None)) s \<and> V (comps p) = None)
     (\<lambda>e s. fs_st c V s \<and> \<not> is_panic e \<and> (os_IsExist e \<longrightarrow> V (comps p) \<noteq> None) \<and>
        (c \<and> V (butlast (comps p)) = Some None \<longrightarrow> V (comps p) \<noteq> None \<and> os_IsExist e))"
  unfolding os_Mkdir_def by (rule k_mkdir_triple)

lemma ioutil_TempDir_triple:
  assumes "temp_prefix pre" "dir \<noteq> []"
  shows "triple (\<lambda>s. fs_st c V s \<and> (c \<longrightarrow> V (comps (Clean dir)) = Some None \<and>
            (\<exists>k<10000. V (comps (Clean dir) @ [pre @ rnd s k]) = None)))
     (ioutil_TempDir dir pre)
     (\<lambda>nm s. (\<exists>sfx. comps nm = comps (Clean dir) @ [pre @ sfx]) \<and> Clean nm = nm \<and>
        fs_st c (V(comps nm \<mapsto> None)) s \<and> V (comps nm) = None)
     (\<lambda>e s. fs_st c V s \<and> \<not> is_panic e \<and> \<not> c)"
  unfolding ioutil_TempDir_def
  by (rule triple_bind [OF temp_loop_triple [OF os_Mkdir_triple mk_rnd(2) assms]])
    (intro triple_case_prod triple_return, auto)

text \<open>A file made where nothing was.\<close>

lemma os_Create_triple:
  assumes "V (comps p) = None \<or> V (comps p) = Some None"
  shows "triple (fs_st c V) (os_Create p)
     (\<lambda>i s. temp_st c V (comps p) i [] s)
     (\<lambda>e s. fs_st c V s \<and> \<not> is_panic e \<and>
        \<not> (c \<and> V (butlast (comps p)) = Some None \<and> V (comps p) = None))"
  unfolding os_Create_def
proof (rule triple_syscall)
  fix s :: "'a fs_scheme" and i t
  assume s: "fs_st c V s" and k: "k_create (comps p) s = (Inr i, t)"
  then have wf: "wf_fs s" by (simp add: fs_st_def)
  obtain r where r: "resolve_new s (comps p) = Inr r"
    using k by (cases "resolve_new s (comps p)") (auto simp: k_create_def)
  then have n: "r = node_at s (comps p)" by (rule resolve_new_InrD [OF wf])
  then have n0: "node_at s (comps p) = None"
    using assms fs_st_node [OF s, of "comps p"] fs_st_dir [OF s, of "comps p"] k r
    by (auto simp: k_create_def)
  then have "k_create_excl (comps p) s = (Inr i, t)"
    using k r n by (simp add: k_create_def k_create_excl_def)
  note k' = k_create_excl_Inr [OF wf this]
  show "temp_st c V (comps p) i [] t"
    using s new_file_props [OF wf k'] n0 by (auto simp: temp_st_def fs_st_def)
next
  fix s :: "'a fs_scheme" and e t
  assume s: "fs_st c V s" and k: "k_create (comps p) s = (Inl e, t)"
  then have wf: "wf_fs s" by (simp add: fs_st_def)
  have "t = s" using k by (auto simp: k_create_def new_file_def split: sum.splits option.splits node.splits)
  moreover have "\<not> (V (butlast (comps p)) = Some None \<and> V (comps p) = None)"
    using k resolve_new_None [OF wf, of "comps p"] fs_st_node [OF s, of "comps p"]
      fs_st_dir [OF s, of "butlast (comps p)"]
    by (auto simp: k_create_def new_file_def)
  ultimately show "fs_st c V t \<and> \<not> is_panic (Errno e) \<and>
      \<not> (c \<and> V (butlast (comps p)) = Some None \<and> V (comps p) = None)"
    using s by auto
qed (auto dest: fs_st_faults)

text \<open>
  \<open>dirs_ext V s\<close>: what was there still is, and what is new is a directory. Making directories
  keeps it, on every schedule of faults.
\<close>

definition adds_dirs ::
  "(string list \<Rightarrow> bytes option option) \<Rightarrow> (string list \<Rightarrow> bytes option option) \<Rightarrow> bool" where
  "adds_dirs V W \<longleftrightarrow> (\<forall>ps. W ps = V ps \<or> V ps = None \<and> W ps = Some None)"

definition dirs_ext :: "(string list \<Rightarrow> bytes option option) \<Rightarrow> 'z fs_scheme \<Rightarrow> bool" where
  "dirs_ext V s \<longleftrightarrow> wf_fs s \<and> adds_dirs V (view s)"

lemma adds_dirs_refl [simp]: "adds_dirs V V"
  by (simp add: adds_dirs_def)

lemma adds_dirs_trans: "adds_dirs V W \<Longrightarrow> adds_dirs W X \<Longrightarrow> adds_dirs V X"
  unfolding adds_dirs_def by metis

lemma adds_dirs_upd: "V ps = None \<Longrightarrow> adds_dirs V (V(ps \<mapsto> None))"
  by (simp add: adds_dirs_def)

lemma dirs_ext_view: "fs_st c W s \<Longrightarrow> dirs_ext V s \<longleftrightarrow> adds_dirs V W"
  by (simp add: dirs_ext_def fs_st_def)

lemma dirs_ext_by_view:
  assumes "\<And>W. adds_dirs V W \<Longrightarrow> triple (fs_st False W) m (\<lambda>_. dirs_ext W) (\<lambda>_. dirs_ext W)"
  shows "keeps (dirs_ext V) m"
proof (rule tripleI)
  fix s :: "'a fs_scheme" assume s: "dirs_ext V s"
  then have "fs_st False (view s) s" by (simp add: fs_st_def dirs_ext_def)
  moreover have "triple (fs_st False (view s)) m (\<lambda>_. dirs_ext (view s)) (\<lambda>_. dirs_ext (view s))"
    using s by (intro assms) (simp add: dirs_ext_def)
  moreover have "dirs_ext V t" if "dirs_ext (view s) t" for t :: "'a fs_scheme"
    using s that unfolding dirs_ext_def by (blast intro: adds_dirs_trans)
  ultimately show "case m s of (Inl e, s') \<Rightarrow> dirs_ext V s' | (Inr x, s') \<Rightarrow> dirs_ext V s'"
    unfolding triple_def by (auto split: prod.splits sum.splits)
qed

lemma mkdir_dirs_ext [keep]: "keeps (dirs_ext V) (syscall (k_mkdir ps))"
  by (rule dirs_ext_by_view, rule triple_weaken [OF k_mkdir_triple])
    (auto simp: dirs_ext_view intro: adds_dirs_upd)

lemma stat_dirs_ext [keep]: "keeps (dirs_ext V) (syscall (\<lambda>s. (resolve s ps, s)))"
  by (rule dirs_ext_by_view, rule triple_weaken [OF stat_triple]) (auto simp: dirs_ext_view)

lemma os_dirs_ext [keep]:
  "keeps (dirs_ext V) (os_Mkdir p)" "keeps (dirs_ext V) (os_Stat p)" "keeps (dirs_ext V) (os_Open p)"
  unfolding os_Mkdir_def os_Stat_def os_Open_def by (intro keep)+

lemma nextSuffix_dirs_ext [keep]: "keeps (dirs_ext V) nextSuffix"
  by (rule tripleI) (auto simp: nextSuffix_def dirs_ext_def wf_fs_def)

lemma ioutil_TempDir_dirs_ext [keep]: "keeps (dirs_ext V) (ioutil_TempDir dir pre)"
proof -
  have "keeps (dirs_ext V) (temp_loop os_Mkdir n dir pre)" for n
    by (induction n) (auto intro!: keep)
  then show ?thesis unfolding ioutil_TempDir_def by (intro keep)
qed

lemma os_MkdirAll_dirs_ext [keep]: "keeps (dirs_ext V) (os_MkdirAll p)"
proof -
  have "keeps (dirs_ext V) (mkdirAll cs)" for cs
    by (induction cs) (auto intro!: keep split: node.splits)
  then show ?thesis by (simp add: os_MkdirAll_def)
qed

text \<open>Where the directory already is, \<open>os.MkdirAll\<close> does nothing.\<close>

lemma os_MkdirAll_present:
  assumes "V (comps p) = Some None"
  shows "triple (fs_st True V) (os_MkdirAll p) (\<lambda>_. fs_st True V) (\<lambda>_ _. False)"
proof (rule tripleI)
  fix s :: "'a fs_scheme"
  assume s: "fs_st True V s"
  have "resolve s (comps p) = Inr Dir"
    using s assms fs_st_dir [OF s, of "comps p"] by (auto simp: fs_st_def resolve_node)
  moreover have "faults s = []" using s by (simp add: fs_st_def)
  ultimately have "os_MkdirAll p s = (Inr (), s)"
    unfolding os_MkdirAll_def
    by (cases "rev (comps p)") (simp_all add: returnE_def bindE_def tryE_def syscall_def)
  then show "case os_MkdirAll p s of (Inl e, s') \<Rightarrow> False | (Inr x, s') \<Rightarrow> fs_st True V s'"
    using s by simp
qed

end
