(* ===== verification/Content_Store.thy ===== *)
theory Content_Store
  imports Prelude
begin

text \<open>
  The contracts the rest of the program relies on where it uses an OCI image: a store of blobs
  addressed by their content, and with it a set of named references that are written once.
  Every law speaks of a single call that has returned or failed, under any faults; the lemmas
  combine them into what a client sees over several calls. Oci_Layout interprets both locales
  on the directory engine.
\<close>

type_synonym reader = "bytes \<times> error option"

section \<open>Blobs\<close>

datatype store_op = Put reader | Load string | Has string | Del string

locale content_store =
  fixes inv :: "'s \<Rightarrow> bool"
    and valid :: "string \<Rightarrow> bool"
    and look :: "'s \<Rightarrow> string \<Rightarrow> bytes option"
    and addr :: "bytes \<Rightarrow> string"
    and put :: "reader \<Rightarrow> ('s, string \<times> nat) call"
    and load :: "string \<Rightarrow> ('s, bytes) call"
    and has :: "string \<Rightarrow> ('s, bool) call"
    and del :: "string \<Rightarrow> ('s, unit) call"
  assumes addr_valid: "inv s \<Longrightarrow> valid (addr d)"
    and put_ok: "inv s \<Longrightarrow> put rd s = (Inr (k, n), t) \<Longrightarrow>
      inv t \<and> snd rd = None \<and> k = addr (fst rd) \<and> n = length (fst rd) \<and> look t = (look s)(k \<mapsto> fst rd)"
    and put_fail: "inv s \<Longrightarrow> put rd s = (Inl x, t) \<Longrightarrow> inv t \<and> look t = look s"
    and load_ok: "inv s \<Longrightarrow> valid k \<Longrightarrow> load k s = (Inr d, t) \<Longrightarrow>
      inv t \<and> look t = look s \<and> look s k = Some d"
    and load_fail: "inv s \<Longrightarrow> valid k \<Longrightarrow> load k s = (Inl x, t) \<Longrightarrow> inv t \<and> look t = look s"
    and has_ok: "inv s \<Longrightarrow> valid k \<Longrightarrow> has k s = (Inr b, t) \<Longrightarrow>
      inv t \<and> look t = look s \<and> b = (look s k \<noteq> None)"
    and has_fail: "inv s \<Longrightarrow> valid k \<Longrightarrow> has k s = (Inl x, t) \<Longrightarrow> inv t \<and> look t = look s"
    and del_ok: "inv s \<Longrightarrow> valid k \<Longrightarrow> del k s = (Inr u, t) \<Longrightarrow> inv t \<and> look t = (look s)(k := None)"
    and del_fail: "inv s \<Longrightarrow> valid k \<Longrightarrow> del k s = (Inl x, t) \<Longrightarrow> inv t \<and> look t = look s"
begin

text \<open>What was put is what is loaded.\<close>

lemma put_load:
  assumes "inv s" "put rd s = (Inr (k, n), t)" "load k t = (Inr d, u)"
  shows "d = fst rd"
  using put_ok [OF assms(1,2)] addr_valid load_ok [OF _ _ assms(3)] by auto

lemma put_has:
  assumes "inv s" "put rd s = (Inr (k, n), t)" "has k t = (Inr b, u)"
  shows "b"
  using put_ok [OF assms(1,2)] addr_valid has_ok [OF _ _ assms(3)] by auto

lemma del_has:
  assumes "inv s" "valid k" "del k s = (Inr v, t)" "has k t = (Inr b, u)"
  shows "\<not> b"
  using del_ok [OF assms(1-3)] has_ok [OF _ assms(2) assms(4)] by auto

text \<open>Putting again changes nothing, and puts of different content do not meet.\<close>

lemma put_cases:
  assumes "inv s" "put rd s = (r, t)"
  obtains (fail) x where "r = Inl x" "inv t" "look t = look s"
  | (ok) n where "r = Inr (addr (fst rd), n)" "inv t" "look t = (look s)(addr (fst rd) \<mapsto> fst rd)"
proof (cases r)
  case (Inl x)
  then show ?thesis using that(1) put_fail assms by blast
next
  case (Inr kn)
  then show ?thesis using that(2) put_ok [of s rd "fst kn" "snd kn" t] assms by (cases kn) auto
qed

lemma put_idem:
  assumes "inv s" "look s (addr (fst rd)) = Some (fst rd)" "put rd s = (r, t)"
  shows "look t = look s"
  using assms(1,3) by (cases rule: put_cases) (auto simp: assms(2) fun_upd_idem)

lemma put_other:
  assumes "inv s" "put rd s = (r, t)" "k \<noteq> addr (fst rd)"
  shows "look t k = look s k"
  using assms(1,2) by (cases rule: put_cases) (auto simp: assms(3))

text \<open>Every name is the address of its content; no operation breaks that.\<close>

definition sound :: "'s \<Rightarrow> bool" where
  "sound s \<longleftrightarrow> inv s \<and> (\<forall>k d. look s k = Some d \<longrightarrow> k = addr d)"

fun step :: "store_op \<Rightarrow> 's \<Rightarrow> 's" where
  "step (Put rd) s = snd (put rd s)"
| "step (Load k) s = snd (load k s)"
| "step (Has k) s = snd (has k s)"
| "step (Del k) s = snd (del k s)"

fun op_ok :: "store_op \<Rightarrow> bool" where
  "op_ok (Put rd) = True"
| "op_ok (Load k) = valid k"
| "op_ok (Has k) = valid k"
| "op_ok (Del k) = valid k"

lemma put_sound:
  assumes "sound s"
  shows "sound (snd (put rd s))"
proof (cases "put rd s")
  case (Pair r t)
  have "inv s" using assms by (simp add: sound_def)
  from this Pair show ?thesis by (cases rule: put_cases) (use assms Pair in \<open>auto simp: sound_def\<close>)
qed

lemma load_sound: "sound s \<Longrightarrow> valid k \<Longrightarrow> sound (snd (load k s))"
proof (cases "load k s")
  case (Pair r t)
  moreover assume "sound s" "valid k"
  ultimately show ?thesis
    using load_fail [of s k _ t] load_ok [of s k _ t] by (cases r) (auto simp: sound_def)
qed

lemma has_sound: "sound s \<Longrightarrow> valid k \<Longrightarrow> sound (snd (has k s))"
proof (cases "has k s")
  case (Pair r t)
  moreover assume "sound s" "valid k"
  ultimately show ?thesis
    using has_fail [of s k _ t] has_ok [of s k _ t] by (cases r) (auto simp: sound_def)
qed

lemma del_sound: "sound s \<Longrightarrow> valid k \<Longrightarrow> sound (snd (del k s))"
proof (cases "del k s")
  case (Pair r t)
  moreover assume "sound s" "valid k"
  ultimately show ?thesis
    using del_fail [of s k _ t] del_ok [of s k _ t] by (cases r) (auto simp: sound_def split: if_splits)
qed

lemma step_sound: "sound s \<Longrightarrow> op_ok p \<Longrightarrow> sound (step p s)"
  by (cases p) (simp_all add: put_sound load_sound has_sound del_sound)

lemma run_sound: "sound s \<Longrightarrow> (\<And>p. p \<in> set ps \<Longrightarrow> op_ok p) \<Longrightarrow> sound (fold step ps s)"
  by (induction ps arbitrary: s) (auto intro: step_sound)

end

section \<open>References\<close>

text \<open>Names bound to values of type \<open>'v\<close>: bound once, until the name is deleted.\<close>

locale image_store = content_store +
  fixes name_valid :: "string \<Rightarrow> bool"
    and ref_look :: "'a \<Rightarrow> string \<Rightarrow> 'v option"
    and put_ref :: "string \<Rightarrow> 'v \<Rightarrow> ('a, unit) call"
    and get_ref :: "string \<Rightarrow> ('a, 'v) call"
    and del_ref :: "string \<Rightarrow> ('a, unit) call"
  assumes put_ref_ok: "inv s \<Longrightarrow> name_valid n \<Longrightarrow> put_ref n v s = (Inr u, t) \<Longrightarrow>
      inv t \<and> look t = look s \<and> ref_look t = (ref_look s)(n \<mapsto> v) \<and>
      (ref_look s n = None \<or> ref_look s n = Some v)"
    and put_ref_fail: "inv s \<Longrightarrow> name_valid n \<Longrightarrow> put_ref n v s = (Inl x, t) \<Longrightarrow>
      inv t \<and> look t = look s \<and> ref_look t = ref_look s"
    and get_ref_ok: "inv s \<Longrightarrow> name_valid n \<Longrightarrow> get_ref n s = (Inr v, t) \<Longrightarrow>
      inv t \<and> look t = look s \<and> ref_look t = ref_look s \<and> ref_look s n = Some v"
    and get_ref_fail: "inv s \<Longrightarrow> name_valid n \<Longrightarrow> get_ref n s = (Inl x, t) \<Longrightarrow>
      inv t \<and> look t = look s \<and> ref_look t = ref_look s"
    and del_ref_ok: "inv s \<Longrightarrow> name_valid n \<Longrightarrow> del_ref n s = (Inr u, t) \<Longrightarrow>
      inv t \<and> look t = look s \<and> ref_look t = (ref_look s)(n := None)"
    and put_refs: "inv s \<Longrightarrow> put rd s = (r, t) \<Longrightarrow> ref_look t = ref_look s"
    and del_refs: "inv s \<Longrightarrow> valid k \<Longrightarrow> del k s = (q, t) \<Longrightarrow> ref_look t = ref_look s"
begin

lemma put_get_ref:
  assumes "inv s" "name_valid n" "put_ref n v s = (Inr u, t)" "get_ref n t = (Inr w, t')"
  shows "w = v"
  using put_ref_ok [OF assms(1-3)] get_ref_ok [OF _ assms(2,4)] by auto

text \<open>A name keeps its value whatever is put under it or elsewhere.\<close>

lemma ref_stable:
  assumes "inv s" "name_valid n" "name_valid m" "ref_look s n = Some v" "put_ref m w s = (r, t)"
  shows "ref_look t n = Some v"
proof (cases r)
  case (Inl x)
  then show ?thesis using put_ref_fail assms by metis
next
  case (Inr u)
  then show ?thesis using put_ref_ok [OF assms(1,3), of w u t] assms by auto
qed

lemma put_keeps_ref:
  assumes "inv s" "name_valid n" "put_ref n v s = (Inr u, s1)" "put rd s1 = (r, s2)"
    "get_ref n s2 = (Inr w, s3)"
  shows "w = v"
proof -
  have 1: "inv s1" "ref_look s1 n = Some v" using put_ref_ok [OF assms(1-3)] by auto
  have "inv s2" using 1(1) assms(4) by (cases rule: put_cases) auto
  then show ?thesis
    using get_ref_ok [OF _ assms(2,5)] put_refs [OF 1(1) assms(4)] 1(2) by simp
qed

text \<open>The blobs do not depend on the references.\<close>

lemma put_ref_sound:
  assumes "sound s" "name_valid n"
  shows "sound (snd (put_ref n v s))"
proof (cases "put_ref n v s")
  case (Pair r t)
  then show ?thesis
    using put_ref_fail [of s n v _ t] put_ref_ok [of s n v _ t] assms
    by (cases r) (auto simp: sound_def)
qed

end

end
