(* ===== verification/Oci_Layout.thy ===== *)
theory Oci_Layout
  imports File_Rules Content_Store
begin

text \<open>
  The OCI image directory, oci/layout.go and oci/dir.go: the paths of blobs and references, the
  directory engine \<open>dirLayout\<close> with every operation of the \<open>Layout\<close> interface, and their
  properties under every schedule of file system faults. The hash (\<open>sha\<close>, SHA-256) and the
  JSON form of a descriptor (\<open>enc\<close>, \<open>dec\<close>) are parameters; a reader is the bytes it yields and
  the error it ends with, if it does not end with \<open>io.EOF\<close>.
\<close>

section \<open>oci/layout.go\<close>

definition BlobAlgorithm :: string where "BlobAlgorithm = ''sha256''"
definition refDirectory :: string where "refDirectory = ''refs''"
definition blobDirectory :: string where "blobDirectory = ''blobs''"
definition layoutFile :: string where "layoutFile = ''oci-layout''"

definition blobPath :: "string \<Rightarrow> string result" where
  "blobPath digest =
     (case SplitN2 digest '':'' of
        [algo, hash] \<Rightarrow>
          if algo \<noteq> BlobAlgorithm then Inl (Msg (''unsupported algorithm: '' @ algo))
          else Inr (Join [blobDirectory, algo, hash])
      | _ \<Rightarrow> Inl (Msg (''invalid digest: '' @ digest)))"

definition refPath :: "string \<Rightarrow> string result" where
  "refPath name = Inr (Join [refDirectory, name])"

section \<open>oci/dir.go\<close>

record Descriptor =
  desc_MediaType :: string
  desc_Digest :: string
  desc_Size :: int

record dirLayout =
  l_path :: string
  l_temp :: string

definition ImageLayoutVersion :: string where "ImageLayoutVersion = ''1.0.0''"

text \<open>The line \<open>json.NewEncoder(fh).Encode(&ImageLayout{Version: ...})\<close> writes.\<close>

definition layout_json :: bytes where
  "layout_json =
     (let q = [CHR 0x22] in
      ''{'' @ q @ ''imageLayoutVersion'' @ q @ '':'' @ q @ ImageLayoutVersion @ q @ ''}'' @ [CHR 0x0A])"

text \<open>\<open>if err := m(); err != nil && !os.IsExist(err) { return err }\<close>\<close>

definition unless_exists :: "('s, unit) call \<Rightarrow> ('s, unit) call" where
  "unless_exists m = catchE m (\<lambda>err. if os_IsExist err then returnE () else throwE err)"

definition initialize :: "dirLayout \<Rightarrow> ('z fs_scheme, unit) call" where
  "initialize e =
     (let path = l_path e; dir = filepath_Dir path in
      thenE (whenE (dir \<noteq> ''.'') (unless_exists (os_MkdirAll dir)))
      (thenE (unless_exists (os_Mkdir path))
      (bindE (tryE (os_Stat (Join [path, layoutFile]))) (\<lambda>r. case r of
         Inr _ \<Rightarrow> returnE ()
       | Inl _ \<Rightarrow>
          thenE (os_Mkdir (Join [path, blobDirectory]))
          (thenE (os_Mkdir (Join [path, blobDirectory, BlobAlgorithm]))
          (thenE (os_Mkdir (Join [path, refDirectory]))
          (bindE (os_Create (Join [path, layoutFile])) (\<lambda>fh. file_Write fh layout_json))))))))"

definition newDirLayout :: "string \<Rightarrow> ('z fs_scheme, dirLayout) call" where
  "newDirLayout path =
     (let layout = \<lparr>l_path = path, l_temp = []\<rparr> in
      thenE (initialize layout)
      (bindE (ioutil_TempDir (l_path layout) ''tmp-'') (\<lambda>tempDir.
       returnE (layout\<lparr>l_temp := tempDir\<rparr>))))"

definition Open :: "string \<Rightarrow> ('z fs_scheme, dirLayout) call" where
  "Open path = newDirLayout path"

definition PutBlob ::
  "(bytes \<Rightarrow> bytes) \<Rightarrow> dirLayout \<Rightarrow> reader \<Rightarrow> ('z fs_scheme, string \<times> nat) call" where
  "PutBlob sha e rd =
     bindE (ioutil_TempFile (l_temp e) ''blob-'') (\<lambda>(tempPath, fh).
     thenE (file_Write fh (fst rd))
     (thenE (case snd rd of None \<Rightarrow> returnE () | Some err \<Rightarrow> throwE err)
     (let digest = BlobAlgorithm @ '':'' @ hex_encode (sha (fst rd)) in
      bindE (liftE (blobPath digest)) (\<lambda>path.
      thenE (os_Rename tempPath (Join [l_path e, path]))
      (returnE (digest, length (fst rd)))))))"

definition GetReference ::
  "(bytes \<Rightarrow> Descriptor result) \<Rightarrow> dirLayout \<Rightarrow> string \<Rightarrow> ('z fs_scheme, Descriptor) call" where
  "GetReference dec e name =
     bindE (liftE (refPath name)) (\<lambda>path.
     bindE (ioutil_ReadFile (Join [l_path e, path])) (\<lambda>content.
     liftE (dec content)))"

definition PutReference ::
  "(Descriptor \<Rightarrow> bytes) \<Rightarrow> (bytes \<Rightarrow> Descriptor result) \<Rightarrow> dirLayout \<Rightarrow> string \<Rightarrow> Descriptor \<Rightarrow>
   ('z fs_scheme, unit) call" where
  "PutReference enc dec e name descriptor =
     bindE (tryE (GetReference dec e name)) (\<lambda>r. case r of
       Inr oldDescriptor \<Rightarrow>
         if oldDescriptor \<noteq> descriptor then throwE ErrClobber else returnE ()
     | Inl err \<Rightarrow>
         if \<not> os_IsNotExist err then throwE err
         else
           bindE (ioutil_TempFile (l_temp e) (''ref.'' @ name @ ''-'')) (\<lambda>(tempPath, fh).
           thenE (file_Write fh (enc descriptor))
           (bindE (liftE (refPath name)) (\<lambda>path.
            os_Rename tempPath (Join [l_path e, path])))))"

definition GetBlob :: "dirLayout \<Rightarrow> string \<Rightarrow> ('z fs_scheme, node) call" where
  "GetBlob e digest =
     bindE (liftE (blobPath digest)) (\<lambda>path. os_Open (Join [l_path e, path]))"

definition DeleteBlob :: "dirLayout \<Rightarrow> string \<Rightarrow> ('z fs_scheme, unit) call" where
  "DeleteBlob e digest =
     bindE (liftE (blobPath digest)) (\<lambda>path.
     catchE (os_Remove (Join [l_path e, path])) (\<lambda>err.
       if \<not> os_IsNotExist err then throwE err else returnE ()))"

definition DeleteReference :: "dirLayout \<Rightarrow> string \<Rightarrow> ('z fs_scheme, unit) call" where
  "DeleteReference e name =
     bindE (liftE (refPath name)) (\<lambda>path.
     catchE (os_Remove (Join [l_path e, path])) (\<lambda>err.
       if \<not> os_IsNotExist err then throwE err else returnE ()))"

definition ListBlobs :: "dirLayout \<Rightarrow> ('z fs_scheme, string list) call" where
  "ListBlobs e =
     (let blobDir = Join [l_path e, blobDirectory, BlobAlgorithm] in
      getE (\<lambda>s. map (\<lambda>p. BlobAlgorithm @ '':'' @ last p)
                  (filter (\<lambda>p. p \<noteq> comps blobDir) (filepath_Walk blobDir s))))"

definition ListReferences :: "dirLayout \<Rightarrow> ('z fs_scheme, string list) call" where
  "ListReferences e =
     (let refDir = Join [l_path e, refDirectory] in
      getE (\<lambda>s. map last (filter (\<lambda>p. p \<noteq> comps refDir) (filepath_Walk refDir s))))"

definition Exist :: "dirLayout \<Rightarrow> string \<Rightarrow> ('z fs_scheme, bool) call" where
  "Exist e digest =
     bindE (liftE (blobPath digest)) (\<lambda>path.
     bindE (tryE (os_Stat (Join [l_path e, path]))) (\<lambda>r. case r of
       Inl err \<Rightarrow> if os_IsNotExist err then returnE False else throwE err
     | Inr _ \<Rightarrow> returnE True))"

definition Close :: "dirLayout \<Rightarrow> ('z fs_scheme, unit) call" where
  "Close e = os_RemoveAll (l_temp e)"

definition GetBlobPath :: "dirLayout \<Rightarrow> string \<Rightarrow> ('z fs_scheme, string) call" where
  "GetBlobPath e digest =
     bindE (liftE (blobPath digest)) (\<lambda>path. returnE (Join [l_path e, path]))"

section \<open>Where things are\<close>

text \<open>
  A layout as \<open>newDirLayout\<close> returns it: cleaned paths, the temporary directory a \<open>tmp-\<close> entry
  of the image. Blobs and references live at these components.
\<close>

definition layout_ok :: "dirLayout \<Rightarrow> bool" where
  "layout_ok e \<longleftrightarrow>
     l_path e \<noteq> [] \<and> Clean (l_path e) = l_path e \<and>
     l_temp e \<noteq> [] \<and> Clean (l_temp e) = l_temp e \<and>
     (\<exists>sfx. comps (l_temp e) = comps (l_path e) @ [''tmp-'' @ sfx])"

definition blob_key :: "dirLayout \<Rightarrow> string \<Rightarrow> string list" where
  "blob_key e h = comps (l_path e) @ [blobDirectory, BlobAlgorithm, h]"

definition ref_key :: "dirLayout \<Rightarrow> string \<Rightarrow> string list" where
  "ref_key e name = comps (l_path e) @ [refDirectory, name]"

definition layout_dirs :: "dirLayout \<Rightarrow> (string list \<Rightarrow> bytes option option) \<Rightarrow> bool" where
  "layout_dirs e V \<longleftrightarrow>
     V (comps (l_path e) @ [blobDirectory, BlobAlgorithm]) = Some None \<and>
     V (comps (l_path e) @ [refDirectory]) = Some None \<and>
     V (comps (l_temp e)) = Some None"

definition sha_ok :: "(bytes \<Rightarrow> bytes) \<Rightarrow> bool" where
  "sha_ok sha \<longleftrightarrow> (\<forall>d. length (sha d) = 32)"

definition blob_digest :: "(bytes \<Rightarrow> bytes) \<Rightarrow> bytes \<Rightarrow> string" where
  "blob_digest sha d = BlobAlgorithm @ '':'' @ hex_encode (sha d)"

definition temp_free ::
  "dirLayout \<Rightarrow> string \<Rightarrow> (string list \<Rightarrow> bytes option option) \<Rightarrow> 'z fs_scheme \<Rightarrow> bool" where
  "temp_free e pre V s \<longleftrightarrow> (\<exists>k<10000. V (comps (l_temp e) @ [pre @ rnd s k]) = None)"

lemma dir_names [simp]:
  "name_ok BlobAlgorithm" "name_ok blobDirectory" "name_ok refDirectory" "name_ok layoutFile"
  "colon \<notin> set BlobAlgorithm"
  by (simp_all add: name_ok_def BlobAlgorithm_def blobDirectory_def refDirectory_def layoutFile_def)

lemma SplitN2_digest: "SplitN2 (BlobAlgorithm @ colon # h) '':'' = [BlobAlgorithm, h]"
  by (simp add: SplitN2_def cut_char)

lemma blobPath_digest: "blobPath (BlobAlgorithm @ colon # h) = Inr (Join [blobDirectory, BlobAlgorithm, h])"
  by (simp add: blobPath_def SplitN2_digest)

lemma blobPath_Inr:
  "blobPath digest = Inr p \<Longrightarrow> \<exists>h. digest = BlobAlgorithm @ colon # h \<and> p = Join [blobDirectory, BlobAlgorithm, h]"
  by (auto simp: blobPath_def SplitN2_def split: option.splits if_splits dest: cut_some)

lemma key_join:
  assumes "p \<noteq> []" "Clean p = p" "\<And>x. x \<in> set xs \<Longrightarrow> name_ok x" "xs \<noteq> []"
  shows "comps (Join [p, Join xs]) = comps p @ xs"
  using comps_Join_names [OF assms(1,3,4)] Join_names [OF assms(3,4)] assms(2) by simp

lemma blob_join [path]:
  "l_path e \<noteq> [] \<Longrightarrow> Clean (l_path e) = l_path e \<Longrightarrow> name_ok h \<Longrightarrow>
   comps (Join [l_path e, Join [blobDirectory, BlobAlgorithm, h]]) = blob_key e h"
  unfolding blob_key_def by (rule key_join) auto

lemma ref_join [path]:
  "l_path e \<noteq> [] \<Longrightarrow> Clean (l_path e) = l_path e \<Longrightarrow> name_ok n \<Longrightarrow>
   comps (Join [l_path e, Join [refDirectory, n]]) = ref_key e n"
  unfolding ref_key_def by (rule key_join) auto

lemma name_ok_sha: "sha_ok sha \<Longrightarrow> name_ok (hex_encode (sha d))"
proof -
  assume "sha_ok sha"
  then have "length (sha d) = 32" by (simp add: sha_ok_def)
  then have "sha d \<noteq> []" by auto
  then show ?thesis by (rule name_ok_hex)
qed

lemma layout_paths:
  assumes "layout_ok e"
  shows "l_path e \<noteq> []" "Clean (l_path e) = l_path e" "l_temp e \<noteq> []" "Clean (l_temp e) = l_temp e"
    "\<not> prefix (comps (l_temp e)) (blob_key e h)" "\<not> prefix (comps (l_temp e)) (ref_key e n)"
    "is_path (comps (l_temp e))"
proof -
  obtain sfx where t: "comps (l_temp e) = comps (l_path e) @ [''tmp-'' @ sfx]"
    using assms by (auto simp: layout_ok_def)
  show "\<not> prefix (comps (l_temp e)) (blob_key e h)" "\<not> prefix (comps (l_temp e)) (ref_key e n)"
    by (auto simp: t blob_key_def ref_key_def blobDirectory_def refDirectory_def)
  show "is_path (comps (l_temp e))" by (auto simp: t is_path_def append_eq_Cons_conv)
qed (use assms in \<open>auto simp: layout_ok_def\<close>)

lemma butlast_keys [simp]:
  "butlast (blob_key e h) = comps (l_path e) @ [blobDirectory, BlobAlgorithm]"
  "butlast (ref_key e n) = comps (l_path e) @ [refDirectory]"
  "blob_key e h = blob_key e h' \<longleftrightarrow> h = h'" "ref_key e n = ref_key e n' \<longleftrightarrow> n = n'"
  "blob_key e h \<noteq> ref_key e n"
  by (auto simp: blob_key_def ref_key_def butlast_append)

section \<open>Blobs\<close>

text \<open>
  \<open>PutBlob\<close>: on success exactly the blob of the content's digest has changed and the temporary
  file is gone; on failure nothing outside the temporary directory has. Without faults and
  with the image's directories in place it succeeds.
\<close>

lemma PutBlob_triple:
  assumes e: "layout_ok e" and sha: "sha_ok sha"
  shows "triple (\<lambda>s. fs_st c V s \<and> (c \<longrightarrow> layout_dirs e V \<and> temp_free e ''blob-'' V s \<and>
            err = None \<and> V (blob_key e (hex_encode (sha d))) \<noteq> Some None))
     (PutBlob sha e (d, err))
     (\<lambda>(dg, n) s. dg = blob_digest sha d \<and> n = length d \<and> err = None \<and>
        fs_st c (V(blob_key e (hex_encode (sha d)) \<mapsto> Some d)) s)
     (\<lambda>x s. agree (comps (l_temp e)) V s \<and> (is_panic x \<longrightarrow> err = Some x) \<and> \<not> c)"
proof -
  let ?k = "blob_key e (hex_encode (sha d))" and ?T = "comps (l_temp e)"
  let ?c = "c \<longrightarrow> layout_dirs e V \<and> err = None \<and> V ?k \<noteq> Some None"
  note paths = layout_paths [OF e]
  have dst: "comps (Join [l_path e, Join [blobDirectory, BlobAlgorithm, hex_encode (sha d)]]) = ?k"
    by (intro blob_join paths name_ok_sha sha)
  have tmp: "triple (\<lambda>s. fs_st c V s \<and> ?c \<and> (c \<longrightarrow> temp_free e ''blob-'' V s))
      (ioutil_TempFile (l_temp e) ''blob-'')
      (\<lambda>(nm, i) s. ?c \<and> prefix ?T (comps nm) \<and> temp_st c V (comps nm) i [] s)
      (\<lambda>x s. agree ?T V s \<and> (is_panic x \<longrightarrow> err = Some x) \<and> \<not> c)"
    by (rule tripleI, insert ioutil_TempFile_triple [of "''blob-''" "l_temp e" c V])
      (fastforce simp: triple_def paths temp_prefix_def temp_free_def layout_dirs_def fs_st_agree
        split: prod.splits sum.splits)
  have body: "triple (\<lambda>s. ?c \<and> prefix ?T (comps nm) \<and> temp_st c V (comps nm) i [] s)
      (thenE (file_Write i d) (thenE (case err of None \<Rightarrow> returnE () | Some err \<Rightarrow> throwE err)
        (let digest = BlobAlgorithm @ '':'' @ hex_encode (sha d) in
         bindE (liftE (blobPath digest)) (\<lambda>path.
         thenE (os_Rename nm (Join [l_path e, path])) (returnE (digest, length d))))))
      (\<lambda>(dg, n) s. dg = blob_digest sha d \<and> n = length d \<and> err = None \<and> fs_st c (V(?k \<mapsto> Some d)) s)
      (\<lambda>x s. agree ?T V s \<and> (is_panic x \<longrightarrow> err = Some x) \<and> \<not> c)" for nm i
  proof (cases "prefix ?T (comps nm) \<and> ?c")
    case True
    then have pre: "prefix ?T (comps nm)" and C: ?c by auto
    have ne: "comps nm \<noteq> ?k" using pre paths(5) by auto
    have wr: "triple (temp_st c V (comps nm) i []) (file_Write i d) (\<lambda>_. temp_st c V (comps nm) i d)
        (\<lambda>x s. agree ?T V s \<and> (is_panic x \<longrightarrow> err = Some x) \<and> \<not> c)"
      using pre by (intro triple_weaken [OF file_Write_triple]) (auto intro: temp_st_agree)
    have er: "triple (temp_st c V (comps nm) i d)
        (case err of None \<Rightarrow> returnE () | Some err \<Rightarrow> throwE err)
        (\<lambda>_ s. err = None \<and> temp_st c V (comps nm) i d s) (\<lambda>x s. agree ?T V s \<and> (is_panic x \<longrightarrow> err = Some x) \<and> \<not> c)"
      using pre C by (cases err) (auto intro!: triple_return triple_throw intro: temp_st_agree)
    have rn: "triple (\<lambda>s. err = None \<and> temp_st c V (comps nm) i d s)
        (os_Rename nm (Join [l_path e, Join [blobDirectory, BlobAlgorithm, hex_encode (sha d)]]))
        (\<lambda>_ s. err = None \<and> fs_st c (V(?k \<mapsto> Some d)) s) (\<lambda>x s. agree ?T V s \<and> (is_panic x \<longrightarrow> err = Some x) \<and> \<not> c)"
    proof -
      have "triple (temp_st c V (comps nm) i d)
        (os_Rename nm (Join [l_path e, Join [blobDirectory, BlobAlgorithm, hex_encode (sha d)]]))
        (\<lambda>_. fs_st c (V(?k \<mapsto> Some d))) (\<lambda>x s. agree ?T V s \<and> (is_panic x \<longrightarrow> err = Some x) \<and> \<not> c)"
        using C pre ne
        by (intro triple_weaken [OF os_Rename_triple])
          (auto simp: dst layout_dirs_def intro: temp_st_agree)
      from triple_const [OF this, of "err = None"] show ?thesis by (rule triple_weaken) auto
    qed
    have "triple (temp_st c V (comps nm) i [])
      (thenE (file_Write i d) (thenE (case err of None \<Rightarrow> returnE () | Some err \<Rightarrow> throwE err)
        (let digest = BlobAlgorithm @ '':'' @ hex_encode (sha d) in
         bindE (liftE (blobPath digest)) (\<lambda>path.
         thenE (os_Rename nm (Join [l_path e, path])) (returnE (digest, length d))))))
      (\<lambda>(dg, n) s. dg = blob_digest sha d \<and> n = length d \<and> err = None \<and> fs_st c (V(?k \<mapsto> Some d)) s)
      (\<lambda>x s. agree ?T V s \<and> (is_panic x \<longrightarrow> err = Some x) \<and> \<not> c)"
      unfolding Let_def append_Cons append_Nil blobPath_digest bindE_lift
      by (intro triple_then [OF wr] triple_then [OF er] triple_then [OF rn] triple_return)
        (auto simp: blob_digest_def)
    then show ?thesis by (rule triple_weaken) auto
  next
    case False
    then show ?thesis by (auto simp: triple_def)
  qed
  show ?thesis
    unfolding PutBlob_def
  proof (rule triple_bind_pre [OF tmp], goal_cases)
    case (2 x)
    show ?case using body [of "fst x" "snd x"] by (cases x) simp
  qed auto
qed

text \<open>The digest string of a blob name.\<close>

abbreviation digest_of :: "string \<Rightarrow> string" where
  "digest_of h \<equiv> BlobAlgorithm @ colon # h"

lemma GetBlob_triple:
  assumes "layout_ok e" "name_ok h"
  shows "triple (fs_st c V) (GetBlob e (digest_of h))
     (\<lambda>n s. fs_st c V s \<and> node_at s (blob_key e h) = Some n)
     (\<lambda>x s. fs_st c V s \<and> \<not> is_panic x \<and> (os_IsNotExist x \<longrightarrow> V (blob_key e h) = None) \<and>
        (c \<longrightarrow> V (blob_key e h) = None \<and> (layout_dirs e V \<longrightarrow> os_IsNotExist x)))"
proof -
  note paths = layout_paths [OF assms(1)]
  show ?thesis
    unfolding GetBlob_def blobPath_digest bindE_lift
    by (rule triple_weaken [OF os_Open_triple])
      (auto simp: blob_join paths assms layout_dirs_def os_IsNotExist_def)
qed

text \<open>Opening a blob and reading all of it.\<close>

definition load_blob :: "dirLayout \<Rightarrow> string \<Rightarrow> ('z fs_scheme, bytes) call" where
  "load_blob e digest = bindE (GetBlob e digest) read_all"

lemma load_blob_triple:
  assumes "layout_ok e" "name_ok h"
  shows "triple (fs_st c V) (load_blob e (digest_of h))
     (\<lambda>d s. fs_st c V s \<and> V (blob_key e h) = Some (Some d))
     (\<lambda>x s. fs_st c V s \<and> \<not> is_panic x \<and> (os_IsNotExist x \<longrightarrow> V (blob_key e h) = None) \<and>
        (c \<longrightarrow> (\<forall>d. V (blob_key e h) \<noteq> Some (Some d))))"
proof -
  note paths = layout_paths [OF assms(1)]
  have load: "load_blob e (digest_of h) = ioutil_ReadFile (Join [l_path e, Join [blobDirectory, BlobAlgorithm, h]])"
    by (simp add: load_blob_def GetBlob_def blobPath_digest ioutil_ReadFile_def)
  show ?thesis
    unfolding load
    by (rule triple_weaken [OF ioutil_ReadFile_triple])
      (auto simp: blob_join paths assms os_IsNotExist_def)
qed

lemma Exist_triple:
  assumes "layout_ok e" "name_ok h"
  shows "triple (fs_st c V) (Exist e (digest_of h))
     (\<lambda>b s. fs_st c V s \<and> (b \<longleftrightarrow> V (blob_key e h) \<noteq> None))
     (\<lambda>x s. fs_st c V s \<and> \<not> is_panic x \<and> \<not> (c \<and> layout_dirs e V))"
proof -
  note paths = layout_paths [OF assms(1)]
  have stat: "triple (fs_st c V)
      (tryE (os_Stat (Join [l_path e, Join [blobDirectory, BlobAlgorithm, h]])))
      (\<lambda>r s. fs_st c V s \<and> (case r of Inr n \<Rightarrow> V (blob_key e h) \<noteq> None
         | Inl x \<Rightarrow> \<not> is_panic x \<and> (os_IsNotExist x \<longrightarrow> V (blob_key e h) = None) \<and>
             (c \<and> layout_dirs e V \<longrightarrow> os_IsNotExist x)))
      (\<lambda>x s. fs_st c V s \<and> \<not> is_panic x \<and> \<not> (c \<and> layout_dirs e V))"
    by (intro triple_try triple_weaken [OF os_Stat_triple])
      (auto simp: blob_join paths assms layout_dirs_def os_IsNotExist_def dest: fs_st_Some)
  show ?thesis
    unfolding Exist_def blobPath_digest bindE_lift
    by (rule triple_bind [OF stat], intro triple_case_sum triple_if triple_return triple_throw) auto
qed

text \<open>Removing a file where a missing one is no error.\<close>

lemma remove_quiet_triple:
  "triple (fs_st c V)
     (catchE (os_Remove p) (\<lambda>err. if \<not> os_IsNotExist err then throwE err else returnE ()))
     (\<lambda>_. fs_st c (V(comps p := None)))
     (\<lambda>x s. fs_st c V s \<and> \<not> is_panic x \<and>
        \<not> (c \<and> V (butlast (comps p)) = Some None \<and> V (comps p) \<noteq> Some None))"
proof -
  let ?E = "\<lambda>x s. fs_st c V s \<and> \<not> is_panic x \<and>
    (os_IsNotExist x \<longrightarrow> V (comps p) = None) \<and>
    (c \<and> V (butlast (comps p)) = Some None \<and> V (comps p) \<noteq> Some None \<longrightarrow> os_IsNotExist x)"
  have some: "(\<forall>d. V (comps p) \<noteq> Some (Some d)) \<and> V (comps p) \<noteq> Some None \<Longrightarrow> V (comps p) = None"
    by (cases "V (comps p)"; cases "the (V (comps p))") auto
  have rm: "triple (fs_st c V) (os_Remove p) (\<lambda>_. fs_st c (V(comps p := None))) ?E"
    by (rule triple_weaken [OF os_Remove_triple]) (use some in \<open>auto simp: os_IsNotExist_def\<close>)
  show ?thesis
  proof (rule triple_catch [where H = ?E])
    show "triple (fs_st c V) (os_Remove p) (\<lambda>_. fs_st c (V(comps p := None)))
       (\<lambda>x s. if is_panic x then fs_st c V s \<and> \<not> is_panic x \<and>
          \<not> (c \<and> V (butlast (comps p)) = Some None \<and> V (comps p) \<noteq> Some None) else ?E x s)"
      by (rule triple_weaken [OF rm]) auto
  qed (intro triple_if triple_throw triple_return; auto simp: fun_upd_idem)
qed

lemma DeleteBlob_triple:
  assumes "layout_ok e" "name_ok h"
  shows "triple (fs_st c V) (DeleteBlob e (digest_of h))
     (\<lambda>_. fs_st c (V(blob_key e h := None)))
     (\<lambda>x s. fs_st c V s \<and> \<not> is_panic x \<and> \<not> (c \<and> layout_dirs e V \<and> V (blob_key e h) \<noteq> Some None))"
proof -
  note paths = layout_paths [OF assms(1)]
  show ?thesis
    unfolding DeleteBlob_def blobPath_digest bindE_lift
    by (rule triple_weaken [OF remove_quiet_triple])
      (auto simp: blob_join paths assms layout_dirs_def)
qed

lemma DeleteReference_triple:
  assumes "layout_ok e" "name_ok n"
  shows "triple (fs_st c V) (DeleteReference e n)
     (\<lambda>_. fs_st c (V(ref_key e n := None)))
     (\<lambda>x s. fs_st c V s \<and> \<not> is_panic x \<and> \<not> (c \<and> layout_dirs e V \<and> V (ref_key e n) \<noteq> Some None))"
proof -
  note paths = layout_paths [OF assms(1)]
  show ?thesis
    unfolding DeleteReference_def refPath_def bindE_lift
    by (rule triple_weaken [OF remove_quiet_triple])
      (auto simp: ref_join paths assms layout_dirs_def)
qed

lemma GetReference_triple:
  assumes "layout_ok e" "name_ok n" and np: "\<And>b x. dec b = Inl x \<Longrightarrow> \<not> is_panic x \<and> \<not> os_IsNotExist x"
  shows "triple (fs_st c V) (GetReference dec e n)
     (\<lambda>d s. fs_st c V s \<and> (\<exists>b. V (ref_key e n) = Some (Some b) \<and> dec b = Inr d))
     (\<lambda>x s. fs_st c V s \<and> \<not> is_panic x \<and> (os_IsNotExist x \<longrightarrow> V (ref_key e n) = None) \<and>
        (c \<and> layout_dirs e V \<longrightarrow>
           (V (ref_key e n) = None \<longrightarrow> os_IsNotExist x) \<and>
           (\<forall>b. V (ref_key e n) = Some (Some b) \<longrightarrow> dec b = Inl x)))"
proof -
  note paths = layout_paths [OF assms(1)]
  have "triple (fs_st c V) (ioutil_ReadFile (Join [l_path e, Join [refDirectory, n]]))
     (\<lambda>b s. fs_st c V s \<and> V (ref_key e n) = Some (Some b))
     (\<lambda>x s. fs_st c V s \<and> \<not> is_panic x \<and> (os_IsNotExist x \<longrightarrow> V (ref_key e n) = None) \<and>
        (c \<and> layout_dirs e V \<longrightarrow>
           (V (ref_key e n) = None \<longrightarrow> os_IsNotExist x) \<and>
           (\<forall>b. V (ref_key e n) = Some (Some b) \<longrightarrow> dec b = Inl x)))"
    by (rule triple_weaken [OF ioutil_ReadFile_triple])
      (auto simp: ref_join paths assms layout_dirs_def os_IsNotExist_def)
  then show ?thesis
    unfolding GetReference_def refPath_def bindE_lift
    by (rule triple_bind) (intro triple_lift; auto dest: np)
qed

section \<open>References\<close>

text \<open>
  The codec the code relies on (\<open>encoding/json\<close>): a failure to decode is an error value of its
  own, never one \<open>os.IsNotExist\<close> recognises.
\<close>

definition dec_ok :: "(bytes \<Rightarrow> Descriptor result) \<Rightarrow> bool" where
  "dec_ok dec \<longleftrightarrow> (\<forall>b x. dec b = Inl x \<longrightarrow> \<not> is_panic x \<and> \<not> os_IsNotExist x)"

text \<open>What is stored under a reference name, and what a put of \<open>d\<close> there will meet.\<close>

definition ref_stored ::
  "(bytes \<Rightarrow> Descriptor result) \<Rightarrow> dirLayout \<Rightarrow> (string list \<Rightarrow> bytes option option) \<Rightarrow> string \<Rightarrow> Descriptor \<Rightarrow> bool"
where
  "ref_stored dec e V n d \<longleftrightarrow> (\<exists>b. V (ref_key e n) = Some (Some b) \<and> dec b = Inr d)"

lemma temp_write_triple:
  assumes e: "layout_ok e" and pre: "temp_prefix pre"
    and k: "\<not> prefix (comps (l_temp e)) (comps dst)"
    and c: "c \<Longrightarrow> V (comps (l_temp e)) = Some None \<and> V (butlast (comps dst)) = Some None \<and>
              V (comps dst) \<noteq> Some None"
  shows "triple (\<lambda>s. fs_st c V s \<and> (c \<longrightarrow> temp_free e pre V s))
     (bindE (ioutil_TempFile (l_temp e) pre) (\<lambda>(nm, fh). thenE (file_Write fh b) (os_Rename nm dst)))
     (\<lambda>_. fs_st c (V(comps dst \<mapsto> Some b)))
     (\<lambda>x s. agree (comps (l_temp e)) V s \<and> \<not> is_panic x \<and> \<not> c)"
proof -
  let ?T = "comps (l_temp e)"
  note paths = layout_paths [OF e]
  have tmp: "triple (\<lambda>s. fs_st c V s \<and> (c \<longrightarrow> temp_free e pre V s)) (ioutil_TempFile (l_temp e) pre)
      (\<lambda>(nm, i) s. prefix ?T (comps nm) \<and> temp_st c V (comps nm) i [] s)
      (\<lambda>x s. agree ?T V s \<and> \<not> is_panic x \<and> \<not> c)"
    by (rule tripleI, insert ioutil_TempFile_triple [of pre "l_temp e" c V])
      (fastforce simp: triple_def paths pre temp_free_def c fs_st_agree split: prod.splits sum.splits)
  have body: "triple (\<lambda>s. prefix ?T (comps nm) \<and> temp_st c V (comps nm) i [] s)
      (thenE (file_Write i b) (os_Rename nm dst))
      (\<lambda>_. fs_st c (V(comps dst \<mapsto> Some b)))
      (\<lambda>x s. agree ?T V s \<and> \<not> is_panic x \<and> \<not> c)" for nm i
  proof (cases "prefix ?T (comps nm)")
    case True
    then have ne: "comps nm \<noteq> comps dst" using k by auto
    have wr: "triple (temp_st c V (comps nm) i []) (file_Write i b) (\<lambda>_. temp_st c V (comps nm) i b)
        (\<lambda>x s. agree ?T V s \<and> \<not> is_panic x \<and> \<not> c)"
      using True by (intro triple_weaken [OF file_Write_triple]) (auto intro: temp_st_agree)
    have rn: "triple (temp_st c V (comps nm) i b) (os_Rename nm dst)
        (\<lambda>_. fs_st c (V(comps dst \<mapsto> Some b))) (\<lambda>x s. agree ?T V s \<and> \<not> is_panic x \<and> \<not> c)"
      using c True ne by (intro triple_weaken [OF os_Rename_triple]) (auto intro: temp_st_agree)
    show ?thesis by (rule triple_pre [OF triple_then [OF wr rn]]) auto
  next
    case False
    then show ?thesis by (auto simp: triple_def)
  qed
  show ?thesis
  proof (rule triple_bind_pre [OF tmp], goal_cases)
    case (2 x)
    show ?case using body [of "fst x" "snd x"] by (cases x) simp
  qed auto
qed

text \<open>
  \<open>PutReference\<close>: success leaves the descriptor stored, and a write happens only where nothing
  was stored; \<open>ErrClobber\<close> and every other failure leave the image's blobs and references
  alone.
\<close>

lemma PutReference_triple:
  assumes e: "layout_ok e" and n: "name_ok n" and dec: "dec_ok dec"
  shows "triple (\<lambda>s :: 'z fs_scheme. fs_st c V s \<and> (c \<longrightarrow> layout_dirs e V \<and> temp_free e (''ref.'' @ n @ ''-'') V s))
     (PutReference enc dec e n d)
     (\<lambda>_ s. ref_stored dec e V n d \<and> fs_st c V s \<or>
        V (ref_key e n) = None \<and> fs_st c (V(ref_key e n \<mapsto> Some (enc d))) s)
     (\<lambda>x s. agree (comps (l_temp e)) V s \<and> \<not> is_panic x \<and>
        (c \<longrightarrow> V (ref_key e n) \<noteq> None \<and>
           (\<forall>d'. ref_stored dec e V n d' \<longrightarrow> d' \<noteq> d \<and> x = ErrClobber)))"
proof -
  note paths = layout_paths [OF e]
  let ?T = "comps (l_temp e)" and ?pre = "''ref.'' @ n @ ''-''"
  let ?R = "\<lambda>x (s :: 'z fs_scheme). agree ?T V s \<and> \<not> is_panic x \<and> (c \<longrightarrow> V (ref_key e n) \<noteq> None \<and>
           (\<forall>d'. ref_stored dec e V n d' \<longrightarrow> d' \<noteq> d \<and> x = ErrClobber))"
  let ?P = "\<lambda>s :: 'z fs_scheme. fs_st c V s \<and> (c \<longrightarrow> layout_dirs e V \<and> temp_free e ?pre V s)"
  let ?E = "\<lambda>x. (os_IsNotExist x \<longrightarrow> V (ref_key e n) = None) \<and>
      (c \<longrightarrow> (V (ref_key e n) = None \<longrightarrow> os_IsNotExist x) \<and>
             (\<forall>b. V (ref_key e n) = Some (Some b) \<longrightarrow> dec b = Inl x))"
  have pre: "temp_prefix ?pre" using n by (auto simp: temp_prefix_def name_ok_def)
  have dst: "comps (Join [l_path e, Join [refDirectory, n]]) = ref_key e n"
    by (intro ref_join paths n)
  have np: "\<And>b x. dec b = Inl x \<Longrightarrow> \<not> is_panic x \<and> \<not> os_IsNotExist x"
    using dec by (auto simp: dec_ok_def)
  have rnd: "keeps (\<lambda>s. rnd s = r) (GetReference dec e n)" for r
    unfolding GetReference_def ioutil_ReadFile_def os_Open_def read_all_def
    by (intro keep syscall_frame) auto
  have get: "triple ?P (tryE (GetReference dec e n))
     (\<lambda>r s. (case r of Inr d' \<Rightarrow> ref_stored dec e V n d' | Inl x \<Rightarrow> \<not> is_panic x \<and> ?E x) \<and> ?P s) ?R"
  proof (rule tripleI)
    fix s :: "'z fs_scheme"
    assume s: "?P s"
    obtain r t where m: "GetReference dec e n s = (r, t)" by (cases "GetReference dec e n s")
    have "rnd t = rnd s" using keepsD [OF rnd, of s "rnd s"] m by simp
    then have free: "temp_free e ?pre V s \<Longrightarrow> temp_free e ?pre V t" by (simp add: temp_free_def)
    have g: "triple (fs_st c V :: 'z fs_scheme \<Rightarrow> bool) (GetReference dec e n)
       (\<lambda>d' s. fs_st c V s \<and> ref_stored dec e V n d')
       (\<lambda>x s. fs_st c V s \<and> \<not> is_panic x \<and> (layout_dirs e V \<or> \<not> c \<longrightarrow> ?E x))"
      by (rule triple_weaken [OF GetReference_triple [OF e n np]]) (auto simp: ref_stored_def)
    show "case tryE (GetReference dec e n) s of (Inl e, s') \<Rightarrow> ?R e s'
      | (Inr r, s') \<Rightarrow> (case r of Inr d' \<Rightarrow> ref_stored dec e V n d' | Inl x \<Rightarrow> \<not> is_panic x \<and> ?E x) \<and> ?P s'"
    proof (cases r)
      case (Inl x)
      then have "fs_st c V t" "\<not> is_panic x" "?E x" using tripleD_Inl [OF g, of s x t] s m by blast+
      then show ?thesis using s m free Inl by simp
    next
      case (Inr d')
      then have "fs_st c V t" "ref_stored dec e V n d'" using tripleD_Inr [OF g, of s d' t] s m by blast+
      then show ?thesis using s m free Inr by simp
    qed
  qed
  have put: "triple ?P
      (bindE (ioutil_TempFile (l_temp e) ?pre) (\<lambda>(nm, fh).
         thenE (file_Write fh (enc d)) (os_Rename nm (Join [l_path e, Join [refDirectory, n]]))))
      (\<lambda>_. fs_st c (V(ref_key e n \<mapsto> Some (enc d)))) (\<lambda>x s. agree ?T V s \<and> \<not> is_panic x \<and> \<not> c)"
    if "V (ref_key e n) = None"
  proof (cases "c \<longrightarrow> layout_dirs e V")
    case True
    show ?thesis
      by (rule triple_pre [OF temp_write_triple [OF e pre,
            of "Join [l_path e, Join [refDirectory, n]]" c V "enc d", unfolded dst]])
        (use True that in \<open>auto simp: layout_dirs_def paths\<close>)
  qed (auto simp: triple_def)
  show ?thesis
    unfolding PutReference_def refPath_def bindE_lift
  proof (rule triple_bind [OF get], goal_cases)
    case (1 r)
    show ?case
    proof (cases r)
      case (Inl x)
      show ?thesis
        unfolding Inl sum.case
      proof (rule triple_if, goal_cases)
        case 1
        then show ?case by (intro triple_throw) (auto simp: fs_st_agree ref_stored_def)
      next
        case 2
        show ?case
        proof (cases "V (ref_key e n) = None")
          case True
          show ?thesis by (rule triple_weaken [OF put [OF True]]) (use True in auto)
        next
          case False
          with 2 show ?thesis by (intro tripleI) auto
        qed
      qed
    next
      case (Inr d')
      then show ?thesis
        by (auto intro!: triple_throw triple_return simp: fs_st_agree ref_stored_def)
    qed
  qed
qed

section \<open>Opening an image\<close>

definition image_paths :: "string \<Rightarrow> bool" where
  "image_paths p \<longleftrightarrow> p \<noteq> [] \<and> Clean p = p"

text \<open>A path that is no image yet, or an image whose directories are all there.\<close>

definition whole_image :: "(string list \<Rightarrow> bytes option option) \<Rightarrow> string \<Rightarrow> bool" where
  "whole_image V p \<longleftrightarrow>
     V (comps p @ [layoutFile]) \<noteq> None \<longrightarrow> V (comps p @ [blobDirectory]) \<noteq> None"

lemma image_join [path]:
  assumes "image_paths p"
  shows "comps (Join [p, layoutFile]) = comps p @ [layoutFile]"
    "comps (Join [p, blobDirectory]) = comps p @ [blobDirectory]"
    "comps (Join [p, blobDirectory, BlobAlgorithm]) = comps p @ [blobDirectory, BlobAlgorithm]"
    "comps (Join [p, refDirectory]) = comps p @ [refDirectory]"
proof -
  have p: "p \<noteq> []" "Clean p = p" using assms by (auto simp: image_paths_def)
  show "comps (Join [p, layoutFile]) = comps p @ [layoutFile]"
    "comps (Join [p, blobDirectory]) = comps p @ [blobDirectory]"
    "comps (Join [p, refDirectory]) = comps p @ [refDirectory]"
    using comps_Join_name [OF p(1)] p(2) by simp_all
  have "Join [p, blobDirectory, BlobAlgorithm] = Join [p, join_with slash [blobDirectory, BlobAlgorithm]]"
    using p by (simp add: Join_Cons)
  then show "comps (Join [p, blobDirectory, BlobAlgorithm]) = comps p @ [blobDirectory, BlobAlgorithm]"
    using comps_Join_names [OF p(1), of "[blobDirectory, BlobAlgorithm]"] p(2)
    by (metis dir_names(1,2) empty_iff insert_iff list.distinct(1) list.set)
qed

lemma unless_exists_keeps [keep]: "keeps I m \<Longrightarrow> keeps I (unless_exists m)"
  unfolding unless_exists_def by (intro keep)

text \<open>
  Whatever fails while an image is opened, no file and no directory that was there is lost or
  changed.
\<close>

definition preserved :: "(string list \<Rightarrow> bytes option option) \<Rightarrow> 'z fs_scheme \<Rightarrow> bool" where
  "preserved V s \<longleftrightarrow> wf_fs s \<and> (\<forall>ps. V ps \<noteq> None \<longrightarrow> view s ps = V ps)"

lemma dirs_ext_preserved: "dirs_ext V s \<Longrightarrow> preserved V s"
  by (auto simp: dirs_ext_def adds_dirs_def preserved_def)

lemma create_layout_preserved:
  assumes "V (comps p) = None"
  shows "triple (dirs_ext V) (bindE (os_Create p) (\<lambda>fh. file_Write fh bs)) (\<lambda>_. preserved V) (\<lambda>_. preserved V)"
proof (rule tripleI)
  fix s :: "'a fs_scheme"
  assume s: "dirs_ext V s"
  let ?W = "view s"
  have st: "fs_st False ?W s" and W: "adds_dirs V ?W" using s by (auto simp: dirs_ext_def fs_st_def)
  have lf: "?W (comps p) = None \<or> ?W (comps p) = Some None"
    using W assms unfolding adds_dirs_def by metis
  have pres: "preserved V t" if "temp_st False ?W (comps p) i d t" for t :: "'a fs_scheme" and i d
  proof -
    have "view t = ?W(comps p \<mapsto> Some d)" "wf_fs t" using that by (auto simp: temp_st_def)
    then show ?thesis using W assms unfolding preserved_def adds_dirs_def by (metis fun_upd_apply)
  qed
  have "triple (fs_st False ?W :: 'a fs_scheme \<Rightarrow> bool) (bindE (os_Create p) (\<lambda>fh. file_Write fh bs)) (\<lambda>_. preserved V) (\<lambda>_. preserved V)"
  proof (rule triple_bind [where M = "\<lambda>i. temp_st False ?W (comps p) i []"], goal_cases)
    case 1
    show ?case
      by (rule triple_weaken [OF os_Create_triple [where p = p and V = ?W and c = False, OF lf]])
        (use W in \<open>auto simp: dirs_ext_view intro: dirs_ext_preserved\<close>)
  next
    case (2 i)
    show ?case by (rule triple_weaken [OF file_Write_triple]) (auto intro: pres)
  qed
  with st show "case bindE (os_Create p) (\<lambda>fh. file_Write fh bs) s of
      (Inl e, s') \<Rightarrow> preserved V s' | (Inr x, s') \<Rightarrow> preserved V s'"
    by (simp add: triple_def)
qed

lemma mkdir_absent_triple:
  "triple (dirs_ext V) (os_Mkdir p) (\<lambda>_ s. dirs_ext V s \<and> V (comps p) = None) (\<lambda>_. dirs_ext V)"
proof (rule tripleI)
  fix s :: "'a fs_scheme"
  assume s: "dirs_ext V s"
  have "fs_st False (view s) s" using s by (simp add: dirs_ext_def fs_st_def)
  then have "V (comps p) = None" if "os_Mkdir p s = (Inr u, t)" for u t
    using tripleD_Inr [OF os_Mkdir_triple _ that] s unfolding dirs_ext_def adds_dirs_def by metis
  moreover have "keeps (dirs_ext V :: 'a fs_scheme \<Rightarrow> bool) (os_Mkdir p)" by (intro keep)
  ultimately show "case os_Mkdir p s of (Inl e, s') \<Rightarrow> dirs_ext V s'
      | (Inr x, s') \<Rightarrow> dirs_ext V s' \<and> V (comps p) = None"
    using s by (auto simp: triple_def split: prod.splits sum.splits)
qed

lemma initialize_preserved:
  assumes "image_paths (l_path e)" "whole_image V (l_path e)"
  shows "triple (dirs_ext V) (initialize e) (\<lambda>_. preserved V) (\<lambda>_. preserved V)"
proof -
  let ?D = "dirs_ext V" and ?p = "l_path e"
  have make: "triple ?D (thenE (os_Mkdir (Join [?p, blobDirectory]))
      (thenE (os_Mkdir (Join [?p, blobDirectory, BlobAlgorithm]))
      (thenE (os_Mkdir (Join [?p, refDirectory]))
      (bindE (os_Create (Join [?p, layoutFile])) (\<lambda>fh. file_Write fh layout_json)))))
      (\<lambda>_. preserved V) (\<lambda>_. preserved V)"
  proof (rule triple_then [where M = "\<lambda>s. ?D s \<and> V (comps ?p @ [blobDirectory]) = None"], goal_cases)
    case 1
    show ?case
      by (rule triple_weaken [OF mkdir_absent_triple])
        (auto simp: image_join assms intro: dirs_ext_preserved)
  next
    case 2
    show ?case
    proof (cases "V (comps ?p @ [blobDirectory]) = None")
      case True
      then have lf: "V (comps (Join [?p, layoutFile])) = None"
        using assms by (auto simp: whole_image_def image_join)
      have k: "triple ?D (os_Mkdir q) (\<lambda>_. ?D) (\<lambda>_. preserved V)" for q
        by (rule triple_weaken [OF os_dirs_ext(1)]) (auto intro: dirs_ext_preserved)
      show ?thesis
        by (rule triple_pre [OF triple_then [OF k triple_then [OF k create_layout_preserved [where V = V, OF lf]]]]) auto
    qed (auto simp: triple_def)
  qed
  have st: "keeps ?D m \<Longrightarrow> triple ?D m (\<lambda>_. ?D) (\<lambda>_. preserved V)" for m :: "('a fs_scheme, 'b) call"
    by (erule triple_weaken) (auto intro: dirs_ext_preserved)
  have st': "keeps ?D m \<Longrightarrow> triple ?D m (\<lambda>_. ?D) (\<lambda>_. preserved V)" for m :: "('a fs_scheme, node result) call"
    by (erule triple_weaken) (auto intro: dirs_ext_preserved)
  show ?thesis
    unfolding initialize_def Let_def
    by (rule triple_then [OF st], intro keep, rule triple_then [OF st], intro keep,
        rule triple_bind [OF st'], intro keep)
      (auto intro!: triple_return make split: sum.splits dest: dirs_ext_preserved)
qed

lemma preserved_by_dirs:
  assumes m: "\<And>W. keeps (dirs_ext W) m"
  shows "keeps (preserved V :: 'z fs_scheme \<Rightarrow> bool) m"
proof (rule tripleI)
  fix s :: "'z fs_scheme"
  assume s: "preserved V s"
  have "dirs_ext (view s) s" using s by (simp add: dirs_ext_def preserved_def)
  moreover have "preserved V t" if "dirs_ext (view s) t" for t :: "'z fs_scheme"
    using s that unfolding preserved_def dirs_ext_def adds_dirs_def by metis
  ultimately show "case m s of (Inl e, s') \<Rightarrow> preserved V s' | (Inr x, s') \<Rightarrow> preserved V s'"
    using m [of "view s"] unfolding triple_def by (auto split: prod.splits sum.splits)
qed

lemma newDirLayout_preserved:
  assumes "image_paths p" "whole_image V p"
  shows "triple (dirs_ext V) (newDirLayout p) (\<lambda>_. preserved V) (\<lambda>_. preserved V)"
proof -
  have ini: "triple (dirs_ext V) (initialize \<lparr>l_path = p, l_temp = []\<rparr>) (\<lambda>_. preserved V) (\<lambda>_. preserved V)"
    using assms by (intro initialize_preserved) simp_all
  have tmp: "keeps (preserved V) (ioutil_TempDir p ''tmp-'')"
    by (intro preserved_by_dirs keep)
  show ?thesis
    unfolding newDirLayout_def Let_def dirLayout.select_convs
    by (intro triple_then [OF ini] triple_bind [OF tmp] triple_return)
qed

text \<open>The parent of a new image is there.\<close>

definition has_parent :: "(string list \<Rightarrow> bytes option option) \<Rightarrow> string \<Rightarrow> bool" where
  "has_parent V p \<longleftrightarrow> V (comps (filepath_Dir p)) = Some None \<and> V (butlast (comps p)) = Some None"

definition fresh_image ::
  "(string list \<Rightarrow> bytes option option) \<Rightarrow> string \<Rightarrow> (string list \<Rightarrow> bytes option option)" where
  "fresh_image V p =
     V(comps p \<mapsto> None, comps p @ [blobDirectory] \<mapsto> None,
       comps p @ [blobDirectory, BlobAlgorithm] \<mapsto> None, comps p @ [refDirectory] \<mapsto> None,
       comps p @ [layoutFile] \<mapsto> Some layout_json)"

lemma image_names [simp]:
  "blobDirectory \<noteq> refDirectory" "refDirectory \<noteq> blobDirectory" "blobDirectory \<noteq> layoutFile"
  "layoutFile \<noteq> blobDirectory" "refDirectory \<noteq> layoutFile" "layoutFile \<noteq> refDirectory"
  by (simp_all add: blobDirectory_def refDirectory_def layoutFile_def)

lemma initialize_head_triple:
  assumes "has_parent V p"
  shows "triple (fs_st True V)
     (whenE (filepath_Dir p \<noteq> ''.'') (unless_exists (os_MkdirAll (filepath_Dir p))))
     (\<lambda>_. fs_st True V) (\<lambda>_ _. False)"
  using assms unfolding unless_exists_def has_parent_def
  by (intro triple_when triple_catch_ok os_MkdirAll_present) auto

lemma mkdir_total:
  "V (comps p) = None \<Longrightarrow> V (butlast (comps p)) = Some None \<Longrightarrow>
   triple (fs_st True V) (os_Mkdir p) (\<lambda>_. fs_st True (V(comps p \<mapsto> None))) (\<lambda>_ _. False)"
  by (rule triple_weaken [OF os_Mkdir_triple]) auto

lemma mkdir_exists:
  "V (comps p) = Some None \<Longrightarrow> V (butlast (comps p)) = Some None \<Longrightarrow>
   triple (fs_st True V) (os_Mkdir p) (\<lambda>_ _. False) (\<lambda>x s. fs_st True V s \<and> os_IsExist x \<and> \<not> is_panic x)"
  by (rule triple_weaken [OF os_Mkdir_triple]) auto

text \<open>
  A new path becomes an image with no blobs and no references; an image that is there is
  opened as it is.
\<close>

lemma initialize_fresh:
  assumes p: "image_paths (l_path e)" and par: "has_parent V (l_path e)"
    and no: "\<And>xs. V (comps (l_path e) @ xs) = None"
  shows "triple (fs_st True V) (initialize e) (\<lambda>_. fs_st True (fresh_image V (l_path e))) (\<lambda>_ _. False)"
proof -
  let ?p = "l_path e" let ?c = "comps ?p"
  let ?V1 = "V(?c \<mapsto> None)"
  let ?V2 = "?V1(?c @ [blobDirectory] \<mapsto> None)"
  let ?V3 = "?V2(?c @ [blobDirectory, BlobAlgorithm] \<mapsto> None)"
  let ?V4 = "?V3(?c @ [refDirectory] \<mapsto> None)"
  note join = image_join [OF p]
  have none: "V ?c = None" using no [of "[]"] by simp
  have mk0: "triple (fs_st True V) (unless_exists (os_Mkdir ?p)) (\<lambda>_. fs_st True ?V1) (\<lambda>_ _. False)"
    unfolding unless_exists_def
    by (intro triple_catch_ok mkdir_total) (use par none in \<open>auto simp: has_parent_def\<close>)
  have st: "triple (fs_st True ?V1) (tryE (os_Stat (Join [?p, layoutFile])))
      (\<lambda>r s. (\<exists>x. r = Inl x) \<and> fs_st True ?V1 s) (\<lambda>_ _. False)"
    by (intro triple_try triple_weaken [OF os_Stat_triple])
      (use fs_st_Some no in \<open>fastforce simp: join butlast_append\<close>)+
  have mk1: "triple (fs_st True ?V1) (os_Mkdir (Join [?p, blobDirectory])) (\<lambda>_. fs_st True ?V2) (\<lambda>_ _. False)"
    using mkdir_total [of ?V1 "Join [?p, blobDirectory]"] no by (simp add: join butlast_append)
  have mk2: "triple (fs_st True ?V2) (os_Mkdir (Join [?p, blobDirectory, BlobAlgorithm]))
      (\<lambda>_. fs_st True ?V3) (\<lambda>_ _. False)"
    using mkdir_total [of ?V2 "Join [?p, blobDirectory, BlobAlgorithm]"] no
    by (simp add: join butlast_append)
  have mk3: "triple (fs_st True ?V3) (os_Mkdir (Join [?p, refDirectory])) (\<lambda>_. fs_st True ?V4) (\<lambda>_ _. False)"
    using mkdir_total [of ?V3 "Join [?p, refDirectory]"] no by (simp add: join butlast_append)
  have cr: "triple (fs_st True ?V4) (bindE (os_Create (Join [?p, layoutFile])) (\<lambda>fh. file_Write fh layout_json))
      (\<lambda>_. fs_st True (fresh_image V ?p)) (\<lambda>_ _. False)"
  proof (rule triple_bind [where M = "\<lambda>i. temp_st True ?V4 (?c @ [layoutFile]) i []"], goal_cases)
    case 1
    show ?case
      by (rule triple_weaken [OF os_Create_triple [where p = "Join [?p, layoutFile]" and V = ?V4 and c = True]])
        (auto simp: join no butlast_append)
  next
    case (2 i)
    show ?case
      by (rule triple_weaken [OF file_Write_triple])
        (auto simp: fresh_image_def dest: temp_st_fs_st)
  qed
  show ?thesis
    unfolding initialize_def Let_def
    by (intro triple_then [OF initialize_head_triple [OF par]] triple_then [OF mk0] triple_bind [OF st]
        triple_case_sum triple_assume triple_then [OF mk1 triple_then [OF mk2 triple_then [OF mk3 cr]]])
      simp
qed

lemma initialize_existing:
  assumes p: "image_paths (l_path e)" and par: "has_parent V (l_path e)"
    and d: "V (comps (l_path e)) = Some None" and l: "V (comps (l_path e) @ [layoutFile]) \<noteq> None"
  shows "triple (fs_st True V) (initialize e) (\<lambda>_. fs_st True V) (\<lambda>_ _. False)"
proof -
  let ?p = "l_path e"
  have mk0: "triple (fs_st True V) (unless_exists (os_Mkdir ?p)) (\<lambda>_. fs_st True V) (\<lambda>_ _. False)"
    unfolding unless_exists_def
    by (rule triple_catch [where H = "\<lambda>x s. fs_st True V s \<and> os_IsExist x"])
      (use par d in \<open>auto simp: has_parent_def intro!: triple_weaken [OF mkdir_exists] triple_return triple_throw\<close>)
  have st: "triple (fs_st True V) (tryE (os_Stat (Join [?p, layoutFile])))
      (\<lambda>r s. (\<exists>x. r = Inr x) \<and> fs_st True V s) (\<lambda>_ _. False)"
    by (intro triple_try triple_weaken [OF os_Stat_triple]) (use l in \<open>auto simp: image_join [OF p]\<close>)
  show ?thesis
    unfolding initialize_def Let_def
    by (intro triple_then [OF initialize_head_triple [OF par]] triple_then [OF mk0] triple_bind [OF st]
        triple_case_sum triple_assume triple_return) auto
qed

text \<open>
  A path that a failed attempt left with \<open>blobs\<close> and without the layout file: every later
  attempt fails, with the error of the second \<open>Mkdir\<close>.
\<close>

lemma initialize_stuck:
  assumes p: "image_paths (l_path e)" and par: "has_parent V (l_path e)"
    and d: "V (comps (l_path e)) = Some None" and l: "V (comps (l_path e) @ [layoutFile]) = None"
    and b: "V (comps (l_path e) @ [blobDirectory]) = Some None"
  shows "triple (fs_st True V) (initialize e) (\<lambda>_ _. False) (\<lambda>x s. fs_st True V s \<and> os_IsExist x)"
proof -
  let ?p = "l_path e"
  let ?R = "\<lambda>x s. fs_st True V s \<and> os_IsExist x"
  have hd: "triple (fs_st True V)
     (whenE (filepath_Dir ?p \<noteq> ''.'') (unless_exists (os_MkdirAll (filepath_Dir ?p))))
     (\<lambda>_. fs_st True V) ?R"
    by (rule triple_weaken [OF initialize_head_triple [OF par]]) auto
  have mk0: "triple (fs_st True V) (unless_exists (os_Mkdir ?p)) (\<lambda>_. fs_st True V) ?R"
    unfolding unless_exists_def
    by (rule triple_catch [where H = "\<lambda>x s. fs_st True V s \<and> os_IsExist x"])
      (use par d in \<open>auto simp: has_parent_def intro!: triple_weaken [OF mkdir_exists] triple_return triple_throw\<close>)
  have st: "triple (fs_st True V) (tryE (os_Stat (Join [?p, layoutFile])))
      (\<lambda>r s. (\<exists>x. r = Inl x) \<and> fs_st True V s) ?R"
    by (intro triple_try triple_weaken [OF os_Stat_triple])
      (use fs_st_Some l d in \<open>fastforce simp: image_join [OF p]\<close>)+
  have mk1: "triple (fs_st True V) (os_Mkdir (Join [?p, blobDirectory])) (\<lambda>_ _. False) ?R"
    by (rule triple_weaken [OF mkdir_exists]) (use b d in \<open>auto simp: image_join [OF p] butlast_append\<close>)
  show ?thesis
    unfolding initialize_def Let_def
    by (intro triple_then [OF hd] triple_then [OF mk0] triple_bind [OF st] triple_case_sum triple_assume
        triple_then [OF mk1 triple_False]) simp
qed

text \<open>What opening gives: a usable layout and, beside its temporary directory, the image.\<close>

definition opens ::
  "string \<Rightarrow> (string list \<Rightarrow> bytes option option) \<Rightarrow> dirLayout \<Rightarrow> 'z fs_scheme \<Rightarrow> bool" where
  "opens p V e s \<longleftrightarrow>
     l_path e = p \<and> layout_ok e \<and> V (comps (l_temp e)) = None \<and> fs_st True (V(comps (l_temp e) \<mapsto> None)) s"

definition names_left ::
  "string \<Rightarrow> (string list \<Rightarrow> bytes option option) \<Rightarrow> 'z fs_scheme \<Rightarrow> bool" where
  "names_left p V s \<longleftrightarrow> (\<exists>k<10000. V (comps p @ [''tmp-'' @ rnd s k]) = None)"

lemma sys_rnd [keep]:
  "keeps (\<lambda>s. rnd s = r) (os_Mkdir p)" "keeps (\<lambda>s. rnd s = r) (os_Stat p)"
  "keeps (\<lambda>s. rnd s = r) (os_Create p)"
  unfolding os_Mkdir_def os_Stat_def os_Create_def by (rule syscall_frame; simp)+

lemma initialize_rnd: "keeps (\<lambda>s. rnd s = r) (initialize e)"
proof -
  have all: "keeps (\<lambda>s. rnd s = r) (os_MkdirAll p)" for p
  proof -
    have "keeps (\<lambda>s. rnd s = r) (mkdirAll cs)" for cs
      by (induction cs) (auto intro!: keep syscall_frame split: node.splits)
    then show ?thesis by (simp add: os_MkdirAll_def)
  qed
  have "keeps (\<lambda>s. rnd s = r) (file_Write i bs)" for i bs
    by (rule tripleI) (auto simp: file_Write_def append_to_def split: list.splits option.splits)
  with all show ?thesis unfolding initialize_def Let_def by (intro keep)
qed

lemma newDirLayout_triple:
  assumes p: "image_paths p" and W: "W (comps p) = Some None"
    and free: "\<And>x. W (comps p @ [''tmp-'' @ x]) = V (comps p @ [''tmp-'' @ x])"
    and ini: "triple (fs_st True V :: 'z fs_scheme \<Rightarrow> bool) (initialize \<lparr>l_path = p, l_temp = []\<rparr>) (\<lambda>_. fs_st True W) (\<lambda>_ _. False)"
  shows "triple (\<lambda>s :: 'z fs_scheme. fs_st True V s \<and> names_left p V s) (newDirLayout p) (\<lambda>e. opens p W e) (\<lambda>_ _. False)"
proof -
  have ini': "triple (\<lambda>s :: 'z fs_scheme. fs_st True V s \<and> names_left p V s) (initialize \<lparr>l_path = p, l_temp = []\<rparr>)
     (\<lambda>_ s. fs_st True W s \<and> (\<exists>k<10000. W (comps p @ [''tmp-'' @ rnd s k]) = None)) (\<lambda>_ _. False)"
  proof (rule tripleI)
    fix s :: "'z fs_scheme"
    assume s: "fs_st True V s \<and> names_left p V s"
    obtain r t where m: "initialize \<lparr>l_path = p, l_temp = []\<rparr> s = (r, t)" by fastforce
    have "rnd (snd (initialize \<lparr>l_path = p, l_temp = []\<rparr> s)) = rnd s"
      by (rule keepsD [OF initialize_rnd]) (rule refl)
    then have "rnd t = rnd s" using m by simp
    then show "case initialize \<lparr>l_path = p, l_temp = []\<rparr> s of (Inl e, s') \<Rightarrow> False
      | (Inr x, s') \<Rightarrow> fs_st True W s' \<and> (\<exists>k<10000. W (comps p @ [''tmp-'' @ rnd s' k]) = None)"
      using s m tripleD_Inl [OF ini] tripleD_Inr [OF ini] free
      by (cases r) (auto simp: names_left_def)
  qed
  have pp: "p \<noteq> []" "Clean p = p" using p by (auto simp: image_paths_def)
  have tmp: "triple (\<lambda>s. fs_st True W s \<and> (\<exists>k<10000. W (comps p @ [''tmp-'' @ rnd s k]) = None))
      (ioutil_TempDir p ''tmp-'')
      (\<lambda>nm s. (\<exists>sfx. comps nm = comps p @ [''tmp-'' @ sfx]) \<and> Clean nm = nm \<and>
         fs_st True (W(comps nm \<mapsto> None)) s \<and> W (comps nm) = None) (\<lambda>_ _. False)"
    using ioutil_TempDir_triple [of "''tmp-''" p True W] W pp
    by (simp add: temp_prefix_def)
  show ?thesis
    unfolding newDirLayout_def Let_def dirLayout.select_convs
    by (intro triple_then [OF ini'] triple_bind [OF tmp] triple_return)
      (use pp in \<open>auto simp: opens_def layout_ok_def\<close>)
qed

section \<open>The image as a content store\<close>

text \<open>A digest the code can mean: the algorithm, a colon, and a name that is one path component.\<close>

definition blob_valid :: "string \<Rightarrow> bool" where
  "blob_valid k \<longleftrightarrow> (case cut '':'' k of Some (a, h) \<Rightarrow> a = BlobAlgorithm \<and> name_ok h | None \<Rightarrow> False)"

definition blob_at :: "dirLayout \<Rightarrow> 'z fs_scheme \<Rightarrow> string \<Rightarrow> bytes option" where
  "blob_at e s k =
     (case cut '':'' k of
        None \<Rightarrow> None
      | Some (a, h) \<Rightarrow>
          if a = BlobAlgorithm \<and> name_ok h then Option.bind (view s (blob_key e h)) (\<lambda>d. d) else None)"

definition ref_at ::
  "(bytes \<Rightarrow> Descriptor result) \<Rightarrow> dirLayout \<Rightarrow> 'z fs_scheme \<Rightarrow> string \<Rightarrow> Descriptor option" where
  "ref_at dec e s n =
     (if name_ok n then
        (case view s (ref_key e n) of
           Some (Some b) \<Rightarrow> (case dec b of Inr d \<Rightarrow> Some d | Inl _ \<Rightarrow> None)
         | _ \<Rightarrow> None)
      else None)"

text \<open>A usable layout on a well-formed file system, no blob or reference name taken by a directory.\<close>

definition codec_ok :: "(Descriptor \<Rightarrow> bytes) \<Rightarrow> (bytes \<Rightarrow> Descriptor result) \<Rightarrow> bool" where
  "codec_ok enc dec \<longleftrightarrow> dec_ok dec \<and> (\<forall>d. dec (enc d) = Inr d)"

definition store_inv ::
  "(bytes \<Rightarrow> bytes) \<Rightarrow> (Descriptor \<Rightarrow> bytes) \<Rightarrow> (bytes \<Rightarrow> Descriptor result) \<Rightarrow> dirLayout \<Rightarrow> 'z fs_scheme \<Rightarrow> bool"
where
  "store_inv sha enc dec e s \<longleftrightarrow>
     layout_ok e \<and> sha_ok sha \<and> codec_ok enc dec \<and> wf_fs s \<and>
     (\<forall>h. name_ok h \<longrightarrow> view s (blob_key e h) \<noteq> Some None) \<and>
     (\<forall>n. name_ok n \<longrightarrow> view s (ref_key e n) \<noteq> Some None)"

lemma blob_valid_iff: "blob_valid k \<longleftrightarrow> (\<exists>h. k = digest_of h \<and> name_ok h)"
  by (auto simp: blob_valid_def cut_char split: option.splits dest: cut_some)

lemma blob_at_digest: "name_ok h \<Longrightarrow> blob_at e s (digest_of h) = Option.bind (view s (blob_key e h)) (\<lambda>d. d)"
  by (simp add: blob_at_def cut_char)

lemma blob_at_invalid: "\<not> blob_valid k \<Longrightarrow> blob_at e s k = None"
  by (auto simp: blob_at_def blob_valid_def split: option.splits)

lemma blob_at_ext:
  assumes "\<And>h. name_ok h \<Longrightarrow> Option.bind (view t (blob_key e h)) (\<lambda>d. d) = f (digest_of h)"
    and "\<And>k. \<not> blob_valid k \<Longrightarrow> f k = None"
  shows "blob_at e t = f"
proof
  fix k show "blob_at e t k = f k"
    using assms(2) [of k] by (cases "blob_valid k") (auto simp: blob_at_invalid blob_valid_iff blob_at_digest assms(1))
qed

lemma store_agree:
  assumes "store_inv sha enc dec e s" "agree (comps (l_temp e)) (view s) t"
  shows "store_inv sha enc dec e t" "blob_at e t = blob_at e s" "ref_at dec e t = ref_at dec e s"
proof -
  have "layout_ok e" using assms(1) by (simp add: store_inv_def)
  note np = layout_paths(5,6) [OF this]
  have v: "view t (blob_key e h) = view s (blob_key e h)" "view t (ref_key e n) = view s (ref_key e n)" for h n
    using assms(2) np unfolding agree_def by blast+
  have "wf_fs t" using assms(2) by (simp add: agree_def)
  with assms(1) v show "store_inv sha enc dec e t" unfolding store_inv_def by simp
  show "blob_at e t = blob_at e s" "ref_at dec e t = ref_at dec e s"
    by (simp_all add: fun_eq_iff blob_at_def ref_at_def v split: option.split)
qed

lemma store_same:
  assumes "store_inv sha enc dec e s" "fs_st c (view s) t"
  shows "store_inv sha enc dec e t" "blob_at e t = blob_at e s" "ref_at dec e t = ref_at dec e s"
  using store_agree [OF assms(1) fs_st_agree [OF assms(2)]] by auto

lemma store_put:
  assumes "store_inv sha enc dec e s" "name_ok h" "fs_st c ((view s)(blob_key e h \<mapsto> Some d)) t"
  shows "store_inv sha enc dec e t" "blob_at e t = (blob_at e s)(digest_of h \<mapsto> d)"
    "ref_at dec e t = ref_at dec e s"
proof -
  have v: "view t = (view s)(blob_key e h \<mapsto> Some d)" "wf_fs t" using assms(3) by (auto simp: fs_st_def)
  have r: "ref_key e n \<noteq> blob_key e h" for n using butlast_keys(5) by metis
  show "store_inv sha enc dec e t"
    using assms(1) v r unfolding store_inv_def by (simp del: view_simps)
  show "blob_at e t = (blob_at e s)(digest_of h \<mapsto> d)"
    by (rule blob_at_ext) (auto simp: v blob_at_digest blob_at_invalid blob_valid_iff assms(2) simp del: view_simps)
  show "ref_at dec e t = ref_at dec e s"
    using r by (simp add: fun_eq_iff ref_at_def v del: view_simps)
qed

lemma store_del:
  assumes "store_inv sha enc dec e s" "name_ok h" "fs_st c ((view s)(blob_key e h := None)) t"
  shows "store_inv sha enc dec e t" "blob_at e t = (blob_at e s)(digest_of h := None)"
    "ref_at dec e t = ref_at dec e s"
proof -
  have v: "view t = (view s)(blob_key e h := None)" "wf_fs t" using assms(3) by (auto simp: fs_st_def)
  have r: "ref_key e n \<noteq> blob_key e h" for n using butlast_keys(5) by metis
  show "store_inv sha enc dec e t"
    using assms(1) v r unfolding store_inv_def by (simp del: view_simps)
  show "blob_at e t = (blob_at e s)(digest_of h := None)"
    by (rule blob_at_ext) (auto simp: v blob_at_digest blob_at_invalid blob_valid_iff assms(2) simp del: view_simps)
  show "ref_at dec e t = ref_at dec e s"
    using r by (simp add: fun_eq_iff ref_at_def v del: view_simps)
qed

lemma store_ref_upd:
  assumes "store_inv sha enc dec e s" "name_ok n" "fs_st c ((view s)(ref_key e n := x)) t" "x \<noteq> Some None"
  shows "store_inv sha enc dec e t" "blob_at e t = blob_at e s"
    "ref_at dec e t = (ref_at dec e s)(n := (case x of Some (Some b) \<Rightarrow> (case dec b of Inr d \<Rightarrow> Some d | Inl _ \<Rightarrow> None) | _ \<Rightarrow> None))"
proof -
  have v: "view t = (view s)(ref_key e n := x)" "wf_fs t" using assms(3) by (auto simp: fs_st_def)
  show "store_inv sha enc dec e t"
    using assms(1,4) v unfolding store_inv_def by (simp del: view_simps)
  show "blob_at e t = blob_at e s"
    by (simp add: fun_eq_iff blob_at_def v del: view_simps split: option.split)
  show "ref_at dec e t = (ref_at dec e s)(n := (case x of Some (Some b) \<Rightarrow> (case dec b of Inr d \<Rightarrow> Some d | Inl _ \<Rightarrow> None) | _ \<Rightarrow> None))"
    using assms(2) by (simp add: fun_eq_iff ref_at_def v del: view_simps)
qed

lemma fs_st_self: "store_inv sha enc dec e s \<Longrightarrow> fs_st False (view s) s"
  by (simp add: store_inv_def fs_st_def)

lemma PutBlob_store:
  assumes inv: "store_inv sha enc dec e s"
  shows "PutBlob sha e rd s = (Inr (k, n), t) \<Longrightarrow>
      store_inv sha enc dec e t \<and> snd rd = None \<and> k = blob_digest sha (fst rd) \<and> n = length (fst rd) \<and>
      blob_at e t = (blob_at e s)(k \<mapsto> fst rd) \<and> ref_at dec e t = ref_at dec e s"
    and "PutBlob sha e rd s = (Inl x, t) \<Longrightarrow>
      store_inv sha enc dec e t \<and> blob_at e t = blob_at e s \<and> ref_at dec e t = ref_at dec e s"
proof -
  have e: "layout_ok e" and sha: "sha_ok sha" using inv by (auto simp: store_inv_def)
  note self = fs_st_self [OF inv]
  note put = PutBlob_triple [OF e sha, where c = False and V = "view s" and d = "fst rd" and err = "snd rd", simplified]
  {
    assume m: "PutBlob sha e rd s = (Inr (k, n), t)"
    have "snd rd = None \<and> k = blob_digest sha (fst rd) \<and> n = length (fst rd) \<and>
        fs_st False ((view s)(blob_key e (hex_encode (sha (fst rd))) \<mapsto> Some (fst rd))) t"
      using tripleD_Inr [OF put self m] by simp
    then show "store_inv sha enc dec e t \<and> snd rd = None \<and> k = blob_digest sha (fst rd) \<and> n = length (fst rd) \<and>
      blob_at e t = (blob_at e s)(k \<mapsto> fst rd) \<and> ref_at dec e t = ref_at dec e s"
      using store_put [OF inv name_ok_sha [OF sha]] unfolding blob_digest_def append_Cons append_Nil by blast
  next
    assume m: "PutBlob sha e rd s = (Inl x, t)"
    show "store_inv sha enc dec e t \<and> blob_at e t = blob_at e s \<and> ref_at dec e t = ref_at dec e s"
      using store_agree [OF inv] tripleD_Inl [OF put self m] by blast
  }
qed

text \<open>An operation whose every outcome leaves the view as it was.\<close>

lemma store_unchanged:
  assumes inv: "store_inv sha enc dec e s"
    and tr: "triple (fs_st False (view s)) m (\<lambda>x t. fs_st False (view s) t \<and> Q x) (\<lambda>y. fs_st False (view s))"
    and m: "m s = (r, t)"
  shows "store_inv sha enc dec e t \<and> blob_at e t = blob_at e s \<and> ref_at dec e t = ref_at dec e s"
    and "r = Inr x \<Longrightarrow> Q x"
proof -
  have "fs_st False (view s) t" "r = Inr x \<Longrightarrow> Q x" for x
    using m tripleD_Inl [OF tr fs_st_self [OF inv], of _ t] tripleD_Inr [OF tr fs_st_self [OF inv], of _ t]
    by (cases r; auto)+
  then show "store_inv sha enc dec e t \<and> blob_at e t = blob_at e s \<and> ref_at dec e t = ref_at dec e s"
    "r = Inr x \<Longrightarrow> Q x"
    using store_same [OF inv] by blast+
qed

lemma blob_at_bind:
  "name_ok h \<Longrightarrow> view s (blob_key e h) = Some (Some d) \<Longrightarrow> blob_at e s (digest_of h) = Some d"
  by (simp add: blob_at_digest del: view_simps)

lemma load_blob_store:
  assumes inv: "store_inv sha enc dec e s" and k: "blob_valid k" and m: "load_blob e k s = (r, t)"
  shows "store_inv sha enc dec e t \<and> blob_at e t = blob_at e s \<and> ref_at dec e t = ref_at dec e s"
    and "r = Inr d \<Longrightarrow> blob_at e s k = Some d"
proof -
  have e: "layout_ok e" using inv by (simp add: store_inv_def)
  obtain h where h: "k = digest_of h" "name_ok h" using k by (auto simp: blob_valid_iff)
  have "triple (fs_st False (view s)) (load_blob e k)
      (\<lambda>d t. fs_st False (view s) t \<and> view s (blob_key e h) = Some (Some d)) (\<lambda>y. fs_st False (view s))"
    unfolding h(1) by (rule triple_weaken [OF load_blob_triple [OF e h(2)]]) auto
  note res = store_unchanged [OF inv this m]
  show "store_inv sha enc dec e t \<and> blob_at e t = blob_at e s \<and> ref_at dec e t = ref_at dec e s"
    by (rule res)
  show "r = Inr d \<Longrightarrow> blob_at e s k = Some d" using res(2) h blob_at_bind by blast
qed

lemma Exist_store:
  assumes inv: "store_inv sha enc dec e s" and k: "blob_valid k" and m: "Exist e k s = (r, t)"
  shows "store_inv sha enc dec e t \<and> blob_at e t = blob_at e s \<and> ref_at dec e t = ref_at dec e s"
    and "r = Inr b \<Longrightarrow> b = (blob_at e s k \<noteq> None)"
proof -
  have e: "layout_ok e" using inv by (simp add: store_inv_def)
  obtain h where h: "k = digest_of h" "name_ok h" using k by (auto simp: blob_valid_iff)
  have "triple (fs_st False (view s)) (Exist e k)
      (\<lambda>b t. fs_st False (view s) t \<and> b = (view s (blob_key e h) \<noteq> None)) (\<lambda>y. fs_st False (view s))"
    unfolding h(1) by (rule triple_weaken [OF Exist_triple [OF e h(2)]]) (auto simp del: view_simps)
  note res = store_unchanged [OF inv this m]
  show "store_inv sha enc dec e t \<and> blob_at e t = blob_at e s \<and> ref_at dec e t = ref_at dec e s"
    by (rule res)
  have "view s (blob_key e h) \<noteq> Some None" using inv h(2) unfolding store_inv_def by blast
  then have "(view s (blob_key e h) \<noteq> None) = (blob_at e s k \<noteq> None)"
    unfolding h(1) blob_at_digest [OF h(2)]
    by (cases "view s (blob_key e h)"; cases "the (view s (blob_key e h))") (auto simp del: view_simps)
  then show "r = Inr b \<Longrightarrow> b = (blob_at e s k \<noteq> None)" using res(2) by blast
qed

lemma DeleteBlob_store:
  assumes inv: "store_inv sha enc dec e s" and k: "blob_valid k"
  shows "DeleteBlob e k s = (Inr u, t) \<Longrightarrow>
      store_inv sha enc dec e t \<and> blob_at e t = (blob_at e s)(k := None) \<and> ref_at dec e t = ref_at dec e s"
    and "DeleteBlob e k s = (Inl x, t) \<Longrightarrow>
      store_inv sha enc dec e t \<and> blob_at e t = blob_at e s \<and> ref_at dec e t = ref_at dec e s"
proof -
  have e: "layout_ok e" using inv by (simp add: store_inv_def)
  obtain h where h: "k = digest_of h" "name_ok h" using k by (auto simp: blob_valid_iff)
  note tr = DeleteBlob_triple [OF e h(2), where c = False and V = "view s", folded h(1)]
  show "DeleteBlob e k s = (Inr u, t) \<Longrightarrow>
      store_inv sha enc dec e t \<and> blob_at e t = (blob_at e s)(k := None) \<and> ref_at dec e t = ref_at dec e s"
    unfolding h(1) using store_del [OF inv h(2)] tripleD_Inr [OF tr fs_st_self [OF inv]] h(1) by blast
  show "DeleteBlob e k s = (Inl x, t) \<Longrightarrow>
      store_inv sha enc dec e t \<and> blob_at e t = blob_at e s \<and> ref_at dec e t = ref_at dec e s"
    using store_same [OF inv] tripleD_Inl [OF tr fs_st_self [OF inv]] by blast
qed

lemma ref_at_stored:
  "name_ok n \<Longrightarrow> ref_stored dec e (view s) n d \<Longrightarrow> ref_at dec e s n = Some d"
  by (auto simp: ref_stored_def ref_at_def simp del: view_simps)

lemma PutReference_store:
  assumes inv: "store_inv sha enc dec e s" and n: "name_ok n"
  shows "PutReference enc dec e n v s = (Inr u, t) \<Longrightarrow>
      store_inv sha enc dec e t \<and> blob_at e t = blob_at e s \<and> ref_at dec e t = (ref_at dec e s)(n \<mapsto> v) \<and>
      (ref_at dec e s n = None \<or> ref_at dec e s n = Some v)"
    and "PutReference enc dec e n v s = (Inl x, t) \<Longrightarrow>
      store_inv sha enc dec e t \<and> blob_at e t = blob_at e s \<and> ref_at dec e t = ref_at dec e s"
proof -
  have e: "layout_ok e" and dec: "dec_ok dec" and rt: "dec (enc v) = Inr v"
    using inv by (auto simp: store_inv_def codec_ok_def)
  note tr = PutReference_triple [OF e n dec, where c = False and V = "view s" and d = v and enc = enc, simplified]
  {
    assume m: "PutReference enc dec e n v s = (Inr u, t)"
    consider (old) "ref_stored dec e (view s) n v" "fs_st False (view s) t"
      | (new) "view s (ref_key e n) = None" "fs_st False ((view s)(ref_key e n \<mapsto> Some (enc v))) t"
      using tripleD_Inr [OF tr fs_st_self [OF inv] m] by auto
    then show "store_inv sha enc dec e t \<and> blob_at e t = blob_at e s \<and> ref_at dec e t = (ref_at dec e s)(n \<mapsto> v) \<and>
      (ref_at dec e s n = None \<or> ref_at dec e s n = Some v)"
    proof cases
      case old
      then have "ref_at dec e s n = Some v" using ref_at_stored [OF n] by blast
      then show ?thesis using store_same [OF inv old(2)] by (simp add: fun_upd_idem)
    next
      case new
      then have "ref_at dec e s n = None" by (simp add: ref_at_def del: view_simps)
      then show ?thesis using store_ref_upd [OF inv n new(2)] by (simp add: rt)
    qed
  next
    assume m: "PutReference enc dec e n v s = (Inl x, t)"
    show "store_inv sha enc dec e t \<and> blob_at e t = blob_at e s \<and> ref_at dec e t = ref_at dec e s"
      using store_agree [OF inv] tripleD_Inl [OF tr fs_st_self [OF inv] m] by blast
  }
qed

lemma GetReference_store:
  assumes inv: "store_inv sha enc dec e s" and n: "name_ok n" and m: "GetReference dec e n s = (r, t)"
  shows "store_inv sha enc dec e t \<and> blob_at e t = blob_at e s \<and> ref_at dec e t = ref_at dec e s"
    and "r = Inr v \<Longrightarrow> ref_at dec e s n = Some v"
proof -
  have e: "layout_ok e" and dec: "\<And>b x. dec b = Inl x \<Longrightarrow> \<not> is_panic x \<and> \<not> os_IsNotExist x"
    using inv by (auto simp: store_inv_def codec_ok_def dec_ok_def)
  have "triple (fs_st False (view s)) (GetReference dec e n)
      (\<lambda>v t. fs_st False (view s) t \<and> ref_stored dec e (view s) n v) (\<lambda>y. fs_st False (view s))"
    by (rule triple_weaken [OF GetReference_triple [OF e n dec]]) (auto simp: ref_stored_def simp del: view_simps)
  note res = store_unchanged [OF inv this m]
  show "store_inv sha enc dec e t \<and> blob_at e t = blob_at e s \<and> ref_at dec e t = ref_at dec e s"
    by (rule res)
  show "r = Inr v \<Longrightarrow> ref_at dec e s n = Some v" using res(2) ref_at_stored [OF n] by blast
qed

lemma DeleteReference_store:
  assumes inv: "store_inv sha enc dec e s" and n: "name_ok n" and m: "DeleteReference e n s = (Inr u, t)"
  shows "store_inv sha enc dec e t \<and> blob_at e t = blob_at e s \<and> ref_at dec e t = (ref_at dec e s)(n := None)"
proof -
  have e: "layout_ok e" using inv by (simp add: store_inv_def)
  note tr = DeleteReference_triple [OF e n, where c = False and V = "view s"]
  show ?thesis
    using store_ref_upd [OF inv n tripleD_Inr [OF tr fs_st_self [OF inv] m]] by simp
qed

interpretation image: image_store "store_inv sha enc dec e" blob_valid "blob_at e" "blob_digest sha"
    "PutBlob sha e" "load_blob e" "Exist e" "DeleteBlob e"
    name_ok "ref_at dec e" "PutReference enc dec e" "GetReference dec e" "DeleteReference e"
  for sha enc dec e
proof unfold_locales
  fix s :: "'a fs_scheme" and d :: bytes
  assume "store_inv sha enc dec e s"
  then have "name_ok (hex_encode (sha d))" by (auto simp: store_inv_def intro: name_ok_sha)
  then show "blob_valid (blob_digest sha d)" by (auto simp: blob_valid_iff blob_digest_def)
next
  fix s t :: "'a fs_scheme" and k rd r
  assume inv: "store_inv sha enc dec e s" and "PutBlob sha e rd s = (r, t)"
  then show "ref_at dec e t = ref_at dec e s"
    by (cases r) (auto dest: PutBlob_store)
next
  fix s t :: "'a fs_scheme" and k q
  assume inv: "store_inv sha enc dec e s" and "blob_valid k" "DeleteBlob e k s = (q, t)"
  then show "ref_at dec e t = ref_at dec e s"
    by (cases q) (auto dest: DeleteBlob_store)
qed (blast dest: PutBlob_store load_blob_store Exist_store DeleteBlob_store PutReference_store
    GetReference_store DeleteReference_store)+

end
