(* ===== verification/Oci_Properties.thy ===== *)
theory Oci_Properties
  imports Oci_Layout
begin

text \<open>
  What the OCI image directory promises, stated over concrete calls of the directory engine,
  with a small image on which every statement is instantiated.
\<close>

section \<open>A small image\<close>

definition demo_image :: dirLayout where
  "demo_image = \<lparr>l_path = ''img'', l_temp = ''img/tmp-0''\<rparr>"

definition demo_fs :: fs where
  "demo_fs = \<lparr>tree = [([''img''], Dir), ([''img'', ''blobs''], Dir), ([''img'', ''blobs'', ''sha256''], Dir),
      ([''img'', ''refs''], Dir), ([''img'', ''tmp-0''], Dir), ([''img'', ''oci-layout''], File 0),
      ([''img'', ''refs'', ''v1''], File 1)],
    inodes = (\<lambda>i. if i = 0 then layout_json else if i = 1 then ''0'' else []), next_ino = 2, faults = [],
    rnd = (\<lambda>n. replicate n CHR ''0'')\<rparr>"

text \<open>A file system with nothing in it.\<close>

definition blank_fs :: fs where
  "blank_fs = \<lparr>tree = [], inodes = (\<lambda>_. []), next_ino = 0, faults = [], rnd = (\<lambda>n. replicate n CHR ''0'')\<rparr>"

definition demo_sha :: "bytes \<Rightarrow> bytes" where
  "demo_sha d = take 32 (d @ replicate 32 CHR ''x'')"

text \<open>Length-prefixed fields, as a codec with the round trip the code expects of its own.\<close>

definition put_field :: "string \<Rightarrow> bytes" where
  "put_field x = replicate (length x) CHR ''1'' @ CHR ''0'' # x"

definition get_field :: "bytes \<Rightarrow> string \<times> bytes" where
  "get_field b =
     (let n = length (takeWhile (\<lambda>c. c = CHR ''1'') b) in (take n (drop (Suc n) b), drop (2 * n + 1) b))"

definition demo_enc :: "Descriptor \<Rightarrow> bytes" where
  "demo_enc d = put_field (desc_MediaType d) @ put_field (desc_Digest d) @
     (if desc_Size d < 0 then CHR ''-'' # replicate (nat (- desc_Size d)) CHR ''1''
      else replicate (nat (desc_Size d)) CHR ''1'')"

definition demo_dec :: "bytes \<Rightarrow> Descriptor result" where
  "demo_dec b =
     (if b = [] then Inl (Msg ''unexpected end of JSON input'')
      else
        let (m, b1) = get_field b; (g, b2) = get_field b1 in
        Inr \<lparr>desc_MediaType = m, desc_Digest = g,
             desc_Size = (if b2 \<noteq> [] \<and> hd b2 = CHR ''-'' then - int (length b2 - 1) else int (length b2))\<rparr>)"

definition demo_desc :: Descriptor where
  "demo_desc = \<lparr>desc_MediaType = ''m'', desc_Digest = ''d'', desc_Size = 2\<rparr>"

lemma get_put_field: "get_field (put_field x @ y) = (x, y)"
proof -
  have "takeWhile (\<lambda>c. c = CHR ''1'') (replicate n CHR ''1'' @ CHR ''0'' # z) = replicate n CHR ''1''" for n z
    by (induction n) auto
  then show ?thesis by (simp add: get_field_def put_field_def)
qed

lemma demo_codec: "codec_ok demo_enc demo_dec"
  unfolding codec_ok_def dec_ok_def
proof (intro conjI allI impI)
  fix b x assume "demo_dec b = Inl x"
  then show "\<not> is_panic x" "\<not> os_IsNotExist x"
    by (auto simp: demo_dec_def split: if_splits prod.splits)
next
  fix d :: Descriptor
  have "put_field x @ y \<noteq> []" for x y by (simp add: put_field_def)
  then show "demo_dec (demo_enc d) = Inr d"
    by (cases d; cases "nat (desc_Size d)") (auto simp: demo_dec_def demo_enc_def get_put_field)
qed

lemma demo_sha_ok: "sha_ok demo_sha"
  by (auto simp: sha_ok_def demo_sha_def min_def)

lemma demo_comps [simp]:
  "comps (l_path demo_image) = [''img'']" "comps (l_temp demo_image) = [''img'', ''tmp-0'']"
  by (simp_all add: demo_image_def comps_def)

lemma demo_layout: "layout_ok demo_image"
  unfolding layout_ok_def by (simp add: demo_image_def Clean_def comps_def)

lemma demo_wf: "wf_fs demo_fs"
  unfolding wf_fs_def
  by (auto simp: demo_fs_def is_path_def node_at_def split: if_splits)

lemma blank_wf: "wf_fs blank_fs"
  unfolding wf_fs_def by (auto simp: blank_fs_def node_at_def split: if_splits)

lemma demo_nodes:
  "node_at demo_fs [''img''] = Some Dir" "node_at demo_fs [''img'', ''blobs'', ''sha256''] = Some Dir"
  "node_at demo_fs [''img'', ''refs''] = Some Dir" "node_at demo_fs [''img'', ''tmp-0''] = Some Dir"
  "node_at demo_fs [''img'', ''oci-layout''] = Some (File 0)"
  "node_at demo_fs [''img'', ''blobs'', ''sha256'', h] = None"
  "node_at demo_fs [''img'', ''tmp-0'', h] = None"
  "node_at demo_fs [''img'', ''refs'', n] = (if n = ''v1'' then Some (File 1) else None)"
  by (simp_all add: node_at_def demo_fs_def)

lemma demo_dirs: "layout_dirs demo_image (view demo_fs)"
  by (simp add: layout_dirs_def demo_nodes blobDirectory_def BlobAlgorithm_def refDirectory_def)

lemma demo_keys:
  "blob_key demo_image h = [''img'', ''blobs'', ''sha256'', h]" "ref_key demo_image n = [''img'', ''refs'', n]"
  by (simp_all add: blob_key_def ref_key_def blobDirectory_def BlobAlgorithm_def refDirectory_def)

lemma demo_temp_free: "temp_free demo_image pre (view demo_fs) demo_fs"
  by (auto simp: temp_free_def demo_nodes intro: exI [of _ 0])

lemma demo_inv: "store_inv demo_sha demo_enc demo_dec demo_image demo_fs"
  by (simp add: store_inv_def demo_layout demo_sha_ok demo_codec demo_wf demo_keys demo_nodes)

lemma demo_faults: "faults demo_fs = []" "faults blank_fs = []"
  by (simp_all add: demo_fs_def blank_fs_def)

lemma demo_st: "fs_st True (view demo_fs) demo_fs"
  by (simp add: fs_st_def demo_wf demo_faults)

section \<open>Blobs\<close>

lemma put_total:
  assumes "layout_ok e" "sha_ok sha" "wf_fs s" "faults s = []" "layout_dirs e (view s)"
    "temp_free e ''blob-'' (view s) s" "node_at s (blob_key e (hex_encode (sha d))) \<noteq> Some Dir"
  obtains t where "PutBlob sha e (d, None) s = (Inr (blob_digest sha d, length d), t)"
    "fs_st True ((view s)(blob_key e (hex_encode (sha d)) \<mapsto> Some d)) t"
proof (cases "PutBlob sha e (d, None) s")
  case (Pair r t)
  have "fs_st True (view s) s" using assms by (simp add: fs_st_def)
  then show ?thesis
    using PutBlob_triple [OF assms(1,2), where c = True and V = "view s" and d = d and err = None] Pair assms that
    by (cases r) (auto simp: triple_def split: prod.splits)
qed

text \<open>C4. What \<open>PutBlob\<close> stored is what \<open>GetBlob\<close> reads back under the digest it returned, on every
  schedule of faults; with no fault pending the read succeeds.\<close>

theorem put_then_get:
  assumes "layout_ok e" "sha_ok sha" "wf_fs s" "PutBlob sha e rd s = (Inr (k, n), t)"
    and "load_blob e k t = (r, u)"
  shows "k = blob_digest sha (fst rd) \<and> n = length (fst rd) \<and> snd rd = None \<and>
    (faults t = [] \<longrightarrow> r = Inr (fst rd)) \<and> (\<forall>d. r = Inr d \<longrightarrow> d = fst rd)"
proof -
  let ?h = "hex_encode (sha (fst rd))" let ?V = "(view s)(blob_key e ?h \<mapsto> Some (fst rd))"
  have "fs_st False (view s) s" using assms by (simp add: fs_st_def)
  from tripleD_Inr [OF PutBlob_triple [OF assms(1,2), where c = False and V = "view s" and d = "fst rd" and err = "snd rd", simplified] this assms(4)]
  have put: "k = blob_digest sha (fst rd)" "n = length (fst rd)" "snd rd = None" "fs_st False ?V t"
    by auto
  have tr: "triple (fs_st c ?V) (load_blob e k) (\<lambda>d s. d = fst rd) (\<lambda>x s. \<not> c)" for c
    unfolding put(1) blob_digest_def append_Cons append_Nil
    by (rule triple_weaken [OF load_blob_triple [OF assms(1) name_ok_sha [OF assms(2)]]]) auto
  have ok: "d = fst rd" if "r = Inr d" for d
    using tripleD_Inr [OF tr put(4)] assms(5) that by simp
  moreover have "\<exists>d. r = Inr d" if "faults t = []"
  proof -
    have "fs_st True ?V t" using put(4) that by (simp add: fs_st_def)
    then show ?thesis using tripleD_Inl [OF tr [of True]] assms(5) by (cases r) auto
  qed
  ultimately show ?thesis using put by auto
qed

theorem put_then_get_witness:
  "\<exists>k n t r u. PutBlob demo_sha demo_image (''abc'', None) demo_fs = (Inr (k, n), t) \<and>
     load_blob demo_image k t = (r, u) \<and> n = 3 \<and> r = Inr ''abc''"
proof -
  obtain t where t: "PutBlob demo_sha demo_image (''abc'', None) demo_fs = (Inr (blob_digest demo_sha ''abc'', length ''abc''), t)"
    and st: "fs_st True ((view demo_fs)(blob_key demo_image (hex_encode (demo_sha ''abc'')) \<mapsto> Some ''abc'')) t"
    by (rule put_total [OF demo_layout demo_sha_ok demo_wf demo_faults(1) demo_dirs demo_temp_free, where d = "''abc''"])
      (simp add: demo_keys demo_nodes)
  obtain r u where l: "load_blob demo_image (blob_digest demo_sha ''abc'') t = (r, u)" by fastforce
  note got = put_then_get [OF demo_layout demo_sha_ok demo_wf t l]
  have "faults t = []" using st by (simp add: fs_st_def)
  with got [THEN conjunct2, THEN conjunct2, THEN conjunct2, THEN conjunct1]
  have r: "r = Inr ''abc''" unfolding fst_conv by (rule mp)
  have "length ''abc'' = 3" by simp
  then show ?thesis using t l r by metis
qed

text \<open>C8. \<open>PutBlob\<close> is atomic: after a success exactly the blob of the content's digest has
  changed, after a failure nothing outside the layout's temporary directory has, whatever the
  faults and wherever the reader breaks off.\<close>

theorem put_atomic:
  assumes "layout_ok e" "sha_ok sha" "wf_fs s" "PutBlob sha e rd s = (r, t)"
  shows "case r of
      Inr _ \<Rightarrow> view t = (view s)(blob_key e (hex_encode (sha (fst rd))) \<mapsto> Some (fst rd))
    | Inl _ \<Rightarrow> \<forall>ps. \<not> prefix (comps (l_temp e)) ps \<longrightarrow> view t ps = view s ps"
proof -
  have self: "fs_st False (view s) s" using assms by (simp add: fs_st_def)
  note tr = PutBlob_triple [OF assms(1,2), where c = False and V = "view s" and d = "fst rd" and err = "snd rd", simplified]
  show ?thesis
    using tripleD_Inr [OF tr self] tripleD_Inl [OF tr self] assms(4)
    by (cases r) (auto simp: fs_st_def agree_def simp del: view_simps)
qed

theorem put_atomic_witness:
  "\<exists>x t. PutBlob demo_sha demo_image (''abc'', Some (Msg ''broken pipe'')) demo_fs = (Inl x, t) \<and>
     view t [''img'', ''refs'', ''v1''] = Some (Some ''0'')"
proof -
  let ?rd = "(''abc'', Some (Msg ''broken pipe''))"
  obtain r t where m: "PutBlob demo_sha demo_image ?rd demo_fs = (r, t)" by fastforce
  have "\<not> prefix (comps (l_temp demo_image)) [''img'', ''refs'', ''v1'']" by simp
  moreover obtain x where x: "r = Inl x"
    using tripleD_Inr [OF PutBlob_triple [OF demo_layout demo_sha_ok, where c = False and V = "view demo_fs" and d = "fst ?rd" and err = "snd ?rd", simplified]
        fs_st_self [OF demo_inv]] m
    by (cases r) auto
  ultimately have "view t [''img'', ''refs'', ''v1''] = view demo_fs [''img'', ''refs'', ''v1'']"
    using put_atomic [OF demo_layout demo_sha_ok demo_wf m] by simp
  moreover have "view demo_fs [''img'', ''refs'', ''v1''] = Some (Some ''0'')"
    by (simp add: demo_nodes) (simp add: demo_fs_def)
  ultimately show ?thesis using m x by metis
qed

text \<open>C30. Without faults, with the image's directories in place and a temporary name left,
  \<open>PutBlob\<close> of any content succeeds.\<close>

theorem put_succeeds:
  assumes "layout_ok e" "sha_ok sha" "wf_fs s" "faults s = []" "layout_dirs e (view s)"
    "temp_free e ''blob-'' (view s) s" "node_at s (blob_key e (hex_encode (sha d))) \<noteq> Some Dir"
  shows "\<exists>t. PutBlob sha e (d, None) s = (Inr (blob_digest sha d, length d), t)"
  by (rule put_total [OF assms]) blast

theorem put_succeeds_witness:
  "\<exists>t. PutBlob demo_sha demo_image (''abc'', None) demo_fs = (Inr (blob_digest demo_sha ''abc'', 3), t)"
  using put_succeeds [OF demo_layout demo_sha_ok demo_wf demo_faults(1) demo_dirs demo_temp_free, of "''abc''"]
  by (simp add: demo_keys demo_nodes numeral_3_eq_3)

section \<open>Sessions\<close>

text \<open>One call on an open image, its answer dropped.\<close>

datatype layout_op =
    PutBlobOp reader | GetBlobOp string | ExistOp string | DeleteBlobOp string
  | PutReferenceOp string Descriptor | GetReferenceOp string | DeleteReferenceOp string

fun run_op ::
  "(bytes \<Rightarrow> bytes) \<Rightarrow> (Descriptor \<Rightarrow> bytes) \<Rightarrow> (bytes \<Rightarrow> Descriptor result) \<Rightarrow> dirLayout \<Rightarrow>
   layout_op \<Rightarrow> 'z fs_scheme \<Rightarrow> 'z fs_scheme"
where
  "run_op sha enc dec e (PutBlobOp rd) s = snd (PutBlob sha e rd s)"
| "run_op sha enc dec e (GetBlobOp k) s = snd (load_blob e k s)"
| "run_op sha enc dec e (ExistOp k) s = snd (Exist e k s)"
| "run_op sha enc dec e (DeleteBlobOp k) s = snd (DeleteBlob e k s)"
| "run_op sha enc dec e (PutReferenceOp n d) s = snd (PutReference enc dec e n d s)"
| "run_op sha enc dec e (GetReferenceOp n) s = snd (GetReference dec e n s)"
| "run_op sha enc dec e (DeleteReferenceOp n) s = snd (DeleteReference e n s)"

fun op_valid :: "layout_op \<Rightarrow> bool" where
  "op_valid (PutBlobOp rd) = True"
| "op_valid (GetBlobOp k) = blob_valid k"
| "op_valid (ExistOp k) = blob_valid k"
| "op_valid (DeleteBlobOp k) = blob_valid k"
| "op_valid (PutReferenceOp n d) = name_ok n"
| "op_valid (GetReferenceOp n) = name_ok n"
| "op_valid (DeleteReferenceOp n) = name_ok n"

text \<open>Every blob of the image has the digest of its content as its name.\<close>

definition content_addressed :: "(bytes \<Rightarrow> bytes) \<Rightarrow> dirLayout \<Rightarrow> 'z fs_scheme \<Rightarrow> bool" where
  "content_addressed sha e s \<longleftrightarrow>
     (\<forall>h d. name_ok h \<longrightarrow> view s (blob_key e h) = Some (Some d) \<longrightarrow> h = hex_encode (sha d))"

lemma sound_content_addressed:
  "image.sound sha enc dec e s \<longleftrightarrow> store_inv sha enc dec e s \<and> content_addressed sha e s"
proof (cases "store_inv sha enc dec e s")
  case True
  have "(\<forall>k d. blob_at e s k = Some d \<longrightarrow> k = blob_digest sha d) \<longleftrightarrow> content_addressed sha e s"
    unfolding content_addressed_def
  proof (intro iffI allI impI)
    fix h d
    assume "\<forall>k d. blob_at e s k = Some d \<longrightarrow> k = blob_digest sha d"
      and "name_ok h" "view s (blob_key e h) = Some (Some d)"
    then have "digest_of h = blob_digest sha d" using blob_at_bind by blast
    then show "h = hex_encode (sha d)" by (simp add: blob_digest_def)
  next
    fix k d
    assume all: "\<forall>h d. name_ok h \<longrightarrow> view s (blob_key e h) = Some (Some d) \<longrightarrow> h = hex_encode (sha d)"
      and k: "blob_at e s k = Some d"
    then have "blob_valid k" using blob_at_invalid [of k e s] by (cases "blob_valid k") simp_all
    then obtain h where h: "k = digest_of h" "name_ok h" by (auto simp: blob_valid_iff)
    then have "view s (blob_key e h) = Some (Some d)"
      using k by (simp add: blob_at_digest bind_eq_Some_conv del: view_simps)
    then show "k = blob_digest sha d" using all h by (simp add: blob_digest_def del: view_simps)
  qed
  then show ?thesis using True by (simp add: image.sound_def)
qed (simp add: image.sound_def)

lemma run_op_sound:
  assumes "image.sound sha enc dec e s" "op_valid p"
  shows "image.sound sha enc dec e (run_op sha enc dec e p s)"
proof (cases p)
  case (PutReferenceOp n d)
  then show ?thesis using assms image.put_ref_sound by auto
next
  case (GetReferenceOp n)
  then have "name_ok n" using assms by simp
  moreover obtain r t where "GetReference dec e n s = (r, t)" by fastforce
  ultimately show ?thesis
    using assms(1) GetReference_store(1) GetReferenceOp by (fastforce simp: image.sound_def)
next
  case (DeleteReferenceOp n)
  then have n: "name_ok n" using assms by simp
  obtain r t where m: "DeleteReference e n s = (r, t)" by fastforce
  have inv: "store_inv sha enc dec e s" using assms(1) by (simp add: image.sound_def)
  then have e: "layout_ok e" by (simp add: store_inv_def)
  note tr = DeleteReference_triple [OF e n, where c = False and V = "view s"]
  have "store_inv sha enc dec e t \<and> blob_at e t = blob_at e s"
  proof (cases r)
    case (Inl x)
    then show ?thesis using store_same [OF inv] tripleD_Inl [OF tr fs_st_self [OF inv]] m by blast
  next
    case (Inr u)
    then show ?thesis using DeleteReference_store [OF inv n] m by blast
  qed
  then show ?thesis using assms(1) m DeleteReferenceOp by (simp add: image.sound_def)
qed (use assms image.put_sound image.load_sound image.has_sound image.del_sound in auto)

text \<open>C5. Content addressing survives any session: whatever sequence of valid calls is made on an
  open image, under any schedule of faults and with readers that break off anywhere, every blob
  in it still hashes to its name.\<close>

theorem sessions_content_addressed:
  assumes "store_inv sha enc dec e s" "content_addressed sha e s" "list_all op_valid ps"
  shows "content_addressed sha e (fold (run_op sha enc dec e) ps s)"
proof -
  have "image.sound sha enc dec e (fold (run_op sha enc dec e) ps s)"
    if "image.sound sha enc dec e s" "list_all op_valid ps" for s :: "'a fs_scheme"
    using that by (induction ps arbitrary: s) (auto intro: run_op_sound)
  then show ?thesis using assms by (simp add: sound_content_addressed)
qed

theorem sessions_content_addressed_witness:
  "content_addressed demo_sha demo_image
     (fold (run_op demo_sha demo_enc demo_dec demo_image)
        [PutBlobOp (''abc'', None), PutBlobOp (''ab'', Some (Msg ''cut'')), DeleteBlobOp ''sha256:00'',
         PutReferenceOp ''v1'' demo_desc, ExistOp ''sha256:11''] demo_fs)"
  by (rule sessions_content_addressed [OF demo_inv])
    (auto simp: content_addressed_def demo_keys demo_nodes name_ok_def blob_valid_iff BlobAlgorithm_def)

section \<open>Existence, deletion\<close>

text \<open>\<open>Exist\<close> answers whether the blob is there, and, no fault pending, it always answers.\<close>

theorem exist_iff:
  assumes "layout_ok e" "name_ok h" "wf_fs s" "Exist e (digest_of h) s = (r, t)"
  shows "(\<forall>b. r = Inr b \<longrightarrow> b = (node_at s (blob_key e h) \<noteq> None)) \<and> view t = view s \<and>
    (faults s = [] \<and> layout_dirs e (view s) \<longrightarrow> (\<exists>b. r = Inr b))"
proof -
  have tr: "triple (fs_st c (view s)) (Exist e (digest_of h))
      (\<lambda>b t. view t = view s \<and> (b \<longleftrightarrow> node_at s (blob_key e h) \<noteq> None))
      (\<lambda>x t. view t = view s \<and> \<not> (c \<and> layout_dirs e (view s)))" for c
    by (rule triple_weaken [OF Exist_triple [OF assms(1,2)]])
      (auto simp: fs_st_def simp del: not_None_eq)
  have "fs_st (faults s = []) (view s) s" using assms(3) by (simp add: fs_st_def)
  from tripleD_Inr [OF tr this] tripleD_Inl [OF tr this] assms(4) show ?thesis
    by (cases r) auto
qed

theorem exist_iff_witness:
  "\<exists>t. Exist demo_image (digest_of ''00'') demo_fs = (Inr False, t) \<and> view t = view demo_fs"
proof -
  have n: "name_ok ''00''" by (simp add: name_ok_def)
  obtain r t where m: "Exist demo_image (digest_of ''00'') demo_fs = (r, t)" by fastforce
  show ?thesis
    using exist_iff [OF demo_layout n demo_wf m] m demo_dirs
    by (auto simp: demo_keys demo_nodes demo_faults)
qed

text \<open>A \<open>DeleteBlob\<close> that returns has removed that blob and nothing else, deleting a blob that
  is not there succeeds, and a delete that fails has changed nothing.\<close>

theorem delete_blob_effect:
  assumes "layout_ok e" "name_ok h" "wf_fs s" "DeleteBlob e (digest_of h) s = (r, t)"
  shows "(case r of Inr _ \<Rightarrow> view t = (view s)(blob_key e h := None) | Inl _ \<Rightarrow> view t = view s) \<and>
    (faults s = [] \<and> layout_dirs e (view s) \<and> node_at s (blob_key e h) \<noteq> Some Dir \<longrightarrow> r = Inr ())"
proof -
  have tr: "triple (fs_st c (view s)) (DeleteBlob e (digest_of h))
      (\<lambda>b t. view t = (view s)(blob_key e h := None))
      (\<lambda>x t. view t = view s \<and> \<not> (c \<and> layout_dirs e (view s) \<and> node_at s (blob_key e h) \<noteq> Some Dir))" for c
    by (rule triple_weaken [OF DeleteBlob_triple [OF assms(1,2)]]) (auto simp: fs_st_def)
  have "fs_st (faults s = []) (view s) s" using assms(3) by (simp add: fs_st_def)
  from tripleD_Inr [OF tr this] tripleD_Inl [OF tr this] assms(4) show ?thesis
    by (cases r) auto
qed

theorem delete_blob_effect_witness:
  "\<exists>t. DeleteBlob demo_image (digest_of ''00'') demo_fs = (Inr (), t) \<and>
     view t = (view demo_fs)([''img'', ''blobs'', ''sha256'', ''00''] := None)"
proof -
  have n: "name_ok ''00''" by (simp add: name_ok_def)
  obtain r t where m: "DeleteBlob demo_image (digest_of ''00'') demo_fs = (r, t)" by fastforce
  have "r = Inr ()" using delete_blob_effect [OF demo_layout n demo_wf m] demo_dirs
    by (simp add: demo_keys demo_nodes demo_faults)
  then show ?thesis using delete_blob_effect [OF demo_layout n demo_wf m] m by (simp add: demo_keys)
qed

section \<open>References\<close>

lemma PutBlob_keeps:
  assumes "store_inv sha enc dec e s" "PutBlob sha e rd s = (r, t)"
  shows "store_inv sha enc dec e t" "ref_at dec e t = ref_at dec e s"
proof -
  have "store_inv sha enc dec e t \<and> ref_at dec e t = ref_at dec e s"
  proof (cases r)
    case (Inl x)
    then show ?thesis using PutBlob_store(2) [OF assms(1), of rd x t] assms(2) by simp
  next
    case (Inr kn)
    then show ?thesis
      using PutBlob_store(1) [OF assms(1), of rd "fst kn" "snd kn" t] assms(2) by simp
  qed
  then show "store_inv sha enc dec e t" "ref_at dec e t = ref_at dec e s" by auto
qed

text \<open>C16. A reference once put is read back as it was put, also after any blob has been put and
  after other references have been tried, whatever fails.\<close>

theorem reference_roundtrip:
  assumes "store_inv sha enc dec e s" "name_ok n" "name_ok m"
    and "PutReference enc dec e n d s = (Inr (), s1)"
    and "PutBlob sha e rd s1 = (r2, s2)"
    and "PutReference enc dec e m d' s2 = (r3, s3)"
    and "GetReference dec e n s3 = (Inr g, s4)"
  shows "g = d"
proof -
  have 1: "store_inv sha enc dec e s1" "ref_at dec e s1 n = Some d"
    using PutReference_store(1) [OF assms(1,2,4)] by auto
  have 2: "store_inv sha enc dec e s2" "ref_at dec e s2 n = Some d"
    using PutBlob_keeps [OF 1(1) assms(5)] 1(2) by simp_all
  have 3: "store_inv sha enc dec e s3"
    using PutReference_store [OF 2(1) assms(3)] assms(6) by (cases r3) auto
  have "ref_at dec e s3 n = Some d"
    by (rule image.ref_stable [OF 2(1) assms(2,3) 2(2) assms(6)])
  then show ?thesis using GetReference_store(2) [OF 3 assms(2,7)] by simp
qed

lemma put_reference_total:
  assumes "store_inv sha enc dec e s" "name_ok n" "faults s = []" "layout_dirs e (view s)"
    "temp_free e (''ref.'' @ n @ ''-'') (view s) s" "node_at s (ref_key e n) = None"
  obtains t where "PutReference enc dec e n d s = (Inr (), t)"
    "fs_st True ((view s)(ref_key e n \<mapsto> Some (enc d))) t"
proof (cases "PutReference enc dec e n d s")
  case (Pair r t)
  have e: "layout_ok e" and dec: "dec_ok dec" and wf: "wf_fs s"
    using assms by (auto simp: store_inv_def codec_ok_def)
  have self: "fs_st True (view s) s" using wf assms by (simp add: fs_st_def)
  have no: "\<not> ref_stored dec e (view s) n d" "view s (ref_key e n) = None"
    using assms by (auto simp: ref_stored_def)
  note tr = PutReference_triple [OF e assms(2) dec, where c = True and V = "view s" and d = d and enc = enc]
  show ?thesis
  proof (cases r)
    case (Inl x)
    then show ?thesis using tripleD_Inl [OF tr _ Pair [unfolded Inl]] self assms no by simp
  next
    case (Inr u)
    then show ?thesis using tripleD_Inr [OF tr _ Pair [unfolded Inr]] self assms no that Pair by simp
  qed
qed

lemma put_reference_again:
  assumes "store_inv sha enc dec e s" "name_ok n" "faults s = []" "layout_dirs e (view s)"
    "temp_free e (''ref.'' @ n @ ''-'') (view s) s" "ref_stored dec e (view s) n d"
  obtains t where "PutReference enc dec e n d s = (Inr (), t)" "fs_st True (view s) t"
proof (cases "PutReference enc dec e n d s")
  case (Pair r t)
  have e: "layout_ok e" and dec: "dec_ok dec" and wf: "wf_fs s"
    using assms by (auto simp: store_inv_def codec_ok_def)
  have self: "fs_st True (view s) s" using wf assms by (simp add: fs_st_def)
  have some: "view s (ref_key e n) \<noteq> None" using assms(6) by (auto simp: ref_stored_def simp del: view_simps)
  note tr = PutReference_triple [OF e assms(2) dec, where c = True and V = "view s" and d = d and enc = enc]
  show ?thesis
  proof (cases r)
    case (Inl x)
    then show ?thesis using tripleD_Inl [OF tr _ Pair [unfolded Inl]] self assms by blast
  next
    case (Inr u)
    then show ?thesis using tripleD_Inr [OF tr _ Pair [unfolded Inr]] self assms some that Pair by auto
  qed
qed

lemma get_reference_total:
  assumes "store_inv sha enc dec e s" "name_ok n" "faults s = []" "layout_dirs e (view s)"
    "ref_stored dec e (view s) n d"
  obtains t where "GetReference dec e n s = (Inr d, t)"
proof (cases "GetReference dec e n s")
  case (Pair r t)
  have e: "layout_ok e" and np: "\<And>b x. dec b = Inl x \<Longrightarrow> \<not> is_panic x \<and> \<not> os_IsNotExist x" and wf: "wf_fs s"
    using assms by (auto simp: store_inv_def codec_ok_def dec_ok_def)
  have self: "fs_st True (view s) s" using wf assms by (simp add: fs_st_def)
  have get: "triple (fs_st True (view s)) (GetReference dec e n) (\<lambda>x _. x = d) (\<lambda>_ _. False)"
    by (rule triple_weaken [OF GetReference_triple [OF e assms(2) np]])
      (use assms(4,5) in \<open>auto simp: ref_stored_def simp del: view_simps\<close>)
  then show ?thesis
    using tripleD_Inl [OF get self] tripleD_Inr [OF get self] Pair that by (cases r) auto
qed

theorem reference_roundtrip_witness:
  "\<exists>s1 k s2 s3 s4. PutReference demo_enc demo_dec demo_image ''v2'' demo_desc demo_fs = (Inr (), s1) \<and>
     PutBlob demo_sha demo_image (''abc'', None) s1 = (Inr k, s2) \<and>
     PutReference demo_enc demo_dec demo_image ''v2'' demo_desc s2 = (Inr (), s3) \<and>
     GetReference demo_dec demo_image ''v2'' s3 = (Inr demo_desc, s4)"
proof -
  have n: "name_ok ''v2''" by (simp add: name_ok_def)
  let ?V1 = "(view demo_fs)(ref_key demo_image ''v2'' \<mapsto> Some (demo_enc demo_desc))"
  let ?h = "hex_encode (demo_sha ''abc'')"
  let ?V2 = "?V1(blob_key demo_image ?h \<mapsto> Some ''abc'')"
  have free: "temp_free demo_image pre ?V1 s" "temp_free demo_image pre ?V2 s" for pre and s :: fs
    by (auto simp: temp_free_def demo_keys demo_nodes intro: exI [of _ 0])
  have dirs: "layout_dirs demo_image ?V1" "layout_dirs demo_image ?V2"
    by (simp_all add: layout_dirs_def demo_nodes demo_keys blobDirectory_def BlobAlgorithm_def refDirectory_def)
  obtain s1 where 1: "PutReference demo_enc demo_dec demo_image ''v2'' demo_desc demo_fs = (Inr (), s1)"
    and st1: "fs_st True ?V1 s1"
    by (rule put_reference_total [OF demo_inv n demo_faults(1) demo_dirs demo_temp_free, where d = demo_desc])
      (auto simp: demo_keys demo_nodes)
  have f1: "faults s1 = []" "wf_fs s1" and v1: "view s1 = ?V1" using st1 by (auto simp: fs_st_def)
  have i1: "store_inv demo_sha demo_enc demo_dec demo_image s1"
    by (rule store_ref_upd(1) [OF demo_inv n st1]) simp
  have "view s1 (blob_key demo_image ?h) \<noteq> Some None" unfolding v1 by (simp add: demo_keys demo_nodes)
  then have b1: "node_at s1 (blob_key demo_image ?h) \<noteq> Some Dir" by simp
  obtain s2 where 2: "PutBlob demo_sha demo_image (''abc'', None) s1 = (Inr (blob_digest demo_sha ''abc'', length ''abc''), s2)"
    and st2: "fs_st True ?V2 s2"
    by (rule put_total [OF demo_layout demo_sha_ok f1(2,1) dirs(1) [folded v1] free(1) [folded v1] b1, unfolded v1])
  have f2: "faults s2 = []" and v2: "view s2 = ?V2" using st2 by (auto simp: fs_st_def)
  have i2: "store_inv demo_sha demo_enc demo_dec demo_image s2"
    using PutBlob_keeps(1) [OF i1 2] .
  have rt: "demo_dec (demo_enc demo_desc) = Inr demo_desc" using demo_codec by (simp add: codec_ok_def)
  have r2: "ref_stored demo_dec demo_image (view s2) ''v2'' demo_desc"
    unfolding v2 ref_stored_def by (simp add: demo_keys rt)
  obtain s3 where 3: "PutReference demo_enc demo_dec demo_image ''v2'' demo_desc s2 = (Inr (), s3)"
    and st3: "fs_st True (view s2) s3"
    by (rule put_reference_again [OF i2 n f2 dirs(2) [folded v2] free(2) [folded v2] r2])
  have f3: "faults s3 = []" and v3: "view s3 = view s2" using st3 by (auto simp: fs_st_def)
  have i3: "store_inv demo_sha demo_enc demo_dec demo_image s3"
    using PutReference_store(1) [OF i2 n 3] by simp
  obtain g s4 where 4: "GetReference demo_dec demo_image ''v2'' s3 = (Inr g, s4)"
    using get_reference_total [OF i3 n f3 dirs(2) [folded v2, folded v3] r2 [folded v3]] by blast
  have "g = demo_desc" by (rule reference_roundtrip [OF demo_inv n n 1 2 3 4])
  then show ?thesis using 1 2 3 4 by metis
qed

text \<open>C17. \<open>PutReference\<close> never replaces: where a descriptor is stored, putting the same one
  succeeds and leaves the view as it was, putting another gives \<open>ErrClobber\<close> and leaves blobs
  and references as they were.\<close>

theorem put_reference_clobber:
  assumes "layout_ok e" "name_ok n" "codec_ok enc dec" "wf_fs s" "faults s = []" "layout_dirs e (view s)"
    and "temp_free e (''ref.'' @ n @ ''-'') (view s) s" "ref_stored dec e (view s) n old"
    and "PutReference enc dec e n d s = (r, t)"
  shows "if d = old then r = Inr () \<and> view t = view s
    else r = Inl ErrClobber \<and> (\<forall>ps. \<not> prefix (comps (l_temp e)) ps \<longrightarrow> view t ps = view s ps)"
proof -
  have dec: "dec_ok dec" using assms by (simp add: codec_ok_def)
  have pre: "fs_st True (view s) s \<and> (True \<longrightarrow> layout_dirs e (view s) \<and> temp_free e (''ref.'' @ n @ ''-'') (view s) s)"
    using assms by (simp add: fs_st_def)
  have st: "ref_stored dec e (view s) n x \<longleftrightarrow> x = old" "view s (ref_key e n) \<noteq> None" for x
    using assms(8) by (auto simp: ref_stored_def simp del: view_simps)
  note tr = PutReference_triple [OF assms(1,2) dec, where c = True and V = "view s" and d = d and enc = enc]
  show ?thesis
  proof (cases r)
    case (Inl x)
    then show ?thesis
      using tripleD_Inl [OF tr pre assms(9) [unfolded Inl]] st by (auto simp: agree_def simp del: view_simps)
  next
    case (Inr u)
    then show ?thesis
      using tripleD_Inr [OF tr pre assms(9) [unfolded Inr]] st by (auto simp: fs_st_def simp del: view_simps)
  qed
qed

theorem put_reference_clobber_witness:
  "fst (PutReference demo_enc demo_dec demo_image ''v1'' demo_desc demo_fs) = Inl ErrClobber"
proof -
  have n: "name_ok ''v1''" by (simp add: name_ok_def)
  let ?old = "\<lparr>desc_MediaType = [], desc_Digest = [], desc_Size = 0\<rparr>"
  have "demo_dec ''0'' = Inr ?old" by (simp add: demo_dec_def get_field_def Let_def)
  moreover have "inodes demo_fs (Suc 0) = ''0''" by (simp add: demo_fs_def)
  ultimately have st: "ref_stored demo_dec demo_image (view demo_fs) ''v1'' ?old"
    by (auto simp: ref_stored_def demo_keys demo_nodes)
  obtain r t where m: "PutReference demo_enc demo_dec demo_image ''v1'' demo_desc demo_fs = (r, t)" by fastforce
  have "demo_desc \<noteq> ?old" by (simp add: demo_desc_def)
  then show ?thesis
    using put_reference_clobber [OF demo_layout n demo_codec demo_wf demo_faults(1) demo_dirs demo_temp_free st m] m
    by simp
qed

section \<open>Opening and closing\<close>

lemma blank_facts:
  "image_paths ''img''" "has_parent (view blank_fs) ''img''" "names_left ''img'' (view blank_fs) blank_fs"
  "node_at blank_fs (comps ''img'' @ xs) = None" "fs_st True (view blank_fs) blank_fs"
proof -
  show "image_paths ''img''" by (simp add: image_paths_def Clean_def)
  have "filepath_Dir ''img'' = ''.''" by (simp add: filepath_Dir_def Clean_def)
  moreover have "comps ''.'' = []" "comps ''img'' = [''img'']" by (simp_all add: comps_def)
  ultimately show "has_parent (view blank_fs) ''img''" "node_at blank_fs (comps ''img'' @ xs) = None"
    "names_left ''img'' (view blank_fs) blank_fs"
    by (auto simp: has_parent_def names_left_def blank_fs_def node_at_def intro: exI [of _ 0])
  show "fs_st True (view blank_fs) blank_fs" by (simp add: fs_st_def blank_wf demo_faults)
qed

text \<open>C31. Opening a path where nothing is, below a directory and with no fault pending, makes an
  image: the call succeeds, the layout it returns has all its directories, the layout file has
  the version line, and beyond these and the temporary directory nothing has been made.\<close>

theorem open_new_image:
  assumes "image_paths p" "has_parent (view s) p" "\<And>xs. node_at s (comps p @ xs) = None"
    and "wf_fs s" "faults s = []" "names_left p (view s) s"
  shows "\<exists>e t. Open p s = (Inr e, t) \<and> l_path e = p \<and> layout_ok e \<and> layout_dirs e (view t) \<and>
    wf_fs t \<and> view t = (fresh_image (view s) p)(comps (l_temp e) \<mapsto> None)"
proof -
  let ?V = "view s" and ?e = "\<lparr>l_path = p, l_temp = []\<rparr>"
  have no: "?V (comps p @ xs) = None" for xs using assms(3) by simp
  have ini: "triple (fs_st True ?V) (initialize ?e) (\<lambda>_. fs_st True (fresh_image ?V p)) (\<lambda>_ _. False)"
    using initialize_fresh [of ?e ?V] assms no by (simp del: view_simps)
  have W: "fresh_image ?V p (comps p) = Some None"
    "fresh_image ?V p (comps p @ [''tmp-'' @ x]) = ?V (comps p @ [''tmp-'' @ x])" for x
    by (simp_all add: fresh_image_def blobDirectory_def refDirectory_def layoutFile_def)
  have st: "fs_st True ?V s \<and> names_left p ?V s" using assms by (simp add: fs_st_def)
  note tr = newDirLayout_triple [OF assms(1) W ini]
  obtain r t where m: "newDirLayout p s = (r, t)" by fastforce
  show ?thesis
  proof (cases r)
    case (Inl x)
    then show ?thesis using tripleD_Inl [OF tr st] m by simp
  next
    case (Inr e)
    then have o: "l_path e = p" "layout_ok e"
      "fs_st True ((fresh_image ?V p)(comps (l_temp e) \<mapsto> None)) t"
      using tripleD_Inr [OF tr st] m by (auto simp: opens_def)
    obtain x where "comps (l_temp e) = comps p @ [''tmp-'' @ x]" using o by (auto simp: layout_ok_def)
    then have "layout_dirs e (view t)"
      using o by (auto simp: layout_dirs_def fs_st_def fresh_image_def simp del: view_simps)
    then show ?thesis using o m Inr by (auto simp: Open_def fs_st_def)
  qed
qed

theorem open_new_image_witness:
  "\<exists>e t. Open ''img'' blank_fs = (Inr e, t) \<and> layout_ok e \<and> layout_dirs e (view t)"
  using open_new_image [OF blank_facts(1,2,4) blank_wf demo_faults(2) blank_facts(3)] by metis

text \<open>C32. Opening never loses data: whatever fails on the way, every file and directory that was
  there before is there afterwards with the same content. The one condition is that an image
  which has its layout file has its \<open>blobs\<close> directory.\<close>

theorem open_preserves:
  assumes "image_paths p" "whole_image (view s) p" "wf_fs s" "node_at s ps \<noteq> None"
  shows "view (snd (Open p s)) ps = view s ps"
proof -
  have "dirs_ext (view s) s" using assms by (simp add: dirs_ext_def)
  then have "preserved (view s) (snd (Open p s))"
    using triple_snd [OF newDirLayout_preserved [OF assms(1,2)]] by (simp add: Open_def)
  then show ?thesis using assms(4) by (auto simp: preserved_def)
qed

theorem open_preserves_witness:
  "view (snd (Open ''img'' (demo_fs\<lparr>faults := [None, None, Some (EIO, 0)]\<rparr>))) [''img'', ''refs'', ''v1'']
     = Some (Some ''0'')"
proof -
  let ?s = "demo_fs\<lparr>faults := [None, None, Some (EIO, 0)]\<rparr>"
  have "view demo_fs [''img'', ''refs'', ''v1''] = Some (Some ''0'')"
    by (simp add: demo_nodes) (simp add: demo_fs_def)
  moreover have "view (snd (Open ''img'' ?s)) [''img'', ''refs'', ''v1''] = view ?s [''img'', ''refs'', ''v1'']"
  proof (rule open_preserves [OF blank_facts(1)])
    show "whole_image (view ?s) ''img''"
      by (simp add: whole_image_def comps_def layoutFile_def blobDirectory_def) (simp add: demo_fs_def node_at_def)
  qed (simp_all add: demo_wf demo_nodes)
  ultimately show ?thesis by simp
qed

text \<open>C33. A crash between the first \<open>Mkdir\<close> and the layout file is not recovered from: on such a
  path every later \<open>Open\<close> fails, with the error of a directory that exists, and changes nothing.\<close>

theorem open_stuck:
  assumes "image_paths p" "has_parent (view s) p" "wf_fs s" "faults s = []"
    and "node_at s (comps p) = Some Dir" "node_at s (comps p @ [layoutFile]) = None"
    and "node_at s (comps p @ [blobDirectory]) = Some Dir" "Open p s = (r, t)"
  shows "\<exists>x. r = Inl x \<and> os_IsExist x \<and> view t = view s"
proof -
  let ?e = "\<lparr>l_path = p, l_temp = []\<rparr>"
  have st: "fs_st True (view s) s" using assms by (simp add: fs_st_def)
  have "triple (fs_st True (view s)) (initialize ?e) (\<lambda>_ _. False) (\<lambda>x t. fs_st True (view s) t \<and> os_IsExist x)"
    using initialize_stuck [of ?e "view s"] assms by simp
  then have "triple (fs_st True (view s)) (newDirLayout p) (\<lambda>_ _. False) (\<lambda>x t. fs_st True (view s) t \<and> os_IsExist x)"
    unfolding newDirLayout_def Let_def by (rule triple_then) (rule triple_False)
  from tripleD_Inr [OF this st] tripleD_Inl [OF this st] assms(8) show ?thesis
    by (cases r) (auto simp: Open_def fs_st_def)
qed

definition crashed_fs :: fs where
  "crashed_fs = blank_fs\<lparr>tree := [([''img''], Dir), ([''img'', ''blobs''], Dir)]\<rparr>"

theorem open_stuck_witness:
  "\<exists>x. fst (Open ''img'' crashed_fs) = Inl x \<and> os_IsExist x"
proof -
  obtain r t where m: "Open ''img'' crashed_fs = (r, t)" by fastforce
  have c: "comps ''img'' = [''img'']" "filepath_Dir ''img'' = ''.''" "comps ''.'' = []"
    by (simp_all add: comps_def filepath_Dir_def Clean_def)
  have "wf_fs crashed_fs" unfolding wf_fs_def
    by (auto simp: crashed_fs_def blank_fs_def is_path_def node_at_def split: if_splits)
  then have "\<exists>x. r = Inl x \<and> os_IsExist x \<and> view t = view crashed_fs"
    by (intro open_stuck [OF blank_facts(1) _ _ _ _ _ _ m])
      (simp_all add: has_parent_def c crashed_fs_def blank_fs_def node_at_def layoutFile_def blobDirectory_def)
  then show ?thesis using m by auto
qed

text \<open>\<open>Close\<close> removes the layout's temporary directory with everything in it and nothing
  else; blobs and references stay.\<close>

lemma Close_effect:
  assumes "layout_ok e" "wf_fs s" "faults s = []"
  shows "fst (Close e s) = Inr () \<and>
    view (snd (Close e s)) = (\<lambda>ps. if prefix (comps (l_temp e)) ps then None else view s ps)"
proof -
  obtain r t where k: "k_removeAll (comps (l_temp e)) s = (r, t)" by fastforce
  note props = k_removeAll_props [OF assms(2) layout_paths(7) [OF assms(1)] k]
  have "Close e s = (map_sum Errno id r, t)"
    using k assms(3) by (simp add: Close_def os_RemoveAll_def syscall_def)
  then show ?thesis using props(2,5) by auto
qed

section \<open>Listing\<close>

lemma walk_below:
  assumes "wf_fs s" "D \<noteq> []" "resolve s D = Inr Dir"
  shows "set (filter (\<lambda>q. q \<noteq> D) (D # sort (map fst (filter (\<lambda>(k, n). strict_prefix D k) (tree s))))) =
      {ps. strict_prefix D ps \<and> node_at s ps \<noteq> None}"
proof (intro set_eqI iffI)
  fix ps assume "ps \<in> set (filter (\<lambda>q. q \<noteq> D) (D # sort (map fst (filter (\<lambda>(k, n). strict_prefix D k) (tree s)))))"
  then obtain n where "(ps, n) \<in> set (tree s)" "strict_prefix D ps" by auto
  then show "ps \<in> {ps. strict_prefix D ps \<and> node_at s ps \<noteq> None}"
    using assms(1) by (auto simp: node_at_def wf_fs_def)
next
  fix ps assume "ps \<in> {ps. strict_prefix D ps \<and> node_at s ps \<noteq> None}"
  then have p: "strict_prefix D ps" "node_at s ps \<noteq> None" by auto
  then have "ps \<noteq> [] \<and> ps \<noteq> [[]]" using assms(2) by (auto simp: strict_prefix_def prefix_Cons)
  then obtain n where "(ps, n) \<in> set (tree s)" using p(2) by (auto simp: node_at_def dest: map_of_SomeD)
  then show "ps \<in> set (filter (\<lambda>q. q \<noteq> D) (D # sort (map fst (filter (\<lambda>(k, n). strict_prefix D k) (tree s)))))"
    using p(1) by force
qed

text \<open>A directory that has entries and no directories with entries of their own.\<close>

definition flat_dir :: "'z fs_scheme \<Rightarrow> string list \<Rightarrow> bool" where
  "flat_dir s D \<longleftrightarrow> (\<forall>ps. strict_prefix D ps \<longrightarrow> node_at s ps \<noteq> None \<longrightarrow> length ps = Suc (length D))"

lemma flat_dir_entry:
  assumes "flat_dir s D" "strict_prefix D ps" "node_at s ps \<noteq> None"
  shows "ps = D @ [last ps]"
proof -
  obtain ys where ys: "ps = D @ ys" using assms(2) by (auto simp: strict_prefix_def prefix_def)
  have "length ps = Suc (length D)" using assms unfolding flat_dir_def by blast
  with ys show ?thesis by (cases ys) auto
qed

lemma walk_listed:
  assumes "wf_fs s" "comps p = D" "D \<noteq> []" "node_at s D = Some Dir"
    and flat: "flat_dir s D"
  shows "last ` set (filter (\<lambda>q. q \<noteq> D) (filepath_Walk p s)) = {h. node_at s (D @ [h]) \<noteq> None}"
proof -
  have r: "resolve s D = Inr Dir" using assms by (simp add: resolve_node)
  have "set (filter (\<lambda>q. q \<noteq> D) (filepath_Walk p s)) = {ps. strict_prefix D ps \<and> node_at s ps \<noteq> None}"
    using walk_below [OF assms(1,3) r] by (simp add: filepath_Walk_def assms(2) r)
  also have "\<dots> = (\<lambda>h. D @ [h]) ` {h. node_at s (D @ [h]) \<noteq> None}"
  proof (intro set_eqI iffI)
    fix ps assume "ps \<in> {ps. strict_prefix D ps \<and> node_at s ps \<noteq> None}"
    then have p: "strict_prefix D ps" "node_at s ps \<noteq> None" by blast+
    from flat_dir_entry [OF flat p] have e: "ps = D @ [last ps]" .
    with p(2) have "node_at s (D @ [last ps]) \<noteq> None" by metis
    then show "ps \<in> (\<lambda>h. D @ [h]) ` {h. node_at s (D @ [h]) \<noteq> None}"
      using e by blast
  next
    fix ps assume "ps \<in> (\<lambda>h. D @ [h]) ` {h. node_at s (D @ [h]) \<noteq> None}"
    then show "ps \<in> {ps. strict_prefix D ps \<and> node_at s ps \<noteq> None}" by (auto simp: strict_prefix_def)
  qed
  finally show ?thesis by (auto simp: image_image)
qed

text \<open>C34. On an image whose blob and reference directories hold entries and no directories below
  them, \<open>ListBlobs\<close> and \<open>ListReferences\<close> give exactly the digests and the names that are stored.\<close>

theorem list_complete:
  assumes "image_paths (l_path e)" "wf_fs s" "layout_dirs e (view s)"
    and "flat_dir s (comps (l_path e) @ [blobDirectory, BlobAlgorithm])"
    and "flat_dir s (comps (l_path e) @ [refDirectory])"
  shows "(\<exists>ds ns. ListBlobs e s = (Inr ds, s) \<and> set ds = {digest_of h | h. node_at s (blob_key e h) \<noteq> None} \<and>
    ListReferences e s = (Inr ns, s) \<and> set ns = {n. node_at s (ref_key e n) \<noteq> None})"
proof -
  note join = image_join [OF assms(1)]
  let ?B = "comps (l_path e) @ [blobDirectory, BlobAlgorithm]" and ?R = "comps (l_path e) @ [refDirectory]"
  have dirs: "node_at s ?B = Some Dir" "node_at s ?R = Some Dir"
    using assms(3) by (auto simp: layout_dirs_def)
  have b: "last ` set (filter (\<lambda>q. q \<noteq> ?B) (filepath_Walk (Join [l_path e, blobDirectory, BlobAlgorithm]) s)) =
      {h. node_at s (?B @ [h]) \<noteq> None}"
    by (rule walk_listed [OF assms(2) join(3) _ dirs(1)]) (simp_all add: assms(4,5))
  have r: "last ` set (filter (\<lambda>q. q \<noteq> ?R) (filepath_Walk (Join [l_path e, refDirectory]) s)) =
      {h. node_at s (?R @ [h]) \<noteq> None}"
    by (rule walk_listed [OF assms(2) join(4) _ dirs(2)]) (simp_all add: assms(4,5))
  have k: "?B @ [h] = blob_key e h" "?R @ [h] = ref_key e h" for h
    by (simp_all add: blob_key_def ref_key_def)
  have "(\<lambda>p. digest_of (last p)) ` set (filter (\<lambda>q. q \<noteq> ?B) (filepath_Walk (Join [l_path e, blobDirectory, BlobAlgorithm]) s)) =
      digest_of ` {h. node_at s (blob_key e h) \<noteq> None}"
    using b unfolding k by (metis image_image)
  then show ?thesis
    using r unfolding ListBlobs_def ListReferences_def Let_def join k getE_def
    by (auto simp del: not_None_eq)
qed

theorem list_complete_witness:
  "\<exists>ds. ListReferences demo_image demo_fs = (Inr ds, demo_fs) \<and> set ds = {''v1''}"
proof -
  have p: "image_paths (l_path demo_image)" using blank_facts(1) by (simp add: demo_image_def)
  have "flat_dir demo_fs (comps (l_path demo_image) @ [blobDirectory, BlobAlgorithm])"
    "flat_dir demo_fs (comps (l_path demo_image) @ [refDirectory])"
    unfolding flat_dir_def
    by (auto simp: node_at_def demo_fs_def blobDirectory_def BlobAlgorithm_def refDirectory_def
        split: if_splits)
  then show ?thesis
    using list_complete [OF p demo_wf demo_dirs] by (auto simp: demo_keys demo_nodes)
qed

section \<open>Paths\<close>

text \<open>C35. A well-formed digest names a file of the blob directory of the image, and only the
  algorithm of the digest is checked: a digest whose hash part climbs out of the image is
  accepted and names a file outside it.\<close>

theorem blob_path_scope:
  "(\<forall>e h (s :: fs). layout_ok e \<and> name_ok h \<longrightarrow>
      (\<exists>p. GetBlobPath e (digest_of h) s = (Inr p, s) \<and> comps p = blob_key e h)) \<and>
   (\<exists>e k. layout_ok e \<and> (\<forall>s :: fs. GetBlobPath e k s = (Inr ''etc/passwd'', s)) \<and>
      \<not> prefix (comps (l_path e)) (comps ''etc/passwd''))"
proof (intro conjI allI impI)
  fix e h and s :: fs assume "layout_ok e \<and> name_ok h"
  then show "\<exists>p. GetBlobPath e (digest_of h) s = (Inr p, s) \<and> comps p = blob_key e h"
    using layout_paths(1,2) [of e]
    by (auto simp: GetBlobPath_def blobPath_digest returnE_def blob_join)
next
  have "blobPath ''sha256:../../../etc/passwd'' = Inr ''../etc/passwd''"
    by (simp add: blobPath_def SplitN2_def BlobAlgorithm_def blobDirectory_def Join_def Clean_def Let_def)
  moreover have "Join [''img'', ''../etc/passwd''] = ''etc/passwd''"
    by (simp add: Join_def Clean_def Let_def)
  ultimately have "GetBlobPath demo_image ''sha256:../../../etc/passwd'' s = (Inr ''etc/passwd'', s)" for s :: fs
    by (simp add: GetBlobPath_def returnE_def demo_image_def)
  moreover have "\<not> prefix (comps (l_path demo_image)) (comps ''etc/passwd'')"
    unfolding demo_comps by (simp add: comps_def)
  ultimately show "\<exists>e k. layout_ok e \<and> (\<forall>s :: fs. GetBlobPath e k s = (Inr ''etc/passwd'', s)) \<and>
      \<not> prefix (comps (l_path e)) (comps ''etc/passwd'')"
    using demo_layout by blast
qed

theorem blob_path_scope_witness:
  "\<exists>p. GetBlobPath demo_image (digest_of ''00'') demo_fs = (Inr p, demo_fs) \<and>
     comps p = [''img'', ''blobs'', ''sha256'', ''00'']"
proof -
  have "name_ok ''00''" by (simp add: name_ok_def)
  then show ?thesis
    using blob_path_scope demo_layout unfolding demo_keys [symmetric] by blast
qed

end
