(* ===== verification/Torrent_Client.thy ===== *)
theory Torrent_Client
  imports File_Rules
begin

text \<open>
  The vendored BitTorrent client as the engine uses it: torrent files
  (anacrolix/torrent/metainfo), the table of torrents of a client, and the handles the engine
  keeps (client.go, torrent.go, t.go). A handle stays usable after its torrent was dropped; it
  is then no longer in the table. Transfers are events of the environment (\<open>progress\<close>). SHA-1
  and the bencoding of torrent files are parameters.
\<close>

section \<open>Torrent files\<close>

record FileInfo =
  fi_Length :: int
  fi_Path :: "string list"

record Info =
  i_PieceLength :: int
  i_Pieces :: bytes
  i_Name :: string
  i_Length :: int
  i_Files :: "FileInfo list"

text \<open>\<open>mi_InfoBytes\<close> is the raw info dictionary, whose SHA-1 is the info hash.\<close>

record MetaInfo =
  mi_Info :: Info
  mi_InfoBytes :: bytes
  mi_Announce :: string
  mi_AnnounceList :: "string list list"
  mi_CreationDate :: int
  mi_Comment :: string
  mi_CreatedBy :: string

record codec =
  sha1 :: "bytes \<Rightarrow> bytes"
  info_encode :: "Info \<Rightarrow> bytes"
  info_decode :: "bytes \<Rightarrow> Info result"
  mi_load :: "bytes \<Rightarrow> MetaInfo result"
  mi_write :: "MetaInfo \<Rightarrow> bytes"

text \<open>
  What is documented of the parameters: a hash has 20 bytes, decoding inverts encoding, no dictionary is
  encoded by no bytes, and a torrent file is read back as written. Nothing is said of torrent files from
  elsewhere: one without an info dictionary is loaded too, with no info bytes.
\<close>

definition codec_laws :: "codec \<Rightarrow> bool" where
  "codec_laws c \<longleftrightarrow>
     (\<forall>b. length (sha1 c b) = 20) \<and>
     (\<forall>i. info_decode c (info_encode c i) = Inr i) \<and>
     (\<forall>i. info_encode c i \<noteq> []) \<and> (\<exists>x. info_decode c [] = Inl x) \<and>
     (\<forall>m. mi_InfoBytes m = info_encode c (mi_Info m) \<longrightarrow> mi_load c (mi_write c m) = Inr m) \<and>
     (\<forall>b x. mi_load c b = Inl x \<longrightarrow> \<not> is_panic x) \<and> (\<forall>b x. info_decode c b = Inl x \<longrightarrow> \<not> is_panic x)"

text \<open>The hash is a field that is set with the info bytes: without them it is the zero value.\<close>

definition info_hash :: "codec \<Rightarrow> MetaInfo \<Rightarrow> bytes" where
  "info_hash c m = (if mi_InfoBytes m = [] then replicate 20 CHR 0x00 else sha1 c (mi_InfoBytes m))"

definition HexString :: "bytes \<Rightarrow> string" where
  "HexString h = hex_encode h"

definition IsDir :: "Info \<Rightarrow> bool" where
  "IsDir i \<longleftrightarrow> length (i_Files i) \<noteq> 0"

text \<open>Lengths come from the peer and are int64: every sum wraps around.\<close>

definition TotalLength :: "Info \<Rightarrow> int" where
  "TotalLength i = (if IsDir i then foldl (\<lambda>ret fi. int64 (ret + fi_Length fi)) 0 (i_Files i) else i_Length i)"

definition UpvertedFiles :: "Info \<Rightarrow> FileInfo list" where
  "UpvertedFiles i = (if length (i_Files i) = 0 then [\<lparr>fi_Length = i_Length i, fi_Path = []\<rparr>] else i_Files i)"

definition NumPieces :: "Info \<Rightarrow> int result" where
  "NumPieces i =
     (if length (i_Pieces i) mod 20 \<noteq> 0 then Inl (Panic ''len(info.Pieces)'')
      else Inr (int (length (i_Pieces i)) div 20))"

text \<open>\<open>GeneratePieces\<close>: the hash of each piece, the last one possibly shorter.\<close>

fun pieces_loop :: "(bytes \<Rightarrow> bytes) \<Rightarrow> nat \<Rightarrow> nat \<Rightarrow> bytes \<Rightarrow> bytes" where
  "pieces_loop h 0 n d = []"
| "pieces_loop h (Suc k) n d = (if d = [] then [] else h (take n d) @ pieces_loop h k n (drop n d))"

definition GeneratePieces :: "codec \<Rightarrow> bytes \<Rightarrow> Info \<Rightarrow> Info result" where
  "GeneratePieces c d i =
     (if i_PieceLength i = 0 then Inl (Msg ''piece length must be non-zero'')
      else if i_PieceLength i < 0 then Inr (i\<lparr>i_Pieces := []\<rparr>)
      else Inr (i\<lparr>i_Pieces := pieces_loop (sha1 c) (length d) (nat (i_PieceLength i)) d\<rparr>))"

text \<open>
  \<open>BuildFromFilePath\<close>: a regular file gives its length, a directory the list of the files below
  it in the order of their joined paths; the pieces are hashed over the concatenated content.
\<close>

definition BuildFromFilePath :: "codec \<Rightarrow> string \<Rightarrow> Info \<Rightarrow> ('z fs_scheme, Info) call" where
  "BuildFromFilePath c root info =
     (let info = info\<lparr>i_Name := filepath_Base root, i_Files := []\<rparr> in
      bindE (os_Stat root) (\<lambda>n. case n of
        File _ \<Rightarrow>
          bindE (ioutil_ReadFile root) (\<lambda>d.
          wrapE ''error generating pieces'' (liftE (GeneratePieces c d (info\<lparr>i_Length := int (length d)\<rparr>))))
      | Dir \<Rightarrow>
          bindE (getE (\<lambda>s. filter (\<lambda>q. \<exists>i. node_at s q = Some (File i)) (filepath_Walk root s))) (\<lambda>found.
          let rel = sort_key (join_with slash) (map (drop (length (comps root))) found) in
          bindE (mapE (\<lambda>q. ioutil_ReadFile (Join (root # q))) rel) (\<lambda>ds.
          wrapE ''error generating pieces'' (liftE (GeneratePieces c (concat ds)
            (info\<lparr>i_Files := map2 (\<lambda>q d. \<lparr>fi_Length = int (length d), fi_Path = q\<rparr>) rel ds\<rparr>)))))))"

definition LoadFromFile :: "codec \<Rightarrow> string \<Rightarrow> ('z fs_scheme, MetaInfo) call" where
  "LoadFromFile c filename = bindE (ioutil_ReadFile filename) (\<lambda>b. liftE (mi_load c b))"

section \<open>Client and handles\<close>

record torrent_Config =
  tc_DataDir :: string
  tc_ListenAddr :: string
  tc_NoUpload :: bool
  tc_Seed :: bool
  tc_DisableEncryption :: bool
  tc_DisableUTP :: bool
  tc_UploadRateLimit :: int
  tc_DownloadRateLimit :: int

text \<open>\<open>h_pending\<close>: a piece is marked for download and not complete yet; \<open>h_complete\<close>: all pieces are.\<close>

record handle =
  h_client :: nat
  h_hash :: bytes
  h_info :: "Info option"
  h_infoBytes :: bytes
  h_display :: string
  h_trackers :: "string list list"
  h_left :: int
  h_complete :: bool
  h_pending :: bool
  h_closed :: bool

record tclient =
  cl_config :: torrent_Config
  cl_torrents :: "(bytes \<times> nat) list"
  cl_upload :: "int option"
  cl_download :: "int option"
  cl_closed :: bool

record net = fs +
  handles :: "nat \<Rightarrow> handle"
  next_handle :: nat
  clients :: "nat \<Rightarrow> tclient"
  next_client :: nat
  clock :: int

definition limiter :: "int \<Rightarrow> int option" where
  "limiter n = (if n > 0 then Some n else None)"

text \<open>\<open>NewClient\<close>: opening the listener is a system call that can fail.\<close>

definition NewClient :: "torrent_Config \<Rightarrow> ('z net_scheme, nat) call" where
  "NewClient tc =
     bindE (syscall (\<lambda>s. (Inr (), s))) (\<lambda>_.
     bindE (getE next_client) (\<lambda>k.
     bindE (modifyE (\<lambda>s. s\<lparr>next_client := Suc k, clients := (clients s)(k :=
       \<lparr>cl_config = tc, cl_torrents = [], cl_upload = limiter (tc_UploadRateLimit tc),
        cl_download = limiter (tc_DownloadRateLimit tc), cl_closed = False\<rparr>)\<rparr>)) (\<lambda>_.
     returnE k)))"

definition upd_handle :: "nat \<Rightarrow> (handle \<Rightarrow> handle) \<Rightarrow> 'z net_scheme \<Rightarrow> 'z net_scheme" where
  "upd_handle h f s = s\<lparr>handles := (handles s)(h := f (handles s h))\<rparr>"

definition upd_client :: "nat \<Rightarrow> (tclient \<Rightarrow> tclient) \<Rightarrow> 'z net_scheme \<Rightarrow> 'z net_scheme" where
  "upd_client k f s = s\<lparr>clients := (clients s)(k := f (clients s k))\<rparr>"

definition close_torrent :: "handle \<Rightarrow> handle" where
  "close_torrent t = t\<lparr>h_closed := True\<rparr>"

definition client_Close :: "nat \<Rightarrow> 'z net_scheme \<Rightarrow> 'z net_scheme" where
  "client_Close k s =
     fold (\<lambda>h. upd_handle h close_torrent) (map snd (cl_torrents (clients s k)))
       (upd_client k (\<lambda>cl. cl\<lparr>cl_closed := True\<rparr>) s)"

definition client_Torrent :: "nat \<Rightarrow> bytes \<Rightarrow> 'z net_scheme \<Rightarrow> nat option" where
  "client_Torrent k ih s = map_of (cl_torrents (clients s k)) ih"

definition newTorrent :: "nat \<Rightarrow> bytes \<Rightarrow> handle" where
  "newTorrent k ih =
     \<lparr>h_client = k, h_hash = ih, h_info = None, h_infoBytes = [], h_display = [], h_trackers = [],
      h_left = 0, h_complete = False, h_pending = False, h_closed = False\<rparr>"

definition AddTorrentInfoHash :: "nat \<Rightarrow> bytes \<Rightarrow> ('z net_scheme, nat) call" where
  "AddTorrentInfoHash k ih =
     bindE (getE (client_Torrent k ih)) (\<lambda>old. case old of
       Some h \<Rightarrow> returnE h
     | None \<Rightarrow>
         bindE (getE next_handle) (\<lambda>h.
         bindE (modifyE (\<lambda>s. s\<lparr>handles := (handles s)(h := newTorrent k ih), next_handle := Suc h\<rparr>)) (\<lambda>_.
         bindE (modifyE (upd_client k (\<lambda>cl. cl\<lparr>cl_torrents := AList.update ih h (cl_torrents cl)\<rparr>))) (\<lambda>_.
         returnE h))))"

definition haveInfo :: "handle \<Rightarrow> bool" where
  "haveInfo t \<longleftrightarrow> h_info t \<noteq> None"

definition torrent_name :: "handle \<Rightarrow> string" where
  "torrent_name t = (case h_info t of Some i \<Rightarrow> i_Name i | None \<Rightarrow> h_display t)"

definition setDisplayName :: "string \<Rightarrow> handle \<Rightarrow> handle" where
  "setDisplayName dn t = (if haveInfo t then t else t\<lparr>h_display := dn\<rparr>)"

text \<open>
  \<open>validateInfo\<close>: Go's integer division by a zero piece length panics; the sum and the quotient are int64
  and wrap around.
\<close>

definition validateInfo :: "Info \<Rightarrow> unit result" where
  "validateInfo i =
     (if length (i_Pieces i) mod 20 \<noteq> 0 then Inl (Msg ''pieces has invalid length'')
      else if i_PieceLength i = 0 then Inl (Panic ''integer divide by zero'')
      else case NumPieces i of Inl x \<Rightarrow> Inl x | Inr n \<Rightarrow>
        if int64_quot (int64 (TotalLength i + i_PieceLength i - 1)) (i_PieceLength i) \<noteq> n
        then Inl (Msg ''piece count and file lengths are at odds'') else Inr ())"

text \<open>The length of piece \<open>k\<close>, a uint32, and the bytes left when no piece is complete.\<close>

definition pieceLength :: "Info \<Rightarrow> nat \<Rightarrow> int" where
  "pieceLength i k =
     (let n = length (i_Pieces i) div 20;
          len = (if Suc k = n then (TotalLength i smod i_PieceLength i) mod 2 ^ 32 else 0)
      in if n \<le> k then 0 else if len = 0 then i_PieceLength i mod 2 ^ 32 else len)"

definition bytesLeft :: "Info \<Rightarrow> int" where
  "bytesLeft i = foldl (\<lambda>left k. int64 (left + pieceLength i k)) 0 [0..<length (i_Pieces i) div 20]"

text \<open>
  \<open>setInfoBytes\<close>; what of the data is already on disk (\<open>updatePieceCompletion\<close>) is learnt from the
  environment, a torrent starts with every piece left.
\<close>

definition setInfoBytes :: "codec \<Rightarrow> nat \<Rightarrow> bytes \<Rightarrow> ('z net_scheme, unit) call" where
  "setInfoBytes c h b =
     bindE (getE (\<lambda>s. handles s h)) (\<lambda>t.
     if haveInfo t then returnE ()
     else bindE (wrapE ''error unmarshalling info bytes'' (liftE (info_decode c b))) (\<lambda>i.
       if sha1 c b \<noteq> h_hash t then throwE (Msg ''info bytes have wrong hash'')
       else bindE (wrapE ''bad info'' (liftE (validateInfo i))) (\<lambda>_.
         modifyE (upd_handle h (\<lambda>t. t\<lparr>h_info := Some i, h_infoBytes := b, h_display := [], h_left := bytesLeft i\<rparr>)))))"

definition appendMissingStrings :: "string list \<Rightarrow> string list \<Rightarrow> string list" where
  "appendMissingStrings old new = old @ filter (\<lambda>n. n \<notin> set old) new"

definition appendMissingTrackerTiers :: "string list list \<Rightarrow> nat \<Rightarrow> string list list" where
  "appendMissingTrackerTiers existing minNumTiers = existing @ replicate (minNumTiers - length existing) []"

fun merge_tiers :: "string list list \<Rightarrow> string list list \<Rightarrow> string list list" where
  "merge_tiers (t # ts) (u # us) = appendMissingStrings t u # merge_tiers ts us"
| "merge_tiers ts _ = ts"

definition addTrackers :: "string list list \<Rightarrow> handle \<Rightarrow> handle" where
  "addTrackers al t =
     t\<lparr>h_trackers := merge_tiers (appendMissingTrackerTiers (h_trackers t) (length al)) al\<rparr>"

definition AddTorrentSpec ::
  "codec \<Rightarrow> nat \<Rightarrow> bytes \<Rightarrow> string \<Rightarrow> bytes option \<Rightarrow> string list list \<Rightarrow> ('z net_scheme, nat) call" where
  "AddTorrentSpec c k ih dn info trackers =
     bindE (AddTorrentInfoHash k ih) (\<lambda>h.
     bindE (whenE (dn \<noteq> []) (modifyE (upd_handle h (setDisplayName dn)))) (\<lambda>_.
     bindE (case info of None \<Rightarrow> returnE () | Some b \<Rightarrow> setInfoBytes c h b) (\<lambda>_.
     bindE (modifyE (upd_handle h (addTrackers trackers))) (\<lambda>_.
     returnE h))))"

definition AddTorrent :: "codec \<Rightarrow> nat \<Rightarrow> MetaInfo \<Rightarrow> ('z net_scheme, nat) call" where
  "AddTorrent c k m =
     (let trackers = (if mi_AnnounceList m = [] \<and> mi_Announce m \<noteq> [] then [[mi_Announce m]] else mi_AnnounceList m) in
      AddTorrentSpec c k (info_hash c m) (i_Name (mi_Info m)) (Some (mi_InfoBytes m)) trackers)"

definition dropTorrent :: "nat \<Rightarrow> bytes \<Rightarrow> 'z net_scheme \<Rightarrow> 'z net_scheme" where
  "dropTorrent k ih s =
     (case client_Torrent k ih s of
        None \<Rightarrow> s
      | Some h \<Rightarrow> upd_client k (\<lambda>cl. cl\<lparr>cl_torrents := AList.delete ih (cl_torrents cl)\<rparr>)
                    (upd_handle h close_torrent s))"

text \<open>\<open>t.Drop()\<close> drops whatever torrent its client has under the hash of \<open>t\<close>.\<close>

definition Drop :: "nat \<Rightarrow> 'z net_scheme \<Rightarrow> 'z net_scheme" where
  "Drop h s = dropTorrent (h_client (handles s h)) (h_hash (handles s h)) s"

definition torrent_Length :: "handle \<Rightarrow> int" where
  "torrent_Length t = (case h_info t of None \<Rightarrow> 0 | Some i \<Rightarrow> TotalLength i)"

definition BytesCompleted :: "handle \<Rightarrow> int" where
  "BytesCompleted t = (case h_info t of None \<Rightarrow> 0 | Some i \<Rightarrow> int64 (TotalLength i - h_left t))"

definition needData :: "handle \<Rightarrow> bool" where
  "needData t \<longleftrightarrow> \<not> haveInfo t \<or> h_pending t"

definition torrent_Seeding :: "tclient \<Rightarrow> handle \<Rightarrow> bool" where
  "torrent_Seeding cl t \<longleftrightarrow> \<not> tc_NoUpload (cl_config cl) \<and> tc_Seed (cl_config cl) \<and> \<not> needData t"

text \<open>\<open>DownloadAll\<close> marks the pieces there are; a torrent of no pieces has nothing to mark.\<close>

definition has_pieces :: "handle \<Rightarrow> bool" where
  "has_pieces t \<longleftrightarrow> (case h_info t of None \<Rightarrow> False | Some i \<Rightarrow> length (i_Pieces i) div 20 > 0)"

definition DownloadAll :: "nat \<Rightarrow> 'z net_scheme \<Rightarrow> 'z net_scheme" where
  "DownloadAll h = upd_handle h (\<lambda>t. t\<lparr>h_pending := h_pending t \<or> has_pieces t \<and> \<not> h_complete t\<rparr>)"

definition Metainfo :: "int \<Rightarrow> handle \<Rightarrow> MetaInfo" where
  "Metainfo now t =
     \<lparr>mi_Info = (case h_info t of Some i \<Rightarrow> i | None \<Rightarrow>
        \<lparr>i_PieceLength = 0, i_Pieces = [], i_Name = [], i_Length = 0, i_Files = []\<rparr>),
      mi_InfoBytes = h_infoBytes t, mi_Announce = [], mi_AnnounceList = h_trackers t,
      mi_CreationDate = now, mi_Comment = ''dynamic metainfo from client'', mi_CreatedBy = ''go.torrent''\<rparr>"

definition SetUploadRateLimit :: "nat \<Rightarrow> int \<Rightarrow> ('z net_scheme, unit) call" where
  "SetUploadRateLimit k upload =
     bindE (getE (\<lambda>s. cl_upload (clients s k))) (\<lambda>l.
     if upload > 0 then
       (if l \<noteq> None then modifyE (upd_client k (\<lambda>cl. cl\<lparr>cl_upload := Some upload\<rparr>))
        else throwE (Msg ''Upload rate limiter is null''))
     else returnE ())"

definition GetUploadRateLimit :: "nat \<Rightarrow> ('z net_scheme, int) call" where
  "GetUploadRateLimit k =
     bindE (getE (\<lambda>s. cl_upload (clients s k))) (\<lambda>l. case l of
       Some v \<Rightarrow> returnE v | None \<Rightarrow> throwE (Msg ''Upload rate limiter is null''))"

definition SetDownloadRateLimit :: "nat \<Rightarrow> int \<Rightarrow> ('z net_scheme, unit) call" where
  "SetDownloadRateLimit k download =
     bindE (getE (\<lambda>s. cl_download (clients s k))) (\<lambda>l.
     if download > 0 then
       (if l \<noteq> None then modifyE (upd_client k (\<lambda>cl. cl\<lparr>cl_download := Some download\<rparr>))
        else throwE (Msg ''Download rate limiter is null''))
     else returnE ())"

definition GetDownloadRateLimit :: "nat \<Rightarrow> ('z net_scheme, int) call" where
  "GetDownloadRateLimit k =
     bindE (getE (\<lambda>s. cl_download (clients s k))) (\<lambda>l. case l of
       Some v \<Rightarrow> returnE v | None \<Rightarrow> throwE (Msg ''Download rate limiter is null''))"

text \<open>The environment: data arrives at a torrent, or is found to be missing.\<close>

definition progress :: "nat \<Rightarrow> int \<Rightarrow> bool \<Rightarrow> bool \<Rightarrow> 'z net_scheme \<Rightarrow> 'z net_scheme" where
  "progress h left complete pending s =
     (if h < next_handle s \<and> haveInfo (handles s h)
      then upd_handle h (\<lambda>t. t\<lparr>h_left := left, h_complete := complete, h_pending := pending\<rparr>) s
      else s)"

end
