(* ===== verification/Torrent_Storage.thy ===== *)
theory Torrent_Storage
  imports Torrent_Client
begin

text \<open>
  The file storage of the vendored client (anacrolix/torrent/storage/file.go): where the files of a
  torrent are, and the write of a piece's bytes, which makes the directories and files it needs. The names
  come from the torrent and are joined to the client's data directory as they are.
\<close>

section \<open>Files opened for writing\<close>

text \<open>\<open>os.OpenFile\<close> with \<open>O_WRONLY|O_CREATE\<close>: what is in the file stays.\<close>

definition k_open_write :: "string list \<Rightarrow> 'z fs_scheme \<Rightarrow> (errno + nat) \<times> 'z fs_scheme" where
  "k_open_write ps s =
     (case resolve_new s ps of
        Inl e \<Rightarrow> (Inl e, s)
      | Inr (Some Dir) \<Rightarrow> (Inl EISDIR, s)
      | Inr (Some (File i)) \<Rightarrow> (Inr i, s)
      | Inr None \<Rightarrow> new_file ps s)"

definition os_OpenWrite :: "string \<Rightarrow> ('z fs_scheme, nat) call" where
  "os_OpenWrite p = syscall (k_open_write (comps p))"

text \<open>\<open>pwrite\<close>: a gap before the offset is filled with zero bytes.\<close>

definition splice :: "nat \<Rightarrow> bytes \<Rightarrow> bytes \<Rightarrow> bytes" where
  "splice off bs d = take off (d @ replicate (off - length d) CHR 0x00) @ bs @ drop (off + length bs) d"

definition write_at :: "nat \<Rightarrow> nat \<Rightarrow> bytes \<Rightarrow> 'z fs_scheme \<Rightarrow> 'z fs_scheme" where
  "write_at i off bs s = s\<lparr>inodes := (inodes s)(i := splice off bs (inodes s i))\<rparr>"

definition file_WriteAt :: "nat \<Rightarrow> bytes \<Rightarrow> int \<Rightarrow> ('z fs_scheme, unit) call" where
  "file_WriteAt i bs off s =
     (if bs = [] then (Inr (), s)
      else if off < 0 then (Inl (Msg ''invalid argument''), s)
      else case faults s of
        [] \<Rightarrow> (Inr (), write_at i (nat off) bs s)
      | None # fl \<Rightarrow> (Inr (), write_at i (nat off) bs (s\<lparr>faults := fl\<rparr>))
      | Some (h, k) # fl \<Rightarrow> (Inl (Errno (EHW h)), write_at i (nat off) (take k bs) (s\<lparr>faults := fl\<rparr>)))"

section \<open>The storage of a torrent\<close>

definition fileInfoName :: "string \<Rightarrow> Info \<Rightarrow> FileInfo \<Rightarrow> string" where
  "fileInfoName baseDir info fi = Join ([baseDir, i_Name info] @ fi_Path fi)"

text \<open>\<open>WriteAt\<close>: \<open>p\<close> goes into the files in order, from the one the offset falls into.\<close>

fun writeAt_loop :: "string \<Rightarrow> Info \<Rightarrow> FileInfo list \<Rightarrow> bytes \<Rightarrow> int \<Rightarrow> int \<Rightarrow> ('z fs_scheme, int) call" where
  "writeAt_loop baseDir info [] p off n = returnE n"
| "writeAt_loop baseDir info (fi # fis) p off n =
     (if off \<ge> fi_Length fi then writeAt_loop baseDir info fis p (int64 (off - fi_Length fi)) n
      else
        let n1 = min (int (length p)) (int64 (fi_Length fi - off));
            name = fileInfoName baseDir info fi
        in bindE (tryE (os_MkdirAll (filepath_Dir name))) (\<lambda>_.
           bindE (os_OpenWrite name) (\<lambda>f.
           if n1 < 0 then throwE (Panic ''slice bounds out of range'')
           else bindE (file_WriteAt f (take (nat n1) p) off) (\<lambda>_.
             if drop (nat n1) p = [] then returnE (n + n1)
             else writeAt_loop baseDir info fis (drop (nat n1) p) 0 (n + n1)))))"

definition WriteAt :: "string \<Rightarrow> Info \<Rightarrow> bytes \<Rightarrow> int \<Rightarrow> ('z fs_scheme, int) call" where
  "WriteAt baseDir info p off = writeAt_loop baseDir info (UpvertedFiles info) p off 0"

text \<open>
  A write of the client for its torrent \<open>h\<close>, below the data directory of the client: what comes in from
  the peers. A handle without info has no storage.
\<close>

definition storage_dir :: "'z net_scheme \<Rightarrow> handle \<Rightarrow> string" where
  "storage_dir s t = tc_DataDir (cl_config (clients s (h_client t)))"

definition client_write :: "nat \<Rightarrow> bytes \<Rightarrow> int \<Rightarrow> 'z net_scheme \<Rightarrow> 'z net_scheme" where
  "client_write h p off s =
     (if h < next_handle s then
        (case h_info (handles s h) of None \<Rightarrow> s | Some i \<Rightarrow> snd (WriteAt (storage_dir s (handles s h)) i p off s))
      else s)"

section \<open>Names\<close>

text \<open>
  A torrent whose name is two dots has its files beside the data directory, wherever their path leads.
\<close>

lemma fileInfoName_escape:
  assumes "R \<noteq> []" "\<And>u. u \<in> set us \<Longrightarrow> name_ok u"
  shows "fileInfoName (Join [R, ''data'']) (i\<lparr>i_Name := ''..''\<rparr>) \<lparr>fi_Length = l, fi_Path = us\<rparr> = Join (R # us)"
proof -
  let ?r = "rooted R" and ?q = "join_with slash [R, ''data'']"
  let ?p = "Clean ?q"
  let ?A = "clean_elems ?r [] (split_on slash R)"
  have us: "split_on slash (join_with slash (x # us)) = split_on slash x @ us" for x
  proof (cases "us = []")
    case False
    then have "join_with slash (x # us) = x @ slash # join_with slash us" by (cases us) simp_all
    moreover have "split_on slash (join_with slash us) = us"
      using assms(2) False by (intro split_on_join) (auto simp: name_ok_def)
    ultimately show ?thesis by (simp add: split_on_append_sep)
  qed simp
  have rq: "rooted ?q = ?r" "?q \<noteq> []" using assms(1) by simp_all
  have p: "?p \<noteq> []" "rooted ?p = ?r" using rq by simp_all
  have dots: "join_with slash (?p # ''..'' # us) = ?p @ slash # join_with slash (''..'' # us)" by simp
  have "split_on slash ''data'' = [''data'']" "split_on slash ''..'' = [''..'']" by (rule split_on_no_sep, simp)+
  then have "clean_elems ?r [] (split_on slash ?p) = ?A @ [''data'']"
    using clean_elems_Clean [OF rq(2)] rq(1) by (simp add: split_on_append_sep clean_elems_append)
  then have el: "clean_elems ?r [] (split_on slash (join_with slash (?p # ''..'' # us))) = clean_elems ?r (rev ?A) us"
    unfolding dots split_on_append_sep us \<open>split_on slash ''..'' = [''..'']\<close> by (simp add: clean_elems_append)
  have er: "clean_elems ?r [] (split_on slash (join_with slash (R # us))) = clean_elems ?r (rev ?A) us"
    unfolding us by (simp add: clean_elems_append)
  have ro: "rooted (join_with slash (x # ys)) = rooted x" "join_with slash (x # ys) \<noteq> []" if "x \<noteq> []" for x ys
    using that by (cases ys; simp)+
  have "Clean (join_with slash (?p # ''..'' # us)) = Clean (join_with slash (R # us))"
    by (rule Clean_cong) (use el er ro p assms(1) in simp_all)
  moreover have "Join [R, ''data''] = ?p" using assms(1) by (simp add: Join_Cons)
  ultimately show ?thesis
    using assms(1) p(1) Join_Cons [OF p(1), of "''..'' # us"] by (simp add: fileInfoName_def Join_Cons)
qed

end
