(* ===== verification/Bt_Engine.thy ===== *)
theory Bt_Engine
  imports Torrent_Storage
begin

text \<open>
  The BitTorrent engine, bt/engine.go, bt/torrent.go and the wait loop of bt/btprogress.go: the
  registry of layer IDs (\<open>idInfos\<close>) over the cache of torrents by info hash (\<open>ts\<close>) over the
  client. A handler that holds the engine's mutex for its whole body is one atomic call; the
  goroutine every start leaves behind is an entry of \<open>gos\<close> that runs as a step of its own, at
  any later time. Log lines, the display fields \<open>Percent\<close>, \<open>DownloadRate\<close> and \<open>updatedAt\<close>
  (two floats and a time nothing reads) and the progress bar are not modelled.
\<close>

section \<open>State\<close>

type_synonym State = int

definition Started :: State where "Started = 1"
definition Dropped :: State where "Dropped = 2"

definition State_String :: "State \<Rightarrow> string" where
  "State_String s = (if s = Started then ''Started'' else if s = Dropped then ''Dropped'' else ''Unknown'')"

text \<open>\<open>t_tt\<close> is the handle of the underlying torrent.\<close>

record Torrent =
  t_InfoHash :: string
  t_Name :: string
  t_tt :: nat
  t_State :: State
  t_Loaded :: bool
  t_Seeding :: bool
  t_Size :: int
  t_Downloaded :: int

record Bt_Config =
  DisableEncryption :: bool
  EnableUpload :: bool
  EnableSeeding :: bool
  IncomingPort :: int
  UploadRateLimit :: int
  DownloadRateLimit :: int

record Status =
  st_Id :: string
  st_State :: string
  st_Completed :: int
  st_TotalLen :: int
  st_Seeding :: bool

record idInfo =
  ii_Id :: string
  ii_InfoHash :: string
  ii_Started :: bool
  ii_Count :: int

record BtEngine =
  e_client :: "nat option"
  e_config :: Bt_Config
  e_ts :: "(string \<times> Torrent) list"
  e_idInfos :: "(string \<times> idInfo) list"
  e_rootDir :: string
  e_trackers :: "string list"
  e_torrentDir :: string
  e_dataDir :: string
  e_started :: bool

record bt = net +
  engine :: BtEngine
  gos :: "(nat \<times> string) list"

definition DefaultUploadRateLimit :: int where "DefaultUploadRateLimit = 50 * 1024 * 1024"
definition DefaultDownloadRateLimit :: int where "DefaultDownloadRateLimit = 50 * 1024 * 1024"

definition NewBtEngine :: "string \<Rightarrow> string list \<Rightarrow> Bt_Config option \<Rightarrow> BtEngine" where
  "NewBtEngine root trackers c =
     \<lparr>e_client = None,
      e_config = (case c of Some c \<Rightarrow> c | None \<Rightarrow>
        \<lparr>DisableEncryption = True, EnableUpload = True, EnableSeeding = True, IncomingPort = 50007,
         UploadRateLimit = DefaultUploadRateLimit, DownloadRateLimit = DefaultDownloadRateLimit\<rparr>),
      e_ts = [], e_idInfos = [], e_rootDir = root, e_trackers = trackers,
      e_torrentDir = Join [root, ''torrents''], e_dataDir = Join [root, ''data''], e_started = False\<rparr>"

definition upd_engine :: "(BtEngine \<Rightarrow> BtEngine) \<Rightarrow> 'z bt_scheme \<Rightarrow> 'z bt_scheme" where
  "upd_engine f s = s\<lparr>engine := f (engine s)\<rparr>"

definition set_torrent :: "string \<Rightarrow> Torrent \<Rightarrow> 'z bt_scheme \<Rightarrow> 'z bt_scheme" where
  "set_torrent ih t = upd_engine (\<lambda>e. e\<lparr>e_ts := AList.update ih t (e_ts e)\<rparr>)"

definition set_idInfo :: "string \<Rightarrow> idInfo \<Rightarrow> 'z bt_scheme \<Rightarrow> 'z bt_scheme" where
  "set_idInfo idn i = upd_engine (\<lambda>e. e\<lparr>e_idInfos := AList.update idn i (e_idInfos e)\<rparr>)"

abbreviation info_of :: "'z bt_scheme \<Rightarrow> string \<Rightarrow> idInfo option" where
  "info_of s \<equiv> map_of (e_idInfos (engine s))"

abbreviation torrent_of :: "'z bt_scheme \<Rightarrow> string \<Rightarrow> Torrent option" where
  "torrent_of s \<equiv> map_of (e_ts (engine s))"

section \<open>Torrents\<close>

definition Update :: "'z net_scheme \<Rightarrow> Torrent \<Rightarrow> Torrent" where
  "Update s t =
     (let tt = handles s (t_tt t) in
      if haveInfo tt then
        t\<lparr>t_Loaded := True, t_Size := torrent_Length tt,
          t_Seeding := torrent_Seeding (clients s (h_client tt)) tt,
          t_Downloaded := BytesCompleted tt\<rparr>
      else t\<lparr>t_Loaded := False, t_Seeding := False\<rparr>)"

definition str2ih :: "string \<Rightarrow> bytes result" where
  "str2ih str =
     (case hex_Decode 20 str of
        Inl x \<Rightarrow> if is_panic x then Inl x else Inl (Msg ''Invalid hex string'')
      | Inr ih \<Rightarrow> if length ih \<noteq> 20 then Inl (Msg ''Invalid length'') else Inr ih)"

definition getTorrent :: "string \<Rightarrow> ('z bt_scheme, Torrent) call" where
  "getTorrent infohash =
     bindE (liftE (str2ih infohash)) (\<lambda>ih.
     bindE (getE (\<lambda>s. torrent_of s (HexString ih))) (\<lambda>r. case r of
       None \<Rightarrow> throwE (Msg (''Missing torrent '' @ HexString ih))
     | Some t \<Rightarrow> returnE t))"

definition addTorrent :: "nat \<Rightarrow> ('z bt_scheme, Torrent) call" where
  "addTorrent tt =
     bindE (getE (\<lambda>s.
       let ih = HexString (h_hash (handles s tt)) in
       Update s (case torrent_of s ih of
           Some t \<Rightarrow> t
         | None \<Rightarrow> \<lparr>t_InfoHash = ih, t_Name = torrent_name (handles s tt), t_tt = tt, t_State = 0,
              t_Loaded = False, t_Seeding = False, t_Size = 0, t_Downloaded = 0\<rparr>))) (\<lambda>t.
     bindE (getE (\<lambda>s. HexString (h_hash (handles s tt)))) (\<lambda>ih.
     bindE (modifyE (set_torrent ih t)) (\<lambda>_. returnE t)))"

definition startTorrent :: "string \<Rightarrow> ('z bt_scheme, unit) call" where
  "startTorrent infohash =
     bindE (getTorrent infohash) (\<lambda>t.
     if t_State t = Started then throwE (Msg ''Already started'')
     else bindE (modifyE (set_torrent (t_InfoHash t) (t\<lparr>t_State := Started\<rparr>))) (\<lambda>_.
       bindE (getE (\<lambda>s. haveInfo (handles s (t_tt t)))) (\<lambda>b.
       whenE b (modifyE (DownloadAll (t_tt t))))))"

definition stopTorrent :: "string \<Rightarrow> ('z bt_scheme, unit) call" where
  "stopTorrent infohash =
     bindE (getTorrent infohash) (\<lambda>t.
     if t_State t = Dropped then throwE (Msg ''Already stopped'')
     else bindE (modifyE (Drop (t_tt t))) (\<lambda>_.
       modifyE (set_torrent (t_InfoHash t) (t\<lparr>t_State := Dropped\<rparr>))))"

definition engine_client :: "('z bt_scheme, nat) call" where
  "engine_client =
     bindE (getE (\<lambda>s. e_client (engine s))) (\<lambda>k. case k of
       None \<Rightarrow> throwE (Panic ''nil pointer dereference'') | Some k \<Rightarrow> returnE k)"

definition deleteTorrent :: "string \<Rightarrow> ('z bt_scheme, unit) call" where
  "deleteTorrent infohash =
     bindE (getTorrent infohash) (\<lambda>t.
     bindE (modifyE (upd_engine (\<lambda>e. e\<lparr>e_ts := AList.delete (t_InfoHash t) (e_ts e)\<rparr>))) (\<lambda>_.
     bindE (liftE (str2ih infohash)) (\<lambda>ih.
     bindE engine_client (\<lambda>k.
     bindE (getE (client_Torrent k ih)) (\<lambda>r. case r of
       Some tt \<Rightarrow> modifyE (Drop tt) | None \<Rightarrow> returnE ())))))"

text \<open>\<open>addMagnet\<close> (no caller): the URI is parsed by the client library, \<open>magnet\<close>.\<close>

definition addMagnet ::
  "codec \<Rightarrow> (string \<Rightarrow> (bytes \<times> string \<times> string list) result) \<Rightarrow> string \<Rightarrow> ('z bt_scheme, Torrent) call" where
  "addMagnet c magnet uri =
     bindE engine_client (\<lambda>k.
     bindE (liftE (magnet uri)) (\<lambda>(ih, dn, trackers).
     bindE (AddTorrentSpec c k ih dn None [trackers]) (\<lambda>tt.
     bindE (addTorrent tt) (\<lambda>t.
     bindE (modifyE (\<lambda>s. s\<lparr>gos := gos s @ [(t_tt t, t_InfoHash t)]\<rparr>)) (\<lambda>_.
     returnE t)))))"

text \<open>The goroutine of a start: it waits for the info, then starts the torrent; errors are logged.\<close>

definition run_goroutine :: "nat \<times> string \<Rightarrow> ('z bt_scheme, unit) call" where
  "run_goroutine g = catchE (startTorrent (snd g)) (\<lambda>_. returnE ())"

section \<open>Files\<close>

definition GetTorrentFilePath :: "BtEngine \<Rightarrow> string \<Rightarrow> string" where
  "GetTorrentFilePath e idn = Join [e_rootDir e, ''torrents'', idn @ ''.torrent'']"

definition GetFilePath :: "BtEngine \<Rightarrow> string \<Rightarrow> string" where
  "GetFilePath e idn = Join [e_rootDir e, ''data'', idn @ ''.layer'']"

definition SetDefaults :: "int \<Rightarrow> string \<Rightarrow> MetaInfo" where
  "SetDefaults now announce =
     \<lparr>mi_Info = \<lparr>i_PieceLength = 256 * 1024, i_Pieces = [], i_Name = [], i_Length = 0, i_Files = []\<rparr>,
      mi_InfoBytes = [], mi_Announce = announce, mi_AnnounceList = [], mi_CreationDate = now,
      mi_Comment = ''yoloham'', mi_CreatedBy = ''github.com/anacrolix/torrent''\<rparr>"

definition createTorrent :: "codec \<Rightarrow> string \<Rightarrow> ('z bt_scheme, unit) call" where
  "createTorrent c idn =
     bindE (getE engine) (\<lambda>e.
     bindE (case e_trackers e of [] \<Rightarrow> throwE (Panic ''index out of range'') | a # _ \<Rightarrow> returnE a) (\<lambda>announce.
     bindE (getE (\<lambda>s. SetDefaults (clock s) announce)) (\<lambda>mi.
     let f = GetFilePath e idn; tfn = GetTorrentFilePath e idn in
     bindE (wrapE (''Create torrent file for '' @ f @ '' failed'')
       (BuildFromFilePath c f ((mi_Info mi)\<lparr>i_PieceLength := 1024 * 1024\<rparr>))) (\<lambda>info.
     bindE (wrapE (''Create torrent file '' @ tfn @ '' failed'') (os_Create tfn)) (\<lambda>fh.
     wrapE (''Write torrent file '' @ tfn @ '' failed'')
       (file_Write fh (mi_write c (mi\<lparr>mi_Info := info, mi_InfoBytes := info_encode c info\<rparr>))))))))"

section \<open>Operations\<close>

definition when_started :: "('z bt_scheme, 'a) call \<Rightarrow> ('z bt_scheme, 'a) call" where
  "when_started m =
     bindE (getE (\<lambda>s. e_started (engine s))) (\<lambda>b. if b then m else throwE ErrBtEngineNotStart)"

definition engine_Started :: "'z bt_scheme \<Rightarrow> bool" where
  "engine_Started s = e_started (engine s)"

definition RootDir :: "BtEngine \<Rightarrow> string" where
  "RootDir e = e_rootDir e"

definition engine_GetTorrent :: "codec \<Rightarrow> string \<Rightarrow> ('z bt_scheme, bytes) call" where
  "engine_GetTorrent c idn = when_started (
     bindE (getE (\<lambda>s. info_of s idn)) (\<lambda>r. case r of
       None \<Rightarrow> throwE (Msg (''Get torrent for '' @ idn @ '' not founded''))
     | Some info \<Rightarrow>
         bindE (wrapE ''Get torrent for failed'' (getTorrent (ii_InfoHash info))) (\<lambda>t.
         bindE (getE (\<lambda>s. Metainfo (clock s) (handles s (t_tt t)))) (\<lambda>m.
         returnE (mi_write c m)))))"

definition status_of :: "string \<Rightarrow> Torrent \<Rightarrow> Status" where
  "status_of idn t =
     \<lparr>st_Id = idn, st_State = State_String (t_State t), st_Completed = t_Downloaded t,
      st_TotalLen = t_Size t, st_Seeding = t_Seeding t\<rparr>"

definition GetStatus :: "string \<Rightarrow> ('z bt_scheme, Status) call" where
  "GetStatus idn = when_started (
     bindE (getE (\<lambda>s. info_of s idn)) (\<lambda>r. case r of
       None \<Rightarrow> throwE ErrIdNotExist
     | Some info \<Rightarrow>
         bindE (wrapE (''Get status for '' @ idn @ '' failed'') (getTorrent (ii_InfoHash info))) (\<lambda>t.
         bindE (getE (\<lambda>s. Update s t)) (\<lambda>t.
         bindE (modifyE (set_torrent (t_InfoHash t) t)) (\<lambda>_. returnE (status_of idn t))))))"

text \<open>The map is iterated in an order of its own choosing, \<open>order\<close>.\<close>

fun all_status :: "string list \<Rightarrow> ('z bt_scheme, Status list) call" where
  "all_status [] = returnE []"
| "all_status (idn # ids) =
     bindE (getE (\<lambda>s. info_of s idn)) (\<lambda>r. case r of
       None \<Rightarrow> all_status ids
     | Some info \<Rightarrow>
         bindE (tryE (getTorrent (ii_InfoHash info))) (\<lambda>r. case r of
           Inl _ \<Rightarrow> all_status ids
         | Inr t \<Rightarrow>
             bindE (getE (\<lambda>s. Update s t)) (\<lambda>t.
             bindE (modifyE (set_torrent (t_InfoHash t) t)) (\<lambda>_.
             bindE (all_status ids) (\<lambda>ss. returnE (status_of idn t # ss))))))"

definition GetAllStatus :: "string list \<Rightarrow> ('z bt_scheme, Status list) call" where
  "GetAllStatus order = when_started (all_status order)"

definition engine_SetUploadRateLimit :: "int \<Rightarrow> ('z bt_scheme, unit) call" where
  "engine_SetUploadRateLimit upload =
     when_started (bindE engine_client (\<lambda>k. SetUploadRateLimit k upload))"

definition engine_GetUploadRateLimit :: "('z bt_scheme, int) call" where
  "engine_GetUploadRateLimit = when_started (bindE engine_client GetUploadRateLimit)"

definition engine_SetDownloadRateLimit :: "int \<Rightarrow> ('z bt_scheme, unit) call" where
  "engine_SetDownloadRateLimit download =
     when_started (bindE engine_client (\<lambda>k. SetDownloadRateLimit k download))"

definition engine_GetDownloadRateLimit :: "('z bt_scheme, int) call" where
  "engine_GetDownloadRateLimit = when_started (bindE engine_client GetDownloadRateLimit)"

text \<open>
  The end both starts share: the torrent is added to the client and to the cache, the goroutine
  is left behind, the ID is registered.
\<close>

definition register :: "codec \<Rightarrow> string \<Rightarrow> MetaInfo \<Rightarrow> ('z bt_scheme, Torrent) call" where
  "register c idn metaInfo =
     bindE engine_client (\<lambda>k.
     bindE (wrapE ''Add torrent failed'' (AddTorrent c k metaInfo)) (\<lambda>tt.
     bindE (addTorrent tt) (\<lambda>t.
     bindE (modifyE (\<lambda>s. s\<lparr>gos := gos s @ [(t_tt t, t_InfoHash t)]\<rparr>)) (\<lambda>_.
     bindE (modifyE (set_idInfo idn
       \<lparr>ii_Id = idn, ii_InfoHash = t_InfoHash t, ii_Started = True, ii_Count = 0\<rparr>)) (\<lambda>_.
     returnE t)))))"

definition StartSeed :: "codec \<Rightarrow> string \<Rightarrow> ('z bt_scheme, unit) call" where
  "StartSeed c idn = when_started (
     bindE (getE (\<lambda>s. info_of s idn)) (\<lambda>r.
     if r \<noteq> None \<and> ii_Started (the r)
     then modifyE (set_idInfo idn ((the r)\<lparr>ii_Count := ii_Count (the r) + 1\<rparr>))
     else
       bindE (getE (\<lambda>s. GetTorrentFilePath (engine s) idn)) (\<lambda>tf.
       bindE (tryE (os_Stat tf)) (\<lambda>st.
       bindE (case st of Inl _ \<Rightarrow> createTorrent c idn | Inr _ \<Rightarrow> returnE ()) (\<lambda>_.
       bindE (wrapE ''Load torrent file failed'' (LoadFromFile c tf)) (\<lambda>metaInfo.
       bindE (register c idn metaInfo) (\<lambda>_. returnE ())))))))"

definition StopTorrent :: "string \<Rightarrow> ('z bt_scheme, unit) call" where
  "StopTorrent idn = when_started (
     bindE (getE (\<lambda>s. info_of s idn)) (\<lambda>r. case r of
       None \<Rightarrow> returnE ()
     | Some info \<Rightarrow>
         if \<not> ii_Started info then returnE ()
         else
           let info = info\<lparr>ii_Count := ii_Count info - 1\<rparr> in
           bindE (modifyE (set_idInfo idn info)) (\<lambda>_.
           if ii_Count info > 0 then returnE ()
           else
             bindE (wrapE ''Stop torrent failed'' (stopTorrent (ii_InfoHash info))) (\<lambda>_.
             modifyE (set_idInfo idn (info\<lparr>ii_Started := False\<rparr>))))))"

text \<open>
  \<open>waitComplete\<close>: between two polls of the loop the environment does what it does (\<open>env\<close>). The
  fuel bounds the polls; False is a loop that is still running.
\<close>

fun waitComplete :: "('z bt_scheme \<Rightarrow> 'z bt_scheme) \<Rightarrow> nat \<Rightarrow> nat \<Rightarrow> ('z bt_scheme, bool) call" where
  "waitComplete env 0 tt = returnE False"
| "waitComplete env (Suc n) tt =
     bindE (getE (\<lambda>s. haveInfo (handles s tt) \<and> BytesCompleted (handles s tt) \<ge> torrent_Length (handles s tt))) (\<lambda>b.
     if b then returnE True else bindE (modifyE env) (\<lambda>_. waitComplete env n tt))"

definition StartLeecher ::
  "codec \<Rightarrow> ('z bt_scheme \<Rightarrow> 'z bt_scheme) \<Rightarrow> nat \<Rightarrow> string \<Rightarrow> bytes \<Rightarrow> bool \<Rightarrow> ('z bt_scheme, bool) call" where
  "StartLeecher c env fuel idn torrentData p = when_started (
     bindE (getE (\<lambda>s. info_of s idn)) (\<lambda>r.
     if r \<noteq> None \<and> ii_Started (the r)
     then bindE (modifyE (set_idInfo idn ((the r)\<lparr>ii_Count := ii_Count (the r) + 1\<rparr>))) (\<lambda>_. returnE True)
     else
       bindE (wrapE ''Load torrent file failed'' (liftE (mi_load c torrentData))) (\<lambda>metaInfo.
       bindE (register c idn metaInfo) (\<lambda>t.
       if p then waitComplete env fuel (t_tt t) else returnE True))))"

definition remove_quiet :: "string \<Rightarrow> string \<Rightarrow> ('z fs_scheme, unit) call" where
  "remove_quiet msg fn =
     catchE (os_Remove fn) (\<lambda>err. if \<not> os_IsNotExist err then throwE (Wrap msg err) else returnE ())"

definition DeleteTorrent :: "string \<Rightarrow> ('z bt_scheme, unit) call" where
  "DeleteTorrent idn = when_started (
     bindE (getE (\<lambda>s. info_of s idn)) (\<lambda>r. case r of
       None \<Rightarrow> returnE ()
     | Some info \<Rightarrow>
         if ii_Started info then throwE (Msg (''Id '' @ idn @ '' torrent is still started, stop it first''))
         else
           bindE (wrapE ''Delete torrent failed'' (deleteTorrent (ii_InfoHash info))) (\<lambda>_.
           bindE (modifyE (upd_engine (\<lambda>e. e\<lparr>e_idInfos := AList.delete idn (e_idInfos e)\<rparr>))) (\<lambda>_.
           bindE (getE (\<lambda>s. GetFilePath (engine s) idn)) (\<lambda>dfn.
           bindE (remove_quiet (''Remove data file '' @ dfn @ '' failed'') dfn) (\<lambda>_.
           bindE (getE (\<lambda>s. GetTorrentFilePath (engine s) idn)) (\<lambda>tfn.
           remove_quiet (''Remove torrent file '' @ tfn @ '' failed'') tfn)))))))"

definition GetTorrents :: "('z bt_scheme, (string \<times> Torrent) list option) call" where
  "GetTorrents =
     bindE (getE (\<lambda>s. e_client (engine s))) (\<lambda>k. case k of
       None \<Rightarrow> returnE None
     | Some _ \<Rightarrow>
         bindE (modifyE (\<lambda>s. upd_engine (\<lambda>e. e\<lparr>e_ts := map (\<lambda>(ih, t). (ih, Update s t)) (e_ts e)\<rparr>) s)) (\<lambda>_.
         getE (\<lambda>s. Some (e_ts (engine s)))))"

section \<open>Run\<close>

definition seed_file :: "codec \<Rightarrow> string \<Rightarrow> ('z bt_scheme, unit) call" where
  "seed_file c f =
     (if filepath_Ext f \<noteq> ''.layer'' then returnE ()
      else let ss = split_on dot f in
        if length ss \<noteq> 2 then returnE ()
        else
          bindE (getE (\<lambda>s. GetTorrentFilePath (engine s) (hd ss))) (\<lambda>tf.
          bindE (tryE (os_Stat tf)) (\<lambda>r. case r of
            Inl _ \<Rightarrow> returnE ()
          | Inr _ \<Rightarrow> catchE (StartSeed c (hd ss)) (\<lambda>_. returnE ()))))"

definition torrent_config :: "BtEngine \<Rightarrow> torrent_Config" where
  "torrent_config e =
     \<lparr>tc_DataDir = e_dataDir e, tc_ListenAddr = ''0.0.0.0:'' @ Itoa (IncomingPort (e_config e)),
      tc_NoUpload = (\<not> EnableUpload (e_config e)), tc_Seed = EnableSeeding (e_config e),
      tc_DisableEncryption = DisableEncryption (e_config e), tc_DisableUTP = True,
      tc_UploadRateLimit = 0, tc_DownloadRateLimit = 0\<rparr>"

definition mkdir_failed :: "unit result \<Rightarrow> bool" where
  "mkdir_failed r = (case r of Inl err \<Rightarrow> \<not> os_IsExist err | Inr _ \<Rightarrow> False)"

definition Run :: "codec \<Rightarrow> ('z bt_scheme, unit) call" where
  "Run c =
     bindE (getE engine) (\<lambda>e.
     bindE (tryE (os_MkdirAll (e_dataDir e))) (\<lambda>r1.
     if mkdir_failed r1 then returnE () else
     bindE (tryE (os_MkdirAll (e_torrentDir e))) (\<lambda>r2.
     if mkdir_failed r2 then returnE () else
     bindE (case e_client e of Some k \<Rightarrow> modifyE (client_Close k) | None \<Rightarrow> returnE ()) (\<lambda>_.
     if IncomingPort (e_config e) \<le> 0
     then throwE (Msg (''Invalid incoming port ('' @ Itoa (IncomingPort (e_config e)) @ '')'')) else
     bindE (NewClient (torrent_config e)) (\<lambda>k.
     bindE (modifyE (upd_engine (\<lambda>e. e\<lparr>e_client := Some k, e_started := True\<rparr>))) (\<lambda>_.
     bindE (ioutil_ReadDir (e_dataDir e)) (\<lambda>files.
     forE files (seed_file c))))))))"

section \<open>The engine's invariant\<close>

text \<open>
  A cached torrent sits under the hash of its handle, the client's table leads to handles of its
  own, and an ID is registered under a hash some handle has, so that a stored hash can always be
  parsed. (That the hash of a registered ID is in the cache is no invariant: two IDs with one
  hash share the entry, and deleting one removes it.)
\<close>

definition tor_ok :: "'z net_scheme \<Rightarrow> Torrent \<Rightarrow> bool" where
  "tor_ok s t \<longleftrightarrow> t_tt t < next_handle s \<and> HexString (h_hash (handles s (t_tt t))) = t_InfoHash t"

definition hash_known :: "'z net_scheme \<Rightarrow> string \<Rightarrow> bool" where
  "hash_known s ih \<longleftrightarrow> (\<exists>h < next_handle s. ih = HexString (h_hash (handles s h)))"

definition handles_ok :: "'z net_scheme \<Rightarrow> bool" where
  "handles_ok s \<longleftrightarrow>
     (\<forall>h < next_handle s. length (h_hash (handles s h)) = 20) \<and>
     (\<forall>k ih h. client_Torrent k ih s = Some h \<longrightarrow>
        h < next_handle s \<and> h_hash (handles s h) = ih \<and> h_client (handles s h) = k)"

definition bt_inv :: "'z bt_scheme \<Rightarrow> bool" where
  "bt_inv s \<longleftrightarrow> handles_ok s \<and>
     (\<forall>ih t. torrent_of s ih = Some t \<longrightarrow> t_InfoHash t = ih \<and> tor_ok s t) \<and>
     (\<forall>idn i. info_of s idn = Some i \<longrightarrow> ii_Id i = idn \<and> hash_known s (ii_InfoHash i)) \<and>
     (\<forall>g \<in> set (gos s). hash_known s (snd g)) \<and>
     (e_started (engine s) \<longrightarrow> e_client (engine s) \<noteq> None)"

lemma str2ih_HexString [simp]: "length h = 20 \<Longrightarrow> str2ih (HexString h) = Inr h"
  by (simp add: str2ih_def HexString_def hex_Decode_encode)

lemma hash_known_parse: "handles_ok s \<Longrightarrow> hash_known s ih \<Longrightarrow> \<exists>h. length h = 20 \<and> ih = HexString h \<and> str2ih ih = Inr h"
  by (auto simp: handles_ok_def hash_known_def)

text \<open>The engine's part of the state is what no file system call touches.\<close>

lemma more_eqD:
  fixes s t :: "'z bt_scheme"
  assumes "fs.more s = fs.more t"
  shows "handles s = handles t" "next_handle s = next_handle t" "clients s = clients t"
    "engine s = engine t" "gos s = gos t" "clock s = clock t" "next_client s = next_client t"
  using assms by (cases s; cases t; simp)+

lemma bt_inv_more:
  fixes s t :: "'z bt_scheme"
  assumes "fs.more s = fs.more t"
  shows "bt_inv s = bt_inv t"
  using more_eqD [OF assms]
  by (simp add: bt_inv_def handles_ok_def tor_ok_def hash_known_def client_Torrent_def)

lemma keeps_bt_inv_fs:
  fixes m :: "('z bt_scheme, 'v) call"
  assumes "\<And>M. keeps (\<lambda>s. fs.more s = M) m"
  shows "keeps bt_inv m"
proof (rule tripleI)
  fix s :: "'z bt_scheme"
  assume s: "bt_inv s"
  have "fs.more (snd (m s)) = fs.more s" by (rule keepsD [OF assms]) (rule refl)
  then have "bt_inv (snd (m s))" using bt_inv_more s by blast
  then show "case m s of (Inl e, s') \<Rightarrow> bt_inv s' | (Inr x, s') \<Rightarrow> bt_inv s'"
    by (auto split: prod.splits sum.splits)
qed

lemma bt_inv_fs [keep]:
  "keeps bt_inv (os_Stat p)" "keeps bt_inv (os_Create p)" "keeps bt_inv (file_Write i bs)"
  "keeps bt_inv (ioutil_ReadFile p)" "keeps bt_inv (os_Remove p)" "keeps bt_inv (os_MkdirAll p)"
  "keeps bt_inv (ioutil_ReadDir p)"
  by (intro keeps_bt_inv_fs keep)+

lemma BuildFromFilePath_more [keep]: "keeps (\<lambda>s. fs.more s = M) (BuildFromFilePath c root i)"
  unfolding BuildFromFilePath_def Let_def
  by (rule keeps_bind, intro keep, split node.split) (auto intro!: keep)

lemma bt_inv_files [keep]:
  "keeps bt_inv (BuildFromFilePath c root i)" "keeps bt_inv (LoadFromFile c f)" "keeps bt_inv (remove_quiet m f)"
  unfolding LoadFromFile_def remove_quiet_def by (intro keeps_bt_inv_fs keep)+

text \<open>Updates that leave the hash and the client of every handle alone.\<close>

lemma upd_handle_simps [simp]:
  "handles (upd_handle h f s) = (handles s)(h := f (handles s h))"
  "next_handle (upd_handle h f s) = next_handle s" "clients (upd_handle h f s) = clients s"
  "engine (upd_handle h f u) = engine u" "gos (upd_handle h f u) = gos u"
  "client_Torrent k ih (upd_handle h f s) = client_Torrent k ih s"
  by (simp_all add: upd_handle_def client_Torrent_def)

lemma upd_client_simps [simp]:
  "handles (upd_client k g s) = handles s" "next_handle (upd_client k g s) = next_handle s"
  "clients (upd_client k g s) = (clients s)(k := g (clients s k))"
  "engine (upd_client k g u) = engine u" "gos (upd_client k g u) = gos u"
  by (simp_all add: upd_client_def)

lemma upd_engine_simps [simp]:
  "handles (upd_engine f s) = handles s" "next_handle (upd_engine f s) = next_handle s"
  "clients (upd_engine f s) = clients s" "engine (upd_engine f s) = f (engine s)"
  "gos (upd_engine f s) = gos s" "client_Torrent k ih (upd_engine f s) = client_Torrent k ih s"
  by (simp_all add: upd_engine_def client_Torrent_def)

lemma set_torrent_simps [simp]:
  "handles (set_torrent ih t s) = handles s" "next_handle (set_torrent ih t s) = next_handle s"
  "clients (set_torrent ih t s) = clients s" "gos (set_torrent ih t s) = gos s"
  "client_Torrent k x (set_torrent ih t s) = client_Torrent k x s"
  "torrent_of (set_torrent ih t s) = (torrent_of s)(ih \<mapsto> t)" "info_of (set_torrent ih t s) = info_of s"
  "e_started (engine (set_torrent ih t s)) = e_started (engine s)"
  "e_client (engine (set_torrent ih t s)) = e_client (engine s)"
  by (simp_all add: set_torrent_def update_conv')

lemma set_idInfo_simps [simp]:
  "handles (set_idInfo idn i s) = handles s" "next_handle (set_idInfo idn i s) = next_handle s"
  "clients (set_idInfo idn i s) = clients s" "gos (set_idInfo idn i s) = gos s"
  "client_Torrent k x (set_idInfo idn i s) = client_Torrent k x s"
  "torrent_of (set_idInfo idn i s) = torrent_of s" "info_of (set_idInfo idn i s) = (info_of s)(idn \<mapsto> i)"
  "e_started (engine (set_idInfo idn i s)) = e_started (engine s)"
  "e_client (engine (set_idInfo idn i s)) = e_client (engine s)"
  by (simp_all add: set_idInfo_def update_conv')

lemma keep_ids:
  fixes s :: "'z net_scheme"
  assumes "\<And>t. h_hash (f t) = h_hash t" "\<And>t. h_client (f t) = h_client t"
  shows "handles_ok (upd_handle h f s) = handles_ok s" "tor_ok (upd_handle h f s) = tor_ok s"
    "hash_known (upd_handle h f s) = hash_known s"
proof -
  have "h_hash (((handles s)(h := f (handles s h))) x) = h_hash (handles s x)"
    "h_client (((handles s)(h := f (handles s h))) x) = h_client (handles s x)" for x
    using assms by simp_all
  then show "handles_ok (upd_handle h f s) = handles_ok s" "tor_ok (upd_handle h f s) = tor_ok s"
    "hash_known (upd_handle h f s) = hash_known s"
    by (simp_all only: handles_ok_def tor_ok_def hash_known_def upd_handle_simps fun_eq_iff simp_thms)
qed

lemma bt_inv_upd_handle:
  "(\<And>t. h_hash (f t) = h_hash t) \<Longrightarrow> (\<And>t. h_client (f t) = h_client t) \<Longrightarrow>
   bt_inv (upd_handle h f s) = bt_inv s"
  by (simp add: bt_inv_def keep_ids)

lemma bt_inv_drop_entry:
  "bt_inv s \<Longrightarrow> bt_inv (upd_client k (\<lambda>cl. cl\<lparr>cl_torrents := AList.delete ih (cl_torrents cl)\<rparr>) s)"
  unfolding bt_inv_def handles_ok_def
  by (auto simp: client_Torrent_def delete_conv' tor_ok_def hash_known_def split: if_splits)

lemma bt_inv_Drop: "bt_inv s \<Longrightarrow> bt_inv (Drop h s)"
  by (auto simp: Drop_def dropTorrent_def bt_inv_upd_handle close_torrent_def split: option.splits
      intro!: bt_inv_drop_entry)

lemma Drop_simps [simp]:
  "engine (Drop h u) = engine u" "gos (Drop h u) = gos u" "next_handle (Drop h s) = next_handle s"
  by (simp_all add: Drop_def dropTorrent_def split: option.splits)

lemma hash_upd [simp]: "h_hash (close_torrent t) = h_hash t" "h_client (close_torrent t) = h_client t"
  by (simp_all add: close_torrent_def)

lemma bt_inv_set_torrent:
  "bt_inv s \<Longrightarrow> tor_ok s t \<Longrightarrow> t_InfoHash t = ih \<Longrightarrow> bt_inv (set_torrent ih t s)"
  unfolding bt_inv_def handles_ok_def
  by (auto simp: tor_ok_def hash_known_def)

lemma bt_inv_set_idInfo:
  "bt_inv s \<Longrightarrow> hash_known s (ii_InfoHash i) \<Longrightarrow> ii_Id i = idn \<Longrightarrow> bt_inv (set_idInfo idn i s)"
  unfolding bt_inv_def handles_ok_def
  by (auto simp: tor_ok_def hash_known_def)

lemma tor_ok_known: "tor_ok s t \<Longrightarrow> hash_known s (t_InfoHash t)"
  by (auto simp: tor_ok_def hash_known_def)

lemma Update_simps [simp]:
  "t_InfoHash (Update s t) = t_InfoHash t" "t_tt (Update s t) = t_tt t" "t_State (Update s t) = t_State t"
  by (simp_all add: Update_def Let_def)

lemma tor_ok_Update [simp]: "tor_ok s (Update u t) = tor_ok s t"
  by (simp add: tor_ok_def)

text \<open>A known hash is always parsed; the answer is the cached torrent.\<close>

lemma getTorrent_known:
  "handles_ok s \<Longrightarrow> hash_known s ih \<Longrightarrow>
   getTorrent ih s = (case torrent_of s ih of
     None \<Rightarrow> (Inl (Msg (''Missing torrent '' @ ih)), s) | Some t \<Rightarrow> (Inr t, s))"
  by (auto simp: getTorrent_def run dest!: hash_known_parse split: option.splits)

lemma getTorrent_triple:
  "triple (\<lambda>s. bt_inv s \<and> hash_known s ih) (getTorrent ih)
     (\<lambda>t s. bt_inv s \<and> tor_ok s t \<and> t_InfoHash t = ih \<and> torrent_of s ih = Some t)
     (\<lambda>x s. bt_inv s \<and> \<not> is_panic x)"
  by (rule tripleI) (auto simp: getTorrent_known bt_inv_def split: option.splits)

section \<open>Every operation keeps the invariant\<close>

lemma bt_inv_get_known:
  "bt_inv s \<Longrightarrow> info_of s idn = Some i \<Longrightarrow> hash_known s (ii_InfoHash i)"
  by (auto simp: bt_inv_def)

lemma bt_inv_torrent: "bt_inv s \<Longrightarrow> torrent_of s ih = Some t \<Longrightarrow> t_InfoHash t = ih \<and> tor_ok s t"
  by (auto simp: bt_inv_def)

lemma hash_Drop [simp]:
  "h_hash (handles (Drop h s) x) = h_hash (handles s x)" "hash_known (Drop h s) = hash_known s"
  "tor_ok (Drop h s) = tor_ok s"
proof -
  show *: "h_hash (handles (Drop h s) x) = h_hash (handles s x)" for x
    by (simp add: Drop_def dropTorrent_def split: option.splits)
  show "hash_known (Drop h s) = hash_known s" "tor_ok (Drop h s) = tor_ok s"
    by (simp_all add: hash_known_def tor_ok_def fun_eq_iff *)
qed

lemma tor_ok_simps [simp]:
  "hash_known (set_torrent ih t s) = hash_known s" "hash_known (set_idInfo idn i s) = hash_known s"
  "hash_known (upd_engine f s) = hash_known s"
  "tor_ok (set_torrent ih t s) = tor_ok s" "tor_ok (set_idInfo idn i s) = tor_ok s"
  "tor_ok u (t\<lparr>t_State := x\<rparr>) = tor_ok u t"
  by (simp_all add: hash_known_def tor_ok_def fun_eq_iff)

lemma DownloadAll_inv: "bt_inv s \<Longrightarrow> bt_inv (DownloadAll h s)"
  by (simp add: DownloadAll_def bt_inv_upd_handle)

lemma DownloadAll_simps [simp]:
  "engine (DownloadAll h u) = engine u" "gos (DownloadAll h u) = gos u" "next_handle (DownloadAll h s) = next_handle s"
  by (simp_all add: DownloadAll_def)

lemma startTorrent_triple:
  "triple (\<lambda>s. bt_inv s \<and> hash_known s ih) (startTorrent ih) (\<lambda>_. bt_inv) (\<lambda>x s. bt_inv s \<and> \<not> is_panic x)"
  unfolding startTorrent_def
  by (rule triple_bind [OF getTorrent_triple])
    (auto simp: triple_def run whenE_def intro!: bt_inv_set_torrent DownloadAll_inv
      split: prod.splits sum.splits)

lemma stopTorrent_triple:
  "triple (\<lambda>s. bt_inv s \<and> hash_known s ih) (stopTorrent ih) (\<lambda>_. bt_inv) (\<lambda>x s. bt_inv s \<and> \<not> is_panic x)"
  unfolding stopTorrent_def
  by (rule triple_bind [OF getTorrent_triple])
    (auto simp: triple_def run intro!: bt_inv_set_torrent bt_inv_Drop split: prod.splits sum.splits)

lemma run_goroutine_triple:
  "triple (\<lambda>s. bt_inv s \<and> hash_known s (snd g)) (run_goroutine g) (\<lambda>_. bt_inv) (\<lambda>_ _. False)"
  unfolding run_goroutine_def
  by (rule triple_catch [where H = "\<lambda>_. bt_inv"])
    (auto intro: triple_return triple_weaken [OF startTorrent_triple])

lemma StopTorrent_triple:
  "triple bt_inv (StopTorrent idn) (\<lambda>_. bt_inv) (\<lambda>x s. bt_inv s \<and> \<not> is_panic x)"
proof (rule tripleI)
  fix s :: "'a bt_scheme" assume inv: "bt_inv s"
  show "case StopTorrent idn s of (Inl x, s') \<Rightarrow> bt_inv s' \<and> \<not> is_panic x | (Inr u, s') \<Rightarrow> bt_inv s'"
  proof (cases "info_of s idn")
    case None
    then show ?thesis using inv by (simp add: StopTorrent_def when_started_def run)
  next
    case (Some i)
    let ?i = "i\<lparr>ii_Count := ii_Count i - 1\<rparr>" let ?s = "set_idInfo idn ?i s"
    have known: "hash_known s (ii_InfoHash i)" and id_eq: "ii_Id i = idn"
      using inv Some by (auto simp: bt_inv_def)
    then have inv': "bt_inv ?s" using inv by (intro bt_inv_set_idInfo) auto
    have known': "hash_known ?s (ii_InfoHash i)" using known by (simp add: hash_known_def)
    have stop: "triple (\<lambda>s. bt_inv s \<and> hash_known s (ii_InfoHash i))
        (wrapE ''Stop torrent failed'' (stopTorrent (ii_InfoHash i)))
        (\<lambda>_ s. bt_inv s \<and> hash_known s (ii_InfoHash i)) (\<lambda>x s. bt_inv s \<and> \<not> is_panic x)"
    proof -
      have "keeps (\<lambda>s. hash_known s ih) (stopTorrent ih')" for ih ih'
        unfolding stopTorrent_def getTorrent_def
        by (intro keep) auto
      then have "triple (\<lambda>s. (bt_inv s \<and> hash_known s (ii_InfoHash i)) \<and> hash_known s (ii_InfoHash i))
          (stopTorrent (ii_InfoHash i))
          (\<lambda>_ s. bt_inv s \<and> hash_known s (ii_InfoHash i)) (\<lambda>x s. (bt_inv s \<and> \<not> is_panic x) \<and> hash_known s (ii_InfoHash i))"
        using triple_conj [OF stopTorrent_triple] by blast
      then show ?thesis
        unfolding wrapE_def
        by (intro triple_catch [where H = "\<lambda>_. bt_inv"]) (auto intro: triple_throw elim: triple_weaken)
    qed
    have "triple (\<lambda>s. bt_inv s \<and> hash_known s (ii_InfoHash i))
        (bindE (wrapE ''Stop torrent failed'' (stopTorrent (ii_InfoHash i)))
           (\<lambda>_. modifyE (set_idInfo idn (?i\<lparr>ii_Started := False\<rparr>))))
        (\<lambda>_. bt_inv) (\<lambda>x s. bt_inv s \<and> \<not> is_panic x)"
      by (rule triple_bind [OF stop]) (auto intro!: triple_modify bt_inv_set_idInfo simp: id_eq)
    then show ?thesis
      using inv inv' known' Some
      by (auto simp: StopTorrent_def when_started_def run triple_def Let_def)
  qed
qed

lemma addTorrent_triple:
  "triple (\<lambda>s. bt_inv s \<and> tt < next_handle s) (addTorrent tt)
     (\<lambda>t s. bt_inv s \<and> tor_ok s t) (\<lambda>_ _. False)"
proof (rule tripleI)
  fix s :: "'a bt_scheme" assume s: "bt_inv s \<and> tt < next_handle s"
  let ?ih = "HexString (h_hash (handles s tt))"
  let ?t = "Update s (case torrent_of s ?ih of Some t \<Rightarrow> t
         | None \<Rightarrow> \<lparr>t_InfoHash = ?ih, t_Name = torrent_name (handles s tt), t_tt = tt, t_State = 0,
              t_Loaded = False, t_Seeding = False, t_Size = 0, t_Downloaded = 0\<rparr>)"
  have "tor_ok s ?t \<and> t_InfoHash ?t = ?ih"
    using s by (auto simp: tor_ok_def dest: bt_inv_torrent split: option.splits)
  then show "case addTorrent tt s of (Inl e, s') \<Rightarrow> False | (Inr t, s') \<Rightarrow> bt_inv s' \<and> tor_ok s' t"
    using s bt_inv_set_torrent [of s ?t ?ih]
    by (simp add: addTorrent_def run Let_def tor_ok_def)
qed

lemma bt_inv_new_handle:
  assumes "bt_inv s" "length ih = 20"
  shows "bt_inv (s\<lparr>handles := (handles s)(next_handle s := newTorrent k ih), next_handle := Suc (next_handle s)\<rparr>)"
proof -
  let ?s = "s\<lparr>handles := (handles s)(next_handle s := newTorrent k ih), next_handle := Suc (next_handle s)\<rparr>"
  have hk: "hash_known ?s x" if "hash_known s x" for x
  proof -
    obtain h where "h < next_handle s" "x = HexString (h_hash (handles s h))"
      using \<open>hash_known s x\<close> by (auto simp: hash_known_def)
    then have "h < next_handle ?s \<and> x = HexString (h_hash (handles ?s h))" by simp
    then show ?thesis unfolding hash_known_def by blast
  qed
  have tk: "tor_ok s t \<Longrightarrow> tor_ok ?s t" for t
    by (simp add: tor_ok_def)
  have ho: "handles_ok ?s"
    using assms unfolding bt_inv_def handles_ok_def
    by (auto simp: newTorrent_def client_Torrent_def less_Suc_eq)
  show ?thesis using assms(1) hk tk ho unfolding bt_inv_def by auto
qed

lemma AddTorrentInfoHash_triple:
  "triple (\<lambda>s. bt_inv s \<and> length ih = 20) (AddTorrentInfoHash k ih)
     (\<lambda>h s. bt_inv s \<and> h < next_handle s) (\<lambda>_ _. False)"
proof (rule tripleI)
  fix s :: "'a bt_scheme" assume s: "bt_inv s \<and> length ih = 20"
  show "case AddTorrentInfoHash k ih s of (Inl e, s') \<Rightarrow> False | (Inr h, s') \<Rightarrow> bt_inv s' \<and> h < next_handle s'"
  proof (cases "client_Torrent k ih s")
    case (Some h)
    then show ?thesis using s by (auto simp: AddTorrentInfoHash_def run bt_inv_def handles_ok_def)
  next
    case None
    let ?s = "s\<lparr>handles := (handles s)(next_handle s := newTorrent k ih), next_handle := Suc (next_handle s)\<rparr>"
    let ?t = "upd_client k (\<lambda>cl. cl\<lparr>cl_torrents := AList.update ih (next_handle s) (cl_torrents cl)\<rparr>) ?s"
    have inv: "bt_inv ?s" using s by (intro bt_inv_new_handle) auto
    have "client_Torrent j x ?t = (if j = k \<and> x = ih then Some (next_handle s) else client_Torrent j x s)" for j x
      by (simp add: client_Torrent_def update_conv')
    then have "handles_ok ?t"
      using inv unfolding bt_inv_def handles_ok_def
      by (auto simp: newTorrent_def client_Torrent_def)
    then have "bt_inv ?t"
      using inv unfolding bt_inv_def by (simp add: tor_ok_def hash_known_def)
    then show ?thesis using None by (simp add: AddTorrentInfoHash_def run)
  qed
qed

lemma setInfoBytes_triple:
  "triple (\<lambda>s. bt_inv s \<and> h < next_handle s) (setInfoBytes c h b)
     (\<lambda>_ s. bt_inv s \<and> h < next_handle s) (\<lambda>_. bt_inv)"
proof (rule tripleI)
  fix s :: "'a bt_scheme" assume s: "bt_inv s \<and> h < next_handle s"
  have "keeps bt_inv (setInfoBytes c h b :: ('a bt_scheme, unit) call)"
    unfolding setInfoBytes_def by (intro keep) (simp add: bt_inv_upd_handle)
  moreover have "keeps (\<lambda>s. h < next_handle s) (setInfoBytes c h b :: ('a bt_scheme, unit) call)"
    unfolding setInfoBytes_def by (intro keep) simp
  ultimately show "case setInfoBytes c h b s of (Inl e, s') \<Rightarrow> bt_inv s'
      | (Inr x, s') \<Rightarrow> bt_inv s' \<and> h < next_handle s'"
    using s by (fastforce simp: triple_def split: prod.splits sum.splits)
qed

lemma setDisplayName_hash [simp]:
  "h_hash (setDisplayName dn t) = h_hash t" "h_client (setDisplayName dn t) = h_client t"
  "h_hash (addTrackers al t) = h_hash t" "h_client (addTrackers al t) = h_client t"
  by (simp_all add: setDisplayName_def addTrackers_def)

lemma AddTorrentSpec_triple:
  "triple (\<lambda>s. bt_inv s \<and> length ih = 20) (AddTorrentSpec c k ih dn info trackers)
     (\<lambda>h s. bt_inv s \<and> h < next_handle s) (\<lambda>_. bt_inv)"
proof -
  let ?P = "\<lambda>h s. bt_inv s \<and> h < next_handle s"
  have 1: "triple (\<lambda>s. bt_inv s \<and> length ih = 20) (AddTorrentInfoHash k ih) ?P (\<lambda>_. bt_inv)"
    by (rule triple_weaken [OF AddTorrentInfoHash_triple]) auto
  have 2: "triple (?P h) (modifyE (upd_handle h f)) (\<lambda>_. ?P h) (\<lambda>_. bt_inv)"
    if "\<And>t. h_hash (f t) = h_hash t" "\<And>t. h_client (f t) = h_client t" for h f
    using that by (auto intro!: triple_modify simp: bt_inv_upd_handle)
  have 3: "triple (?P h) (case info of None \<Rightarrow> returnE () | Some b \<Rightarrow> setInfoBytes c h b) (\<lambda>_. ?P h) (\<lambda>_. bt_inv)" for h
    by (cases info) (auto intro: triple_return setInfoBytes_triple)
  show ?thesis
    unfolding AddTorrentSpec_def
    by (rule triple_bind [OF 1], rule triple_bind [OF triple_when [OF 2]], simp_all,
        rule triple_bind [OF 3], rule triple_bind [OF 2]) (auto intro: triple_return)
qed

lemma register_triple:
  assumes "codec_laws c"
  shows "triple bt_inv (register c idn m) (\<lambda>t s. bt_inv s \<and> tor_ok s t) (\<lambda>_. bt_inv)"
proof -
  let ?P = "\<lambda>t s. bt_inv s \<and> tor_ok s t"
  have 0: "length (info_hash c m) = 20" using assms by (simp add: codec_laws_def info_hash_def)
  have 1: "triple bt_inv engine_client (\<lambda>_. bt_inv) (\<lambda>_. bt_inv)"
    unfolding engine_client_def by (intro keep)
  have 2: "triple bt_inv (wrapE ''Add torrent failed'' (AddTorrent c k m)) (\<lambda>h s. bt_inv s \<and> h < next_handle s) (\<lambda>_. bt_inv)" for k
    unfolding wrapE_def AddTorrent_def Let_def
    by (rule triple_catch [where H = "\<lambda>_. bt_inv"], rule triple_weaken [OF AddTorrentSpec_triple])
      (auto simp: 0 intro: triple_throw)
  have 3: "triple (\<lambda>s. bt_inv s \<and> h < next_handle s) (addTorrent h) ?P (\<lambda>_. bt_inv)" for h
    by (rule triple_weaken [OF addTorrent_triple]) auto
  have 4: "triple (?P t) (modifyE (\<lambda>s. s\<lparr>gos := gos s @ [(t_tt t, t_InfoHash t)]\<rparr>)) (\<lambda>_. ?P t) (\<lambda>_. bt_inv)" for t
  proof (rule triple_modify, goal_cases)
    case (1 s)
    have "handles_ok (s\<lparr>gos := x\<rparr>) = handles_ok s" "tor_ok (s\<lparr>gos := x\<rparr>) = tor_ok s"
      "hash_known (s\<lparr>gos := x\<rparr>) = hash_known s" for x
      by (simp_all add: handles_ok_def tor_ok_def hash_known_def client_Torrent_def fun_eq_iff)
    then show ?case using 1 tor_ok_known [of s t] by (auto simp: bt_inv_def)
  qed
  have 5: "triple (?P t) (modifyE (set_idInfo idn \<lparr>ii_Id = idn, ii_InfoHash = t_InfoHash t, ii_Started = True, ii_Count = 0\<rparr>))
      (\<lambda>_. ?P t) (\<lambda>_. bt_inv)" for t
    by (rule triple_modify) (auto intro!: bt_inv_set_idInfo intro: tor_ok_known)
  show ?thesis
    unfolding register_def
    by (rule triple_bind [OF 1], rule triple_bind [OF 2], rule triple_bind [OF 3], rule triple_bind [OF 4],
        rule triple_bind [OF 5]) (auto intro: triple_return)
qed

lemma when_started_triple:
  "triple bt_inv m Q (\<lambda>_. bt_inv) \<Longrightarrow> triple bt_inv (when_started m) Q (\<lambda>_. bt_inv)"
  unfolding when_started_def
  by (rule triple_bind [where M = "\<lambda>_. bt_inv"]) (auto intro: triple_get triple_throw)

lemma createTorrent_inv [keep]: "keeps bt_inv (createTorrent c idn)"
proof -
  have 1: "keeps bt_inv (case e_trackers e of [] \<Rightarrow> throwE (Panic ''index out of range'') | a # _ \<Rightarrow> returnE a)" for e
    by (cases "e_trackers e") (auto intro: keep)
  show ?thesis unfolding createTorrent_def Let_def by (intro keep 1)
qed

lemma count_up_inv:
  "bt_inv s \<Longrightarrow> info_of s idn = Some i \<Longrightarrow> bt_inv (set_idInfo idn (i\<lparr>ii_Count := n\<rparr>) s)"
  by (rule bt_inv_set_idInfo) (auto simp: bt_inv_def)

lemma StartSeed_inv [keep]:
  assumes "codec_laws c"
  shows "keeps bt_inv (StartSeed c idn)"
  unfolding StartSeed_def
proof (rule when_started_triple, rule triple_bind [where M = "\<lambda>r s. bt_inv s \<and> info_of s idn = r"], goal_cases)
  case 1
  show ?case by (rule triple_get) auto
next
  case (2 r)
  have reg: "triple bt_inv (register c idn m) (\<lambda>_. bt_inv) (\<lambda>_. bt_inv)" for m
    by (rule triple_weaken [OF register_triple [OF assms]]) auto
  have st: "keeps bt_inv (case st of Inl _ \<Rightarrow> createTorrent c idn | Inr _ \<Rightarrow> returnE ())" for st :: "node result"
    by (cases st) (auto intro: keep)
  have go: "keeps bt_inv (bindE (getE (\<lambda>s. GetTorrentFilePath (engine s) idn)) (\<lambda>tf.
       bindE (tryE (os_Stat tf)) (\<lambda>st.
       bindE (case st of Inl _ \<Rightarrow> createTorrent c idn | Inr _ \<Rightarrow> returnE ()) (\<lambda>_.
       bindE (wrapE ''Load torrent file failed'' (LoadFromFile c tf)) (\<lambda>metaInfo.
       bindE (register c idn metaInfo) (\<lambda>_. returnE ()))))))"
    by (intro keep st reg)
  show ?case
    by (intro triple_if triple_modify triple_pre [OF go]) (auto intro: count_up_inv)
qed

lemma waitComplete_inv:
  "(\<And>s. bt_inv s \<Longrightarrow> bt_inv (env s)) \<Longrightarrow> keeps bt_inv (waitComplete env n tt)"
  by (induction n) (auto intro!: keep)

lemma StartLeecher_inv [keep]:
  assumes "codec_laws c" and env: "\<And>s. bt_inv s \<Longrightarrow> bt_inv (env s)"
  shows "keeps bt_inv (StartLeecher c env fuel idn d p)"
  unfolding StartLeecher_def
proof (rule when_started_triple, rule triple_bind [where M = "\<lambda>r s. bt_inv s \<and> info_of s idn = r"], goal_cases)
  case 1
  show ?case by (rule triple_get) auto
next
  case (2 r)
  have reg: "triple bt_inv (register c idn m) (\<lambda>_. bt_inv) (\<lambda>_. bt_inv)" for m
    by (rule triple_weaken [OF register_triple [OF assms(1)]]) auto
  have go: "keeps bt_inv (bindE (wrapE ''Load torrent file failed'' (liftE (mi_load c d))) (\<lambda>metaInfo.
       bindE (register c idn metaInfo) (\<lambda>t.
       if p then waitComplete env fuel (t_tt t) else returnE True)))"
    by (intro keep reg waitComplete_inv env)
  have up: "triple (\<lambda>s. bt_inv s \<and> info_of s idn = r)
      (bindE (modifyE (set_idInfo idn ((the r)\<lparr>ii_Count := ii_Count (the r) + 1\<rparr>))) (\<lambda>_. returnE True))
      (\<lambda>_. bt_inv) (\<lambda>_. bt_inv)" if "r \<noteq> None"
    using that by (intro triple_bind [where M = "\<lambda>_. bt_inv"] triple_modify triple_return) (auto intro: count_up_inv)
  show ?case
    by (intro triple_if triple_pre [OF go] up) auto
qed

lemma bt_inv_delete_torrent:
  "bt_inv s \<Longrightarrow> bt_inv (upd_engine (\<lambda>e. e\<lparr>e_ts := AList.delete ih (e_ts e)\<rparr>) s)"
  unfolding bt_inv_def handles_ok_def
  by (auto simp: delete_conv' tor_ok_def hash_known_def split: if_splits)

lemma bt_inv_delete_id:
  "bt_inv s \<Longrightarrow> bt_inv (upd_engine (\<lambda>e. e\<lparr>e_idInfos := AList.delete idn (e_idInfos e)\<rparr>) s)"
  unfolding bt_inv_def handles_ok_def
  by (auto simp: delete_conv' tor_ok_def hash_known_def split: if_splits)

lemma deleteTorrent_triple:
  "triple (\<lambda>s. bt_inv s \<and> hash_known s ih \<and> e_client (engine s) \<noteq> None) (deleteTorrent ih)
     (\<lambda>_. bt_inv) (\<lambda>x s. bt_inv s \<and> \<not> is_panic x)"
proof (rule tripleI)
  fix s :: "'a bt_scheme" assume s: "bt_inv s \<and> hash_known s ih \<and> e_client (engine s) \<noteq> None"
  obtain h where h: "length h = 20" "ih = HexString h" "str2ih ih = Inr h"
    using s hash_known_parse [of s ih] unfolding bt_inv_def by blast
  obtain k where k: "e_client (engine s) = Some k" using s by blast
  let ?s = "upd_engine (\<lambda>e. e\<lparr>e_ts := AList.delete ih (e_ts e)\<rparr>) s"
  have inv: "bt_inv ?s" using s by (intro bt_inv_delete_torrent) simp
  show "case deleteTorrent ih s of (Inl x, s') \<Rightarrow> bt_inv s' \<and> \<not> is_panic x | (Inr u, s') \<Rightarrow> bt_inv s'"
  proof (cases "torrent_of s ih")
    case None
    then have "getTorrent ih s = (Inl (Msg (''Missing torrent '' @ ih)), s)"
      using s by (simp add: getTorrent_known bt_inv_def)
    then show ?thesis using s by (simp add: deleteTorrent_def)
  next
    case (Some t)
    then have g: "getTorrent ih s = (Inr t, s)" and ti: "t_InfoHash t = ih"
      using s by (auto simp: getTorrent_known bt_inv_def)
    have "deleteTorrent ih s = (Inr (), case client_Torrent k h ?s of Some tt \<Rightarrow> Drop tt ?s | None \<Rightarrow> ?s)"
      using k by (simp add: deleteTorrent_def g ti h(3) run engine_client_def split: option.split)
    then show ?thesis using inv by (auto intro: bt_inv_Drop split: option.splits)
  qed
qed

lemma DeleteTorrent_inv [keep]: "keeps bt_inv (DeleteTorrent idn)"
proof (rule keepsI)
  fix s :: "'a bt_scheme" assume inv: "bt_inv s"
  show "bt_inv (snd (DeleteTorrent idn s))"
  proof (cases "e_started (engine s) \<and> info_of s idn \<noteq> None \<and> \<not> ii_Started (the (info_of s idn))")
    case False
    then show ?thesis
      using inv by (auto simp: DeleteTorrent_def when_started_def run split: option.split)
  next
    case True
    then obtain i where i: "info_of s idn = Some i" "\<not> ii_Started i" and st: "e_started (engine s)" by auto
    have del: "triple (\<lambda>s. bt_inv s \<and> hash_known s (ii_InfoHash i) \<and> e_client (engine s) \<noteq> None)
        (wrapE ''Delete torrent failed'' (deleteTorrent (ii_InfoHash i))) (\<lambda>_. bt_inv) (\<lambda>_. bt_inv)"
      unfolding wrapE_def
      by (rule triple_catch [where H = "\<lambda>_. bt_inv"], rule triple_weaken [OF deleteTorrent_triple])
        (auto intro: triple_throw)
    have rest: "keeps bt_inv (bindE (modifyE (upd_engine (\<lambda>e. e\<lparr>e_idInfos := AList.delete idn (e_idInfos e)\<rparr>))) (\<lambda>_.
           bindE (getE (\<lambda>s. GetFilePath (engine s) idn)) (\<lambda>dfn.
           bindE (remove_quiet (''Remove data file '' @ dfn @ '' failed'') dfn) (\<lambda>_.
           bindE (getE (\<lambda>s. GetTorrentFilePath (engine s) idn)) (\<lambda>tfn.
           remove_quiet (''Remove torrent file '' @ tfn @ '' failed'') tfn)))))"
      by (intro keep bt_inv_delete_id)
    have "bt_inv s \<and> hash_known s (ii_InfoHash i) \<and> e_client (engine s) \<noteq> None"
      using inv i st by (auto simp: bt_inv_def)
    from triple_snd [OF triple_bind [OF del rest] this] show ?thesis
      using i st by (simp add: DeleteTorrent_def when_started_def run)
  qed
qed

lemma GetStatus_triple:
  "triple bt_inv (GetStatus idn) (\<lambda>_. bt_inv) (\<lambda>x s. bt_inv s \<and> \<not> is_panic x)"
proof (rule tripleI)
  fix s :: "'a bt_scheme" assume inv: "bt_inv s"
  show "case GetStatus idn s of (Inl x, s') \<Rightarrow> bt_inv s' \<and> \<not> is_panic x | (Inr u, s') \<Rightarrow> bt_inv s'"
  proof (cases "info_of s idn")
    case None
    then show ?thesis using inv by (simp add: GetStatus_def when_started_def run)
  next
    case (Some i)
    have k: "hash_known s (ii_InfoHash i)" using inv Some by (rule bt_inv_get_known)
    then have g: "getTorrent (ii_InfoHash i) s = (case torrent_of s (ii_InfoHash i) of
       None \<Rightarrow> (Inl (Msg (''Missing torrent '' @ ii_InfoHash i)), s) | Some t \<Rightarrow> (Inr t, s))"
      using inv by (intro getTorrent_known) (auto simp: bt_inv_def)
    show ?thesis
      using inv Some g bt_inv_torrent [OF inv, of "ii_InfoHash i"]
      by (cases "torrent_of s (ii_InfoHash i)")
        (auto simp: GetStatus_def when_started_def run intro!: bt_inv_set_torrent)
  qed
qed

lemma all_status_triple: "triple bt_inv (all_status ids) (\<lambda>_. bt_inv) (\<lambda>_ _. False)"
proof (induction ids)
  case (Cons idn ids)
  show ?case
  proof (rule tripleI)
    fix s :: "'a bt_scheme" assume inv: "bt_inv s"
    show "case all_status (idn # ids) s of (Inl x, s') \<Rightarrow> False | (Inr u, s') \<Rightarrow> bt_inv s'"
    proof (cases "info_of s idn")
      case None
      then show ?thesis using inv Cons.IH by (simp add: run triple_def)
    next
      case (Some i)
      have g: "getTorrent (ii_InfoHash i) s = (case torrent_of s (ii_InfoHash i) of
         None \<Rightarrow> (Inl (Msg (''Missing torrent '' @ ii_InfoHash i)), s) | Some t \<Rightarrow> (Inr t, s))"
        using inv bt_inv_get_known [OF inv Some] by (intro getTorrent_known) (auto simp: bt_inv_def)
      show ?thesis
      proof (cases "torrent_of s (ii_InfoHash i)")
        case None
        then show ?thesis using inv Some g Cons.IH by (simp add: run triple_def)
      next
        case (Some t)
        let ?s = "set_torrent (t_InfoHash t) (Update s t) s"
        have "bt_inv ?s" using inv bt_inv_torrent [OF inv Some] by (intro bt_inv_set_torrent) auto
        moreover obtain r u where "all_status ids ?s = (r, u)" by fastforce
        ultimately show ?thesis
          using \<open>info_of s idn = Some i\<close> g Some Cons.IH
          by (cases r) (auto simp: run triple_def)
      qed
    qed
  qed
qed (auto intro: triple_return)

lemma GetAllStatus_inv [keep]: "keeps bt_inv (GetAllStatus order)"
  unfolding GetAllStatus_def
  by (rule when_started_triple, rule triple_weaken [OF all_status_triple]) auto

lemma bt_inv_update_all:
  "bt_inv s \<Longrightarrow> bt_inv (upd_engine (\<lambda>e. e\<lparr>e_ts := map (\<lambda>(ih, t). (ih, Update u t)) (e_ts e)\<rparr>) s)"
proof -
  have *: "map_of (map (\<lambda>(ih, t). (ih, Update u t)) al) x = map_option (Update u) (map_of al x)" for al :: "(string \<times> Torrent) list" and x
    by (induction al) auto
  show "bt_inv s \<Longrightarrow> bt_inv (upd_engine (\<lambda>e. e\<lparr>e_ts := map (\<lambda>(ih, t). (ih, Update u t)) (e_ts e)\<rparr>) s)"
    unfolding bt_inv_def handles_ok_def by (auto simp: tor_ok_def hash_known_def *)
qed

lemma GetTorrents_inv [keep]: "keeps bt_inv GetTorrents"
proof -
  have "keeps bt_inv (modifyE (\<lambda>s. upd_engine (\<lambda>e. e\<lparr>e_ts := map (\<lambda>(ih, t). (ih, Update s t)) (e_ts e)\<rparr>) s))"
    by (rule triple_modify) (rule bt_inv_update_all)
  then show ?thesis unfolding GetTorrents_def by (intro keeps_bind keeps_simple keeps_cases)
qed

lemma client_Close_simps:
  fixes s :: "'z bt_scheme"
  shows "bt_inv s \<Longrightarrow> bt_inv (client_Close k s)"
proof -
  have "bt_inv u \<Longrightarrow> bt_inv (fold (\<lambda>h. upd_handle h close_torrent) hs u)" for u :: "'z bt_scheme" and hs
    by (induction hs arbitrary: u) (simp_all add: bt_inv_upd_handle)
  moreover have "bt_inv s \<Longrightarrow> bt_inv (upd_client k (\<lambda>cl. cl\<lparr>cl_closed := True\<rparr>) s)"
    unfolding bt_inv_def handles_ok_def
    by (auto simp: client_Torrent_def tor_ok_def hash_known_def split: if_splits)
  ultimately show "bt_inv s \<Longrightarrow> bt_inv (client_Close k s)" by (simp add: client_Close_def)
qed

lemma NewClient_inv [keep]: "keeps bt_inv (NewClient tc)"
proof -
  have 1: "keeps bt_inv (syscall (\<lambda>s. (Inr (), s)) :: ('a bt_scheme, unit) call)"
    by (intro keeps_bt_inv_fs syscall_frame) auto
  have 2: "bt_inv (s\<lparr>next_client := j, clients := (clients s)(k := cl)\<rparr>)"
    if "bt_inv s" "cl_torrents cl = []" for s :: "'a bt_scheme" and j k cl
    using that unfolding bt_inv_def handles_ok_def
    by (auto simp: client_Torrent_def tor_ok_def hash_known_def)
  show ?thesis unfolding NewClient_def
    by (rule keeps_bind [OF 1], rule keeps_bind, intro keep, rule keeps_bind, rule keeps_modify)
      (auto intro: keep 2)
qed

lemma seed_file_inv [keep]:
  assumes "codec_laws c"
  shows "keeps bt_inv (seed_file c f)"
  unfolding seed_file_def Let_def by (intro keep assms)

lemma Run_inv [keep]:
  assumes "codec_laws c"
  shows "keeps bt_inv (Run c)"
proof -
  have cl: "keeps bt_inv (case k of Some k \<Rightarrow> modifyE (client_Close k) | None \<Rightarrow> returnE ())" for k
    by (cases k) (auto intro!: keep client_Close_simps)
  have st: "keeps bt_inv (modifyE (upd_engine (\<lambda>e. e\<lparr>e_client := Some k, e_started := True\<rparr>)))" for k
    by (rule keeps_modify) (simp add: bt_inv_def handles_ok_def tor_ok_def hash_known_def)
  show ?thesis unfolding Run_def by (intro keep cl st assms)
qed

end
