(* ===== verification/Bt_Rules.thy ===== *)
theory Bt_Rules
  imports Bt_Engine
begin

text \<open>
  How the engine's handlers run, for the properties: equations for the paths a handler takes,
  the effect of adding a torrent, and the frame of a start (what of the engine it leaves alone).
\<close>

section \<open>Running the handlers\<close>

lemma when_started_run [run]:
  "e_started (engine s) \<Longrightarrow> when_started m s = m s"
  "\<not> e_started (engine s) \<Longrightarrow> when_started m s = (Inl ErrBtEngineNotStart, s)"
  by (simp_all add: when_started_def run)

lemma wrapE_run:
  "wrapE w m s = (case m s of
     (Inl e, t) \<Rightarrow> if is_panic e then (Inl e, t) else (Inl (Wrap w e), t) | (Inr x, t) \<Rightarrow> (Inr x, t))"
  by (simp add: wrapE_def catchE_def tryE_def bindE_def throwE_def returnE_def split: prod.split sum.split)

lemma bt_inv_parts:
  assumes "bt_inv s"
  shows "handles_ok s" "info_of s idn = Some i \<Longrightarrow> hash_known s (ii_InfoHash i)"
    "info_of s idn = Some i \<Longrightarrow> ii_Id i = idn"
    "torrent_of s ih = Some t \<Longrightarrow> tor_ok s t" "torrent_of s ih = Some t \<Longrightarrow> t_InfoHash t = ih"
  using assms by (auto simp: bt_inv_def)

lemma StartSeed_again:
  "e_started (engine s) \<Longrightarrow> info_of s idn = Some i \<Longrightarrow> ii_Started i \<Longrightarrow>
   StartSeed c idn s = (Inr (), set_idInfo idn (i\<lparr>ii_Count := ii_Count i + 1\<rparr>) s)"
  by (simp add: StartSeed_def run)

lemma StartLeecher_again:
  "e_started (engine s) \<Longrightarrow> info_of s idn = Some i \<Longrightarrow> ii_Started i \<Longrightarrow>
   StartLeecher c env fuel idn d p s = (Inr True, set_idInfo idn (i\<lparr>ii_Count := ii_Count i + 1\<rparr>) s)"
  by (simp add: StartLeecher_def run)

lemma StopTorrent_more:
  "e_started (engine s) \<Longrightarrow> info_of s idn = Some i \<Longrightarrow> ii_Started i \<Longrightarrow> ii_Count i > 1 \<Longrightarrow>
   StopTorrent idn s = (Inr (), set_idInfo idn (i\<lparr>ii_Count := ii_Count i - 1\<rparr>) s)"
  by (simp add: StopTorrent_def run Let_def)

lemma stopTorrent_run:
  assumes "bt_inv s" "hash_known s ih" "torrent_of s ih = Some t"
  shows "stopTorrent ih s = (if t_State t = Dropped then (Inl (Msg ''Already stopped''), s)
     else (Inr (), set_torrent ih (t\<lparr>t_State := Dropped\<rparr>) (Drop (t_tt t) s)))"
  using assms bt_inv_parts(5) [OF assms(1,3)]
  by (simp add: stopTorrent_def getTorrent_known bt_inv_parts(1) run)

lemma StopTorrent_last:
  assumes inv: "bt_inv s" and st: "e_started (engine s)" and i: "info_of s idn = Some i" "ii_Started i" "ii_Count i \<le> 1"
    and t: "torrent_of s (ii_InfoHash i) = Some t"
  shows "StopTorrent idn s =
    (let j = i\<lparr>ii_Count := ii_Count i - 1\<rparr>; u = set_idInfo idn j s in
     if t_State t = Dropped then (Inl (Wrap ''Stop torrent failed'' (Msg ''Already stopped'')), u)
     else (Inr (), set_idInfo idn (j\<lparr>ii_Started := False\<rparr>)
            (set_torrent (ii_InfoHash i) (t\<lparr>t_State := Dropped\<rparr>) (Drop (t_tt t) u))))"
proof -
  let ?u = "set_idInfo idn (i\<lparr>ii_Count := ii_Count i - 1\<rparr>) s"
  have "bt_inv ?u" using inv i(1) by (rule count_up_inv)
  moreover have "hash_known ?u (ii_InfoHash i)" using bt_inv_parts(2) [OF inv i(1)] by simp
  moreover have "torrent_of ?u (ii_InfoHash i) = Some t" using t by simp
  ultimately show ?thesis
    using st i by (simp add: StopTorrent_def run Let_def wrapE_run stopTorrent_run)
qed

text \<open>An engine as \<open>NewBtEngine\<close> makes it, in a process that has no client yet.\<close>

definition new_engine :: "'z bt_scheme \<Rightarrow> bool" where
  "new_engine s \<longleftrightarrow>
     (\<exists>root trackers cfg. engine s = NewBtEngine root trackers cfg) \<and> gos s = [] \<and> next_handle s = 0 \<and>
     (\<forall>k. cl_torrents (clients s k) = [])"

lemma new_engine_inv: "new_engine s \<Longrightarrow> bt_inv s"
  by (auto simp: new_engine_def bt_inv_def handles_ok_def NewBtEngine_def client_Torrent_def)

lemma bt_inv_gos:
  "bt_inv s \<Longrightarrow> set l \<subseteq> set (gos s) \<Longrightarrow> bt_inv (s\<lparr>gos := l\<rparr>)"
  by (auto simp: bt_inv_def handles_ok_def client_Torrent_def tor_ok_def hash_known_def)

lemma StopTorrent_inv: "keeps bt_inv (StopTorrent idn)"
  by (rule triple_weaken [OF StopTorrent_triple]) auto

lemma GetStatus_inv: "keeps bt_inv (GetStatus idn)"
  by (rule triple_weaken [OF GetStatus_triple]) auto

section \<open>Counted torrents\<close>

text \<open>An ID that is started with a count, its torrent cached and not dropped.\<close>

definition running :: "'z bt_scheme \<Rightarrow> string \<Rightarrow> string \<Rightarrow> int \<Rightarrow> Torrent \<Rightarrow> bool" where
  "running s idn ih n t \<longleftrightarrow>
     bt_inv s \<and> e_started (engine s) \<and> torrent_of s ih = Some t \<and> t_State t \<noteq> Dropped \<and>
     (\<exists>i. info_of s idn = Some i \<and> ii_InfoHash i = ih \<and> ii_Started i \<and> ii_Count i = n)"

lemma running_start:
  assumes "running s idn ih n t"
  shows "running (snd (StartSeed c idn s)) idn ih (n + 1) t"
proof -
  obtain i where i: "info_of s idn = Some i" "ii_InfoHash i = ih" "ii_Started i" "ii_Count i = n"
    using assms by (auto simp: running_def)
  have "StartSeed c idn s = (Inr (), set_idInfo idn (i\<lparr>ii_Count := n + 1\<rparr>) s)"
    using assms i StartSeed_again [of s idn i c] by (simp add: running_def)
  moreover have "bt_inv (set_idInfo idn (i\<lparr>ii_Count := n + 1\<rparr>) s)"
    using assms i by (intro count_up_inv) (auto simp: running_def)
  ultimately show ?thesis using assms i by (auto simp: running_def)
qed

lemma running_stop:
  assumes "running s idn ih n t" "n > 1"
  shows "running (snd (StopTorrent idn s)) idn ih (n - 1) t"
proof -
  obtain i where i: "info_of s idn = Some i" "ii_InfoHash i = ih" "ii_Started i" "ii_Count i = n"
    using assms by (auto simp: running_def)
  have "StopTorrent idn s = (Inr (), set_idInfo idn (i\<lparr>ii_Count := n - 1\<rparr>) s)"
    using assms i StopTorrent_more [of s idn i] by (simp add: running_def)
  moreover have "bt_inv (set_idInfo idn (i\<lparr>ii_Count := n - 1\<rparr>) s)"
    using assms i by (intro count_up_inv) (auto simp: running_def)
  ultimately show ?thesis using assms i by (auto simp: running_def)
qed

lemma running_last_stop:
  assumes "running s idn ih n t" "n \<le> 1"
  shows "\<exists>j u. StopTorrent idn s = (Inr (), u) \<and> info_of u idn = Some j \<and> \<not> ii_Started j \<and>
    torrent_of u ih = Some (t\<lparr>t_State := Dropped\<rparr>) \<and>
    client_Torrent (h_client (handles s (t_tt t))) (h_hash (handles s (t_tt t))) u = None \<and>
    (\<forall>x. x \<noteq> idn \<longrightarrow> info_of u x = info_of s x) \<and> (\<forall>x. x \<noteq> ih \<longrightarrow> torrent_of u x = torrent_of s x)"
proof -
  obtain i where i: "info_of s idn = Some i" "ii_InfoHash i = ih" "ii_Started i" "ii_Count i = n"
    using assms by (auto simp: running_def)
  let ?j = "i\<lparr>ii_Count := n - 1\<rparr>" let ?u = "set_idInfo idn ?j s"
  let ?w = "set_idInfo idn (?j\<lparr>ii_Started := False\<rparr>) (set_torrent ih (t\<lparr>t_State := Dropped\<rparr>) (Drop (t_tt t) ?u))"
  have "StopTorrent idn s = (Inr (), ?w)"
    using StopTorrent_last [of s idn i t] assms i by (simp add: running_def Let_def)
  moreover have drop: "client_Torrent k h (Drop x v) = None" if "k = h_client (handles v x)" "h = h_hash (handles v x)"
    for k h x and v :: "'a bt_scheme"
    using that by (auto simp: Drop_def dropTorrent_def client_Torrent_def delete_conv' split: option.splits)
  have "client_Torrent (h_client (handles s (t_tt t))) (h_hash (handles s (t_tt t))) ?w = None"
    using drop [where v = ?u and x = "t_tt t"] by simp
  ultimately show ?thesis by auto
qed

section \<open>Starting\<close>

lemma AddTorrent_new:
  fixes s :: "'z bt_scheme"
  assumes c: "codec_laws c" and new: "client_Torrent k (info_hash c m) s = None"
    and dec: "info_decode c (mi_InfoBytes m) = Inr j" and ok: "validateInfo j = Inr ()"
  shows "\<exists>u. AddTorrent c k m s = (Inr (next_handle s), u) \<and>
    client_Torrent k (info_hash c m) u = Some (next_handle s) \<and>
    h_hash (handles u (next_handle s)) = info_hash c m \<and> h_info (handles u (next_handle s)) = Some j \<and>
    \<not> h_closed (handles u (next_handle s)) \<and> (\<forall>h < next_handle s. handles u h = handles s h) \<and>
    engine u = engine s \<and> gos u = gos s \<and> next_handle u = Suc (next_handle s)"
proof -
  let ?h = "next_handle s" let ?ih = "info_hash c m"
  let ?s1 = "upd_client k (\<lambda>cl. cl\<lparr>cl_torrents := AList.update ?ih ?h (cl_torrents cl)\<rparr>)
     (s\<lparr>handles := (handles s)(?h := newTorrent k ?ih), next_handle := Suc ?h\<rparr>)"
  have 1: "AddTorrentInfoHash k ?ih s = (Inr ?h, ?s1)" using new by (simp add: AddTorrentInfoHash_def run)
  define dn where "dn = (if i_Name (mi_Info m) \<noteq> [] then setDisplayName (i_Name (mi_Info m)) else (\<lambda>t. t))"
  have 2: "\<exists>s2. whenE (i_Name (mi_Info m) \<noteq> []) (modifyE (upd_handle ?h (setDisplayName (i_Name (mi_Info m))))) ?s1 = (Inr (), s2)
     \<and> handles s2 = (handles ?s1)(?h := dn (newTorrent k ?ih)) \<and> engine s2 = engine s \<and> gos s2 = gos s \<and>
     next_handle s2 = Suc ?h \<and> client_Torrent k ?ih s2 = Some ?h"
    by (auto simp: dn_def run client_Torrent_def update_conv')
  then obtain s2 where s2: "whenE (i_Name (mi_Info m) \<noteq> []) (modifyE (upd_handle ?h (setDisplayName (i_Name (mi_Info m))))) ?s1 = (Inr (), s2)"
    "handles s2 = (handles ?s1)(?h := dn (newTorrent k ?ih))" "engine s2 = engine s" "gos s2 = gos s"
    "next_handle s2 = Suc ?h" "client_Torrent k ?ih s2 = Some ?h" by blast
  have dnp: "h_info (dn (newTorrent k ?ih)) = None" "h_hash (dn (newTorrent k ?ih)) = ?ih"
    "\<not> h_closed (dn (newTorrent k ?ih))"
    by (auto simp: dn_def setDisplayName_def newTorrent_def haveInfo_def)
  let ?f = "\<lambda>t. t\<lparr>h_info := Some j, h_infoBytes := mi_InfoBytes m, h_display := [], h_left := bytesLeft j\<rparr>"
  have "mi_InfoBytes m \<noteq> []" using dec c by (auto simp: codec_laws_def)
  then have 3: "setInfoBytes c ?h (mi_InfoBytes m) s2 = (Inr (), upd_handle ?h ?f s2)"
    using s2 dnp dec ok by (simp add: setInfoBytes_def haveInfo_def run info_hash_def wrapE_run liftE_def)
  show ?thesis
    using s2 dnp
    by (simp add: AddTorrent_def AddTorrentSpec_def Let_def 1 s2(1) 3 run) (simp add: addTrackers_def)
qed

lemma register_new:
  fixes s :: "'z bt_scheme"
  assumes c: "codec_laws c" and k: "e_client (engine s) = Some k" and new: "client_Torrent k (info_hash c m) s = None"
    and dec: "info_decode c (mi_InfoBytes m) = Inr j" and ok: "validateInfo j = Inr ()"
    and ih: "ih = HexString (info_hash c m)"
  shows "\<exists>t u. register c idn m s = (Inr t, u) \<and> client_Torrent k (info_hash c m) u = Some (next_handle s) \<and>
    \<not> h_closed (handles u (next_handle s)) \<and> h_info (handles u (next_handle s)) = Some j \<and>
    torrent_of u = (torrent_of s)(ih \<mapsto> t) \<and>
    info_of u = (info_of s)(idn \<mapsto> \<lparr>ii_Id = idn, ii_InfoHash = t_InfoHash t, ii_Started = True, ii_Count = 0\<rparr>) \<and>
    gos u = gos s @ [(t_tt t, t_InfoHash t)] \<and> e_started (engine u) = e_started (engine s) \<and>
    (case torrent_of s ih of
       Some t0 \<Rightarrow> t_tt t = t_tt t0 \<and> t_State t = t_State t0 \<and> t_InfoHash t = t_InfoHash t0
     | None \<Rightarrow> t_tt t = next_handle s \<and> t_State t = 0 \<and> t_InfoHash t = ih)"
proof -
  let ?h = "next_handle s"
  obtain u where u: "AddTorrent c k m s = (Inr ?h, u)" "client_Torrent k (info_hash c m) u = Some ?h"
    "h_hash (handles u ?h) = info_hash c m" "h_info (handles u ?h) = Some j"
    "\<not> h_closed (handles u ?h)" "engine u = engine s" "gos u = gos s"
    using AddTorrent_new [OF c new dec ok] by auto
  define t0 where "t0 = (case torrent_of s ih of Some t \<Rightarrow> t
         | None \<Rightarrow> \<lparr>t_InfoHash = ih, t_Name = torrent_name (handles u ?h), t_tt = ?h, t_State = 0,
              t_Loaded = False, t_Seeding = False, t_Size = 0, t_Downloaded = 0\<rparr>)"
  have a: "addTorrent ?h u = (Inr (Update u t0), set_torrent ih (Update u t0) u)"
    using u ih by (simp add: addTorrent_def run Let_def t0_def cong: option.case_cong)
  let ?w = "set_idInfo idn \<lparr>ii_Id = idn, ii_InfoHash = t_InfoHash t0, ii_Started = True, ii_Count = 0\<rparr>
     ((set_torrent ih (Update u t0) u)\<lparr>gos := gos s @ [(t_tt t0, t_InfoHash t0)]\<rparr>)"
  have "register c idn m s = (Inr (Update u t0), ?w)"
    using k u(1,7) by (simp add: register_def engine_client_def run wrapE_run a)
  moreover have "client_Torrent j x (v\<lparr>gos := l\<rparr>) = client_Torrent j x v" for j x l and v :: "'z bt_scheme"
    by (simp add: client_Torrent_def)
  ultimately show ?thesis
    using u by (intro exI [of _ "Update u t0"] exI [of _ ?w]) (simp add: t0_def split: option.splits)
qed

text \<open>With no fault pending, a file that is there is found and read, and nothing changes.\<close>

lemma calm_read:
  assumes "wf_fs s" "faults s = []" "node_at s (comps p) = Some (File i)"
  shows "os_Stat p s = (Inr (File i), s)" "ioutil_ReadFile p s = (Inr (inodes s i), s)"
proof -
  have r: "resolve s (comps p) = Inr (File i)" using assms(1,3) by (rule resolve_node)
  show "os_Stat p s = (Inr (File i), s)" using r assms(2) by (simp add: os_Stat_def syscall_def)
  show "ioutil_ReadFile p s = (Inr (inodes s i), s)"
    using r assms(2) by (simp add: ioutil_ReadFile_def os_Open_def read_all_def syscall_def bindE_def)
qed

lemma StartSeed_loaded:
  assumes "e_started (engine s)" "\<And>i. info_of s idn = Some i \<Longrightarrow> \<not> ii_Started i"
    and "wf_fs s" "faults s = []"
    and "node_at s (comps (GetTorrentFilePath (engine s) idn)) = Some (File i)" "mi_load c (inodes s i) = Inr m"
  shows "StartSeed c idn s = bindE (register c idn m) (\<lambda>_. returnE ()) s"
  using assms calm_read [OF assms(3-5)]
  by (cases "info_of s idn")
    (auto simp: StartSeed_def run LoadFromFile_def wrapE_run bindE_def)

section \<open>The frame of a start\<close>

text \<open>The engine and the pending goroutines through the steps of a start.\<close>

definition at_engine :: "BtEngine \<Rightarrow> (nat \<times> string) list \<Rightarrow> 'z bt_scheme \<Rightarrow> bool" where
  "at_engine E G s \<longleftrightarrow> engine s = E \<and> gos s = G"

lemma fs_engine:
  fixes m :: "('z bt_scheme, 'v) call"
  assumes "\<And>M. keeps (\<lambda>s. fs.more s = M) m"
  shows "keeps (at_engine E G) m"
proof (rule keepsI)
  fix s :: "'z bt_scheme" assume s: "at_engine E G s"
  have "fs.more (snd (m s)) = fs.more s" by (rule keepsD [OF assms]) (rule refl)
  from more_eqD [OF this] s show "at_engine E G (snd (m s))" by (simp add: at_engine_def)
qed

lemma AddTorrent_engine:
  "keeps (at_engine E G) (AddTorrent c k m)"
proof -
  have 1: "keeps (at_engine E G) (AddTorrentInfoHash k ih)" for ih
    by (rule keepsI) (simp add: AddTorrentInfoHash_def at_engine_def run split: option.split)
  have 2: "keeps (at_engine E G) (setInfoBytes c h b)" for h b
    unfolding setInfoBytes_def
    by (intro keeps_bind keeps_simple keeps_cases keeps_wrap keeps_modify) (simp_all add: at_engine_def)
  have 3: "keeps (at_engine E G) (case info of None \<Rightarrow> returnE () | Some b \<Rightarrow> setInfoBytes c h b)" for info h
    by (cases info) (simp_all add: 2 keeps_simple)
  show ?thesis unfolding AddTorrent_def Let_def AddTorrentSpec_def
    by (intro keeps_bind 1 2 3 keeps_simple keeps_when keeps_modify) (simp_all add: at_engine_def)
qed

lemma createTorrent_engine: "keeps (at_engine E G) (createTorrent c idn)"
proof -
  have 1: "keeps I (case e_trackers e of [] \<Rightarrow> throwE (Panic ''index out of range'') | a # _ \<Rightarrow> returnE a)"
    for e and I :: "'a bt_scheme \<Rightarrow> bool"
    by (cases "e_trackers e") (auto intro: keep)
  show ?thesis unfolding createTorrent_def Let_def
    by (intro fs_engine keeps_bind 1 keeps_wrap keeps_simple BuildFromFilePath_more keep)
qed

definition registered :: "BtEngine \<Rightarrow> (nat \<times> string) list \<Rightarrow> string \<Rightarrow> 'z bt_scheme \<Rightarrow> bool" where
  "registered E G idn u \<longleftrightarrow>
     (\<exists>t ih. info_of u = (map_of (e_idInfos E))(idn \<mapsto> \<lparr>ii_Id = idn, ii_InfoHash = t_InfoHash t, ii_Started = True, ii_Count = 0\<rparr>) \<and>
       torrent_of u = (map_of (e_ts E))(ih \<mapsto> t) \<and> gos u = G @ [(t_tt t, t_InfoHash t)])"

lemma registeredD:
  assumes "registered (engine s) (gos s) idn u" "bt_inv u"
  shows "\<exists>t. info_of u = (info_of s)(idn \<mapsto> \<lparr>ii_Id = idn, ii_InfoHash = t_InfoHash t, ii_Started = True, ii_Count = 0\<rparr>) \<and>
    torrent_of u = (torrent_of s)(t_InfoHash t \<mapsto> t) \<and> gos u = gos s @ [(t_tt t, t_InfoHash t)]"
proof -
  obtain t ih where t: "info_of u = (info_of s)(idn \<mapsto> \<lparr>ii_Id = idn, ii_InfoHash = t_InfoHash t, ii_Started = True, ii_Count = 0\<rparr>)"
    "torrent_of u = (torrent_of s)(ih \<mapsto> t)" "gos u = gos s @ [(t_tt t, t_InfoHash t)]"
    using assms(1) by (auto simp: registered_def)
  moreover have "t_InfoHash t = ih" using bt_inv_torrent [OF assms(2), of ih t] t(2) by simp
  ultimately show ?thesis by auto
qed

lemma register_frame:
  "triple (at_engine E G) (register c idn m) (\<lambda>_. registered E G idn) (\<lambda>_. at_engine E G)"
proof (rule tripleI)
  fix s :: "'a bt_scheme" assume s: "at_engine E G s"
  show "case register c idn m s of (Inl x, u) \<Rightarrow> at_engine E G u | (Inr t, u) \<Rightarrow> registered E G idn u"
  proof (cases "e_client (engine s)")
    case None
    then show ?thesis using s by (simp add: register_def engine_client_def run)
  next
    case (Some k)
    obtain r u where u: "AddTorrent c k m s = (r, u)" by fastforce
    have e: "engine u = E" "gos u = G" using keepsD [OF AddTorrent_engine s, of c k m] u by (simp_all add: at_engine_def)
    have k: "engine_client s = (Inr k, s)" using Some by (simp add: engine_client_def run)
    show ?thesis
    proof (cases r)
      case (Inl x)
      then show ?thesis using u k e by (simp add: register_def wrapE_run at_engine_def bindE_def)
    next
      case (Inr tt)
      obtain t ih where "addTorrent tt u = (Inr t, set_torrent ih t u)"
        by (simp add: addTorrent_def run Let_def)
      then have "register c idn m s = (Inr t, set_idInfo idn
          \<lparr>ii_Id = idn, ii_InfoHash = t_InfoHash t, ii_Started = True, ii_Count = 0\<rparr>
          ((set_torrent ih t u)\<lparr>gos := gos (set_torrent ih t u) @ [(t_tt t, t_InfoHash t)]\<rparr>))"
        using u k Inr by (simp add: register_def wrapE_run run)
      then show ?thesis using e by (auto simp: registered_def)
    qed
  qed
qed

lemma start_rest_frame:
  "triple (at_engine E G) (bindE (register c idn m) (\<lambda>_. returnE x)) (\<lambda>_. registered E G idn) (\<lambda>_. at_engine E G)"
  by (rule triple_bind [OF register_frame]) (rule triple_return)

lemma StartSeed_frame:
  assumes "e_started E" "\<And>i. map_of (e_idInfos E) idn = Some i \<Longrightarrow> \<not> ii_Started i"
  shows "triple (at_engine E G) (StartSeed c idn) (\<lambda>_. registered E G idn) (\<lambda>_. at_engine E G)"
proof -
  let ?I = "at_engine E G :: 'a bt_scheme \<Rightarrow> bool"
  have 1: "triple ?I (tryE (os_Stat tf)) (\<lambda>_. ?I) (\<lambda>_. ?I)" for tf by (intro keeps_try fs_engine keep)
  have 2: "triple ?I (case st of Inl _ \<Rightarrow> createTorrent c idn | Inr _ \<Rightarrow> returnE ()) (\<lambda>_. ?I) (\<lambda>_. ?I)" for st :: "node result"
    by (cases st) (simp_all add: createTorrent_engine keeps_simple)
  have 3: "triple ?I (wrapE ''Load torrent file failed'' (LoadFromFile c tf)) (\<lambda>_. ?I) (\<lambda>_. ?I)" for tf
    unfolding LoadFromFile_def by (intro keeps_wrap fs_engine keep)
  have body: "triple ?I (bindE (getE (\<lambda>s. GetTorrentFilePath (engine s) idn)) (\<lambda>tf.
       bindE (tryE (os_Stat tf)) (\<lambda>st.
       bindE (case st of Inl _ \<Rightarrow> createTorrent c idn | Inr _ \<Rightarrow> returnE ()) (\<lambda>_.
       bindE (wrapE ''Load torrent file failed'' (LoadFromFile c tf)) (\<lambda>metaInfo.
       bindE (register c idn metaInfo) (\<lambda>_. returnE ())))))) (\<lambda>_. registered E G idn) (\<lambda>_. ?I)"
    by (rule triple_bind [OF keeps_simple(4)], rule triple_bind [OF 1], rule triple_bind [OF 2],
        rule triple_bind [OF 3], rule start_rest_frame)
  show ?thesis
  proof (rule tripleI)
    fix s :: "'a bt_scheme" assume s: "?I s"
    show "case StartSeed c idn s of (Inl x, u) \<Rightarrow> at_engine E G u | (Inr x, u) \<Rightarrow> registered E G idn u"
      using body [unfolded triple_def] s assms
      by (cases "map_of (e_idInfos E) idn") (simp_all add: StartSeed_def run at_engine_def)
  qed
qed

lemma StartLeecher_frame:
  assumes "e_started E" "\<And>i. map_of (e_idInfos E) idn = Some i \<Longrightarrow> \<not> ii_Started i"
  shows "triple (at_engine E G) (StartLeecher c env n idn d False) (\<lambda>_. registered E G idn) (\<lambda>_. at_engine E G)"
proof -
  let ?I = "at_engine E G :: 'a bt_scheme \<Rightarrow> bool"
  have 3: "triple ?I (wrapE ''Load torrent file failed'' (liftE (mi_load c d))) (\<lambda>_. ?I) (\<lambda>_. ?I)"
    by (intro keeps_wrap keeps_simple)
  have body: "triple ?I (bindE (wrapE ''Load torrent file failed'' (liftE (mi_load c d))) (\<lambda>metaInfo.
       bindE (register c idn metaInfo) (\<lambda>_. returnE True))) (\<lambda>_. registered E G idn) (\<lambda>_. ?I)"
    by (rule triple_bind [OF 3], rule start_rest_frame)
  show ?thesis
  proof (rule tripleI)
    fix s :: "'a bt_scheme" assume s: "?I s"
    show "case StartLeecher c env n idn d False s of (Inl x, u) \<Rightarrow> at_engine E G u | (Inr x, u) \<Rightarrow> registered E G idn u"
      using body [unfolded triple_def] s assms
      by (cases "map_of (e_idInfos E) idn") (simp_all add: StartLeecher_def run at_engine_def)
  qed
qed

end
