(* ===== verification/Bt_Demo.thy ===== *)
theory Bt_Demo
  imports Bt_Rules Oci_Properties
begin

text \<open>
  A small engine on which the engine's properties are instantiated: a codec of torrent files with
  the laws the code relies on, and a running engine with one layer, its torrent file on disk.
\<close>

section \<open>A codec\<close>

definition put_int :: "int \<Rightarrow> bytes" where
  "put_int n = (if n < 0 then CHR ''-'' else CHR ''+'') # put_field (replicate (nat \<bar>n\<bar>) CHR ''1'')"

definition get_int :: "bytes \<Rightarrow> int \<times> bytes" where
  "get_int b = (case b of [] \<Rightarrow> (0, []) | c # b \<Rightarrow>
     (case get_field b of (x, r) \<Rightarrow> (if c = CHR ''-'' then - int (length x) else int (length x), r)))"

definition put_list :: "('a \<Rightarrow> bytes) \<Rightarrow> 'a list \<Rightarrow> bytes" where
  "put_list f xs = put_int (int (length xs)) @ concat (map f xs)"

fun get_many :: "(bytes \<Rightarrow> 'a \<times> bytes) \<Rightarrow> nat \<Rightarrow> bytes \<Rightarrow> 'a list \<times> bytes" where
  "get_many g 0 b = ([], b)"
| "get_many g (Suc n) b = (case g b of (x, r) \<Rightarrow> case get_many g n r of (xs, r') \<Rightarrow> (x # xs, r'))"

definition get_list :: "(bytes \<Rightarrow> 'a \<times> bytes) \<Rightarrow> bytes \<Rightarrow> 'a list \<times> bytes" where
  "get_list g b = (case get_int b of (n, r) \<Rightarrow> get_many g (nat n) r)"

lemma get_put_int: "get_int (put_int n @ r) = (n, r)"
  by (simp add: get_int_def put_int_def get_put_field)

lemma get_put_list:
  assumes "\<And>x r. g (f x @ r) = (x, r)"
  shows "get_list g (put_list f xs @ r) = (xs, r)"
proof -
  have "get_many g (length xs) (concat (map f xs) @ r) = (xs, r)"
    by (induction xs) (simp_all add: assms)
  then show ?thesis by (simp add: get_list_def put_list_def get_put_int)
qed

definition put_file :: "FileInfo \<Rightarrow> bytes" where
  "put_file f = put_int (fi_Length f) @ put_list put_field (fi_Path f)"

definition get_file :: "bytes \<Rightarrow> FileInfo \<times> bytes" where
  "get_file b = (case get_int b of (n, r) \<Rightarrow> case get_list get_field r of (p, r) \<Rightarrow>
     (\<lparr>fi_Length = n, fi_Path = p\<rparr>, r))"

definition put_info :: "Info \<Rightarrow> bytes" where
  "put_info i = put_int (i_PieceLength i) @ put_field (i_Pieces i) @ put_field (i_Name i) @
     put_int (i_Length i) @ put_list put_file (i_Files i)"

definition get_info :: "bytes \<Rightarrow> Info \<times> bytes" where
  "get_info b = (case get_int b of (pl, r) \<Rightarrow> case get_field r of (ps, r) \<Rightarrow> case get_field r of (nm, r) \<Rightarrow>
     case get_int r of (n, r) \<Rightarrow> case get_list get_file r of (fs, r) \<Rightarrow>
     (\<lparr>i_PieceLength = pl, i_Pieces = ps, i_Name = nm, i_Length = n, i_Files = fs\<rparr>, r))"

lemma get_put_file: "get_file (put_file f @ r) = (f, r)"
  by (simp add: get_file_def put_file_def get_put_int get_put_list [OF get_put_field])

lemma get_put_info: "get_info (put_info i @ r) = (i, r)"
  by (simp add: get_info_def put_info_def get_put_int get_put_field get_put_list [OF get_put_file])

definition demo_info_decode :: "bytes \<Rightarrow> Info result" where
  "demo_info_decode b =
     (let i = fst (get_info b) in if put_info i = b then Inr i else Inl (Msg ''bencode: syntax error''))"

definition put_metainfo :: "MetaInfo \<Rightarrow> bytes" where
  "put_metainfo m = put_field (mi_InfoBytes m) @ put_field (mi_Announce m) @
     put_list (put_list put_field) (mi_AnnounceList m) @ put_int (mi_CreationDate m) @
     put_field (mi_Comment m) @ put_field (mi_CreatedBy m)"

definition demo_load :: "bytes \<Rightarrow> MetaInfo result" where
  "demo_load b = (case get_field b of (ib, r) \<Rightarrow> case get_field r of (an, r) \<Rightarrow>
     case get_list (get_list get_field) r of (al, r) \<Rightarrow> case get_int r of (cd, r) \<Rightarrow>
     case get_field r of (co, r) \<Rightarrow> case get_field r of (cb, r) \<Rightarrow>
     (case demo_info_decode ib of Inl x \<Rightarrow> Inl x | Inr i \<Rightarrow>
       Inr \<lparr>mi_Info = i, mi_InfoBytes = ib, mi_Announce = an, mi_AnnounceList = al, mi_CreationDate = cd,
            mi_Comment = co, mi_CreatedBy = cb\<rparr>))"

definition demo_torrents :: codec where
  "demo_torrents = \<lparr>sha1 = (\<lambda>b. take 20 (b @ replicate 20 CHR ''x'')), info_encode = put_info,
     info_decode = demo_info_decode, mi_load = demo_load, mi_write = put_metainfo\<rparr>"

lemma demo_info: "demo_info_decode (put_info i) = Inr i"
  using get_put_info [of i "[]"] by (simp add: demo_info_decode_def)

lemma demo_load_write:
  assumes "mi_InfoBytes m = put_info (mi_Info m)"
  shows "demo_load (put_metainfo m) = Inr m"
proof -
  have l: "get_list (get_list get_field) (put_list (put_list put_field) x @ r) = (x, r)" for x r
    by (intro get_put_list get_put_field)
  have "get_field (put_field x) = (x, [])" for x using get_put_field [of x "[]"] by simp
  then show ?thesis
    by (simp add: demo_load_def put_metainfo_def get_put_field get_put_int l demo_info assms)
qed

lemma put_info_nonempty: "put_info i \<noteq> []"
  by (simp add: put_info_def put_int_def)

lemma demo_torrents_laws: "codec_laws demo_torrents"
  unfolding codec_laws_def demo_torrents_def
  using demo_load_write demo_info put_info_nonempty
  by (auto simp: demo_load_def demo_info_decode_def Let_def split: prod.splits sum.splits if_splits)

section \<open>A running engine\<close>

definition demo_layer_info :: Info where
  "demo_layer_info =
     \<lparr>i_PieceLength = 1024 * 1024, i_Pieces = sha1 demo_torrents ''abc'', i_Name = ''a.layer'', i_Length = 3, i_Files = []\<rparr>"

definition demo_mi :: MetaInfo where
  "demo_mi = (SetDefaults 7 ''tr'')\<lparr>mi_Info := demo_layer_info, mi_InfoBytes := put_info demo_layer_info\<rparr>"

definition demo_hash :: bytes where
  "demo_hash = info_hash demo_torrents demo_mi"

text \<open>An engine that was made and not run yet, over a root with the directories in place.\<close>

definition demo_new :: bt where
  "demo_new =
     \<lparr>tree = [([''root''], Dir), ([''root'', ''torrents''], Dir), ([''root'', ''data''], Dir),
        ([''root'', ''torrents'', ''a.torrent''], File 0), ([''root'', ''data'', ''a.layer''], File 1),
        ([''root'', ''data'', ''b.layer''], File 2)],
      inodes = (\<lambda>n. if n = 0 then put_metainfo demo_mi else ''abc''), next_ino = 3, faults = [],
      rnd = (\<lambda>n. replicate n CHR ''0''),
      handles = (\<lambda>_. newTorrent 0 []), next_handle = 0,
      clients = (\<lambda>_. \<lparr>cl_config = torrent_config (NewBtEngine ''root'' [''tr''] None), cl_torrents = [],
        cl_upload = None, cl_download = None, cl_closed = False\<rparr>),
      next_client = 1, clock = 7, engine = NewBtEngine ''root'' [''tr''] None, gos = []\<rparr>"

text \<open>The same engine with its client, started.\<close>

definition demo_bt :: bt where
  "demo_bt = upd_engine (\<lambda>e. e\<lparr>e_client := Some 0, e_started := True\<rparr>) demo_new"

lemma demo_new_engine: "new_engine demo_new"
  unfolding new_engine_def demo_new_def by auto

lemma demo_bt_simps [simp]:
  "e_client (engine demo_bt) = Some 0" "e_started (engine demo_bt)" "e_rootDir (engine demo_bt) = ''root''"
  "e_trackers (engine demo_bt) = [''tr'']" "e_ts (engine demo_bt) = []" "e_idInfos (engine demo_bt) = []"
  "gos demo_bt = []" "next_handle demo_bt = 0" "faults demo_bt = []" "client_Torrent k ih demo_bt = None"
  "inodes demo_bt 0 = put_metainfo demo_mi" "inodes demo_bt 1 = ''abc''" "inodes demo_bt 2 = ''abc''" "clock demo_bt = 7"
  by (simp_all add: demo_bt_def demo_new_def upd_engine_def client_Torrent_def NewBtEngine_def)

lemma demo_bt_inv: "bt_inv demo_bt"
  by (simp add: bt_inv_def handles_ok_def)

lemma demo_bt_wf: "wf_fs demo_bt"
  unfolding wf_fs_def
  by (auto simp: demo_bt_def demo_new_def upd_engine_def is_path_def node_at_def split: if_splits)

lemma demo_paths [simp]:
  "comps (GetTorrentFilePath (engine demo_bt) ''a'') = [''root'', ''torrents'', ''a.torrent'']"
  "comps (GetTorrentFilePath (engine demo_bt) ''b'') = [''root'', ''torrents'', ''b.torrent'']"
  "comps (GetFilePath (engine demo_bt) ''a'') = [''root'', ''data'', ''a.layer'']"
  "comps (GetFilePath (engine demo_bt) ''b'') = [''root'', ''data'', ''b.layer'']"
  by (simp_all add: GetTorrentFilePath_def GetFilePath_def) code_simp+

lemma demo_bt_nodes:
  "node_at demo_bt [''root'', ''torrents'', ''a.torrent''] = Some (File 0)"
  "node_at demo_bt [''root'', ''data'', ''a.layer''] = Some (File 1)"
  "node_at demo_bt [''root'', ''data'', ''b.layer''] = Some (File 2)"
  "node_at demo_bt [''root'', ''torrents'', ''b.torrent''] = None"
  "node_at demo_bt [''root'', ''torrents''] = Some Dir" "node_at demo_bt [''root'', ''data''] = Some Dir"
  by (simp_all add: demo_bt_def demo_new_def upd_engine_def node_at_def)

lemma demo_mi_simps:
  "mi_load demo_torrents (put_metainfo demo_mi) = Inr demo_mi" "mi_Info demo_mi = demo_layer_info"
  "info_decode demo_torrents (mi_InfoBytes demo_mi) = Inr (mi_Info demo_mi)"
  "validateInfo (mi_Info demo_mi) = Inr ()" "length demo_hash = 20"
proof -
  show i: "mi_Info demo_mi = demo_layer_info" by (simp add: demo_mi_def)
  show "mi_load demo_torrents (put_metainfo demo_mi) = Inr demo_mi"
    using demo_load_write [of demo_mi] by (simp add: demo_torrents_def demo_mi_def)
  show "info_decode demo_torrents (mi_InfoBytes demo_mi) = Inr (mi_Info demo_mi)"
    by (simp add: demo_torrents_def demo_mi_def demo_info)
  show "validateInfo (mi_Info demo_mi) = Inr ()"
    unfolding i by (simp add: validateInfo_def demo_layer_info_def demo_torrents_def NumPieces_def TotalLength_def IsDir_def int64_def int64_quot_def)
  show "length demo_hash = 20" using demo_torrents_laws by (simp add: demo_hash_def info_hash_def codec_laws_def)
qed

text \<open>The layer \<open>a\<close>, seeded once.\<close>

lemma demo_seeded:
  obtains t u where "StartSeed demo_torrents ''a'' demo_bt = (Inr (), u)" "running u ''a'' (HexString demo_hash) 0 t"
    "t_tt t = 0" "t_State t = 0" "client_Torrent 0 demo_hash u = Some 0" "\<not> h_closed (handles u 0)"
    "h_info (handles u 0) = Some demo_layer_info"
    "torrent_of u = [HexString demo_hash \<mapsto> t]" "gos u = [(0, HexString demo_hash)]"
proof -
  obtain t u where u: "register demo_torrents ''a'' demo_mi demo_bt = (Inr t, u)" "client_Torrent 0 demo_hash u = Some 0"
    "\<not> h_closed (handles u 0)" "h_info (handles u 0) = Some demo_layer_info" "torrent_of u = [HexString demo_hash \<mapsto> t]"
    "info_of u = [''a'' \<mapsto> \<lparr>ii_Id = ''a'', ii_InfoHash = t_InfoHash t, ii_Started = True, ii_Count = 0\<rparr>]"
    "gos u = [(t_tt t, t_InfoHash t)]" "e_started (engine u)" "t_tt t = 0" "t_State t = 0" "t_InfoHash t = HexString demo_hash"
    using register_new [OF demo_torrents_laws _ _ demo_mi_simps(3,4), of demo_bt 0 "HexString demo_hash" "''a''"] demo_mi_simps(2)
    by (auto simp: demo_hash_def)
  have s: "StartSeed demo_torrents ''a'' demo_bt = (Inr (), u)"
    using StartSeed_loaded [of demo_bt "''a''" 0 demo_torrents demo_mi] u(1) demo_bt_wf demo_bt_nodes demo_mi_simps
    by (simp add: run bindE_def)
  have keeps: "keeps bt_inv (StartSeed demo_torrents ''a'' :: (bt, unit) call)" by (rule StartSeed_inv [OF demo_torrents_laws])
  have "bt_inv u" using keepsD [OF keeps demo_bt_inv] s by simp
  then have "running u ''a'' (HexString demo_hash) 0 t"
    using u by (simp add: running_def Dropped_def)
  then show ?thesis using that s u by simp
qed

text \<open>The layer \<open>a\<close>, stopped: its torrent is still cached, its handle dropped.\<close>

definition demo_stopped_info :: idInfo where
  "demo_stopped_info = \<lparr>ii_Id = ''a'', ii_InfoHash = HexString demo_hash, ii_Started = False, ii_Count = - 1\<rparr>"

definition demo_stopped_torrent :: Torrent where
  "demo_stopped_torrent =
     \<lparr>t_InfoHash = HexString demo_hash, t_Name = ''a.layer'', t_tt = 0, t_State = Dropped, t_Loaded = True,
      t_Seeding = False, t_Size = 3, t_Downloaded = 3\<rparr>"

definition demo_stopped :: bt where
  "demo_stopped =
     set_idInfo ''a'' demo_stopped_info (set_torrent (HexString demo_hash) demo_stopped_torrent
         (demo_bt\<lparr>handles := (\<lambda>_. newTorrent 0 demo_hash), next_handle := 1\<rparr>))"

lemma files_of_engine [simp]:
  fixes s :: "'z bt_scheme"
  shows "tree (set_idInfo idn i s) = tree s" "tree (set_torrent ih t s) = tree s"
    "inodes (set_idInfo idn i s) = inodes s" "inodes (set_torrent ih t s) = inodes s"
    "faults (set_idInfo idn i s) = faults s" "faults (set_torrent ih t s) = faults s"
    "next_ino (set_idInfo idn i s) = next_ino s" "next_ino (set_torrent ih t s) = next_ino s"
    "rnd (set_idInfo idn i s) = rnd s" "rnd (set_torrent ih t s) = rnd s"
    "node_at (set_idInfo idn i s) q = node_at s q" "node_at (set_torrent ih t s) q = node_at s q"
    "GetTorrentFilePath (engine (set_idInfo idn i s)) x = GetTorrentFilePath (engine s) x"
    "GetTorrentFilePath (engine (set_torrent ih t s)) x = GetTorrentFilePath (engine s) x"
    "GetFilePath (engine (set_idInfo idn i s)) x = GetFilePath (engine s) x"
    "GetFilePath (engine (set_torrent ih t s)) x = GetFilePath (engine s) x"
  by (simp_all add: set_idInfo_def set_torrent_def upd_engine_def node_at_def GetTorrentFilePath_def GetFilePath_def)

lemma wf_fs_engine [simp]:
  fixes s :: "'z bt_scheme"
  shows "wf_fs (set_idInfo idn i s) = wf_fs s" "wf_fs (set_torrent ih t s) = wf_fs s"
  by (simp_all add: wf_fs_def)

lemma demo_stopped:
  "bt_inv demo_stopped" "e_started (engine demo_stopped)" "e_client (engine demo_stopped) = Some 0"
  "info_of demo_stopped ''a'' = Some demo_stopped_info" "\<not> ii_Started demo_stopped_info"
  "torrent_of demo_stopped (ii_InfoHash demo_stopped_info) = Some demo_stopped_torrent"
  "t_State demo_stopped_torrent = Dropped" "wf_fs demo_stopped" "faults demo_stopped = []"
  "node_at demo_stopped (comps (GetTorrentFilePath (engine demo_stopped) ''a'')) = Some (File 0)"
  "mi_load demo_torrents (inodes demo_stopped 0) = Inr demo_mi"
  "ii_InfoHash demo_stopped_info = HexString (info_hash demo_torrents demo_mi)"
  "info_decode demo_torrents (mi_InfoBytes demo_mi) = Inr (mi_Info demo_mi)" "validateInfo (mi_Info demo_mi) = Inr ()"
  "client_Torrent 0 (info_hash demo_torrents demo_mi) demo_stopped = None"
proof -
  let ?b = "demo_bt\<lparr>handles := (\<lambda>_. newTorrent 0 demo_hash), next_handle := 1\<rparr>"
  have ct: "client_Torrent k ih ?b = None" for k ih
    using demo_bt_simps(10) [of k ih] by (simp add: client_Torrent_def)
  have b: "e_ts (engine ?b) = []" "e_idInfos (engine ?b) = []" "gos ?b = []" "e_client (engine ?b) = Some 0"
    using demo_bt_simps by simp_all
  have "handles_ok ?b"
    unfolding handles_ok_def ct using demo_mi_simps(5) by (simp add: newTorrent_def)
  then have inv: "bt_inv ?b" by (simp add: bt_inv_def b)
  show "bt_inv demo_stopped"
    unfolding demo_stopped_def demo_stopped_info_def demo_stopped_torrent_def
    by (intro bt_inv_set_idInfo bt_inv_set_torrent inv) (simp_all add: tor_ok_def hash_known_def newTorrent_def)
  have nodes: "node_at ?b = node_at demo_bt" by (simp add: node_at_def fun_eq_iff)
  have wf: "wf_fs ?b" using demo_bt_wf unfolding wf_fs_def nodes by simp
  have path: "GetTorrentFilePath (engine ?b) x = GetTorrentFilePath (engine demo_bt) x" for x by simp
  show "wf_fs demo_stopped" using wf by (simp add: demo_stopped_def)
  show "node_at demo_stopped (comps (GetTorrentFilePath (engine demo_stopped) ''a'')) = Some (File 0)"
    using demo_paths(1) demo_bt_nodes(1) unfolding demo_stopped_def files_of_engine nodes path by simp
  show "client_Torrent 0 (info_hash demo_torrents demo_mi) demo_stopped = None"
    using ct by (simp add: demo_stopped_def)
  show "mi_load demo_torrents (inodes demo_stopped 0) = Inr demo_mi" "validateInfo (mi_Info demo_mi) = Inr ()"
    "info_decode demo_torrents (mi_InfoBytes demo_mi) = Inr (mi_Info demo_mi)"
    using demo_mi_simps by (simp_all add: demo_stopped_def)
qed (simp_all add: demo_stopped_def demo_stopped_info_def demo_stopped_torrent_def demo_hash_def)

end
