(* ===== verification/Bt_Properties.thy ===== *)
theory Bt_Properties
  imports Bt_Demo
begin

text \<open>
  What the BitTorrent engine does over sequences of calls: the invariant of every reachable
  state, the effect of starts, stops and deletes on the registry, the cache and the client, and
  where the engine falls short of what it means to do. The statements are instantiated on the
  engine of Bt_Demo.
\<close>

section \<open>Reachable states\<close>

text \<open>
  The engine at work: API calls in any order, the goroutines the starts left behind whenever
  their torrent has its info, and transfers.
\<close>

inductive bt_step :: "codec \<Rightarrow> 'z bt_scheme \<Rightarrow> 'z bt_scheme \<Rightarrow> bool" for c where
  run_step: "bt_step c s (snd (Run c s))"
| seed_step: "bt_step c s (snd (StartSeed c idn s))"
| leech_step: "bt_step c s (snd (StartLeecher c (\<lambda>s. s) n idn d p s))"
| stop_step: "bt_step c s (snd (StopTorrent idn s))"
| delete_step: "bt_step c s (snd (DeleteTorrent idn s))"
| status_step: "bt_step c s (snd (GetStatus idn s))"
| all_step: "bt_step c s (snd (GetAllStatus order s))"
| torrents_step: "bt_step c s (snd (GetTorrents s))"
| goroutine_step: "g \<in> set (gos s) \<Longrightarrow> haveInfo (handles s (fst g)) \<Longrightarrow>
    bt_step c s (snd (run_goroutine g (s\<lparr>gos := remove1 g (gos s)\<rparr>)))"
| transfer_step: "bt_step c s (progress h left complete pending s)"

inductive bt_reach :: "codec \<Rightarrow> 'z bt_scheme \<Rightarrow> 'z bt_scheme \<Rightarrow> bool" for c s where
  reach_init: "bt_reach c s s"
| reach_step: "bt_reach c s t \<Longrightarrow> bt_step c t u \<Longrightarrow> bt_reach c s u"

inductive_cases bt_stepE: "bt_step c s t"

lemma bt_step_inv:
  assumes c: "codec_laws c"
  shows "bt_step c s t \<Longrightarrow> bt_inv s \<Longrightarrow> bt_inv t"
proof (induction rule: bt_step.induct)
  case (leech_step s n idn d p)
  have "keeps bt_inv (StartLeecher c (\<lambda>s :: 'a bt_scheme. s) n idn d p)" by (rule StartLeecher_inv [OF c])
  then show ?case using leech_step by (rule keepsD)
next
  case (goroutine_step g s)
  let ?s = "s\<lparr>gos := remove1 g (gos s)\<rparr>"
  have "bt_inv ?s" using goroutine_step by (auto intro!: bt_inv_gos dest: set_remove1_subset [THEN subsetD])
  moreover have "hash_known ?s (snd g)"
    using goroutine_step by (auto simp: bt_inv_def hash_known_def)
  ultimately show ?case
    using triple_snd [OF triple_weaken [OF run_goroutine_triple [of g]], of "\<lambda>s. bt_inv s \<and> hash_known s (snd g)" bt_inv ?s]
    by blast
next
  case (transfer_step s h left complete pending)
  then show ?case by (simp add: progress_def bt_inv_upd_handle)
qed (use c in \<open>auto intro: keepsD [OF Run_inv] keepsD [OF StartSeed_inv] keepsD [OF DeleteTorrent_inv]
    keepsD [OF StopTorrent_inv] keepsD [OF GetStatus_inv]
    keepsD [OF GetAllStatus_inv] keepsD [OF GetTorrents_inv]\<close>)

lemma bt_reach_inv: "codec_laws c \<Longrightarrow> bt_reach c s t \<Longrightarrow> bt_inv s \<Longrightarrow> bt_inv t"
  by (rotate_tac 1, induction rule: bt_reach.induct) (auto intro: bt_step_inv)

text \<open>C9. In every state the engine can reach, by API calls in any order interleaved with the
  goroutines of earlier starts and with transfers, a cached torrent sits under the hash of its
  handle, every registered ID has a hash that can be parsed, and so neither \<open>GetStatus\<close>,
  \<open>StopTorrent\<close> nor a pending goroutine can panic.\<close>

theorem engine_invariant:
  assumes "codec_laws c" "new_engine s" "bt_reach c s t"
  shows "bt_inv t \<and> (\<forall>x u. GetStatus idn t = (Inl x, u) \<longrightarrow> \<not> is_panic x) \<and>
    (\<forall>x u. StopTorrent idn t = (Inl x, u) \<longrightarrow> \<not> is_panic x) \<and>
    (\<forall>g \<in> set (gos t). \<exists>u. run_goroutine g t = (Inr (), u))"
proof (intro conjI)
  show inv: "bt_inv t" using bt_reach_inv [OF assms(1,3)] new_engine_inv [OF assms(2)] by blast
  show "\<forall>x u. GetStatus idn t = (Inl x, u) \<longrightarrow> \<not> is_panic x"
    using tripleD_Inl [OF GetStatus_triple inv] by blast
  show "\<forall>x u. StopTorrent idn t = (Inl x, u) \<longrightarrow> \<not> is_panic x"
    using tripleD_Inl [OF StopTorrent_triple inv] by blast
  show "\<forall>g \<in> set (gos t). \<exists>u. run_goroutine g t = (Inr (), u)"
  proof
    fix g assume "g \<in> set (gos t)"
    then have "bt_inv t \<and> hash_known t (snd g)" using inv by (auto simp: bt_inv_def)
    note go = tripleD_Inl [OF run_goroutine_triple this]
    obtain r u where m: "run_goroutine g t = (r, u)" by fastforce
    then show "\<exists>u. run_goroutine g t = (Inr (), u)" using go by (cases r) auto
  qed
qed

theorem engine_invariant_witness:
  "bt_inv (snd (StartSeed demo_torrents ''a'' (snd (Run demo_torrents demo_new))))"
  using engine_invariant [OF demo_torrents_laws demo_new_engine
      reach_step [OF reach_step [OF reach_init run_step] seed_step]]
  by blast

section \<open>Counting starts\<close>

definition starts :: "codec \<Rightarrow> string \<Rightarrow> nat \<Rightarrow> 'z bt_scheme \<Rightarrow> 'z bt_scheme" where
  "starts c idn m = (\<lambda>s. snd (StartSeed c idn s)) ^^ m"

definition stops :: "string \<Rightarrow> nat \<Rightarrow> 'z bt_scheme \<Rightarrow> 'z bt_scheme" where
  "stops idn k = (\<lambda>s. snd (StopTorrent idn s)) ^^ k"

text \<open>C19. Starts are not counted right: the first start leaves the count at 0, so after
  \<open>m + 1\<close> starts the ID survives only \<open>max 1 m - 1\<close> stops; the next one drops the torrent although,
  for \<open>m > 0\<close>, one start has not been stopped.\<close>

theorem starts_against_stops:
  assumes "running s idn ih 0 t"
  shows "(\<forall>k < max 1 m. \<exists>n. running (stops idn k (starts c idn m s)) idn ih n t) \<and>
    (\<exists>j. info_of (stops idn (max 1 m) (starts c idn m s)) idn = Some j \<and> \<not> ii_Started j) \<and>
    torrent_of (stops idn (max 1 m) (starts c idn m s)) ih = Some (t\<lparr>t_State := Dropped\<rparr>)"
proof -
  let ?s = "starts c idn m s"
  have st: "running ?s idn ih (int m) t"
    unfolding starts_def
    by (induction m) (use assms(1) in \<open>auto dest: running_start simp: add.commute\<close>)
  have k: "running (stops idn k ?s) idn ih (int m - int k) t" if "k < max 1 m" for k
    using that
  proof (induction k)
    case (Suc k)
    have "running (stops idn k ?s) idn ih (int m - int k) t" using Suc by simp
    moreover have "int m - int k > 1" using Suc.prems by (simp split: if_splits)
    ultimately show ?case using running_stop [of "stops idn k ?s" idn ih "int m - int k" t] by (simp add: stops_def algebra_simps)
  qed (use st in \<open>simp add: stops_def\<close>)
  have last: "running (stops idn (max 1 m - 1) ?s) idn ih (int m - int (max 1 m - 1)) t" by (rule k) simp
  have "int m - int (max 1 m - 1) \<le> 1" by simp
  note ends = running_last_stop [OF last this]
  have Suc_max: "Suc (max 1 m - 1) = max 1 m" by simp
  have stop1: "stops idn (Suc k) u = snd (StopTorrent idn (stops idn k u))" for k and u :: "'a bt_scheme"
    by (simp add: stops_def)
  from ends have
    "\<exists>j. info_of (stops idn (Suc (max 1 m - 1)) ?s) idn = Some j \<and> \<not> ii_Started j"
    "torrent_of (stops idn (Suc (max 1 m - 1)) ?s) ih = Some (t\<lparr>t_State := Dropped\<rparr>)"
    unfolding stop1 by auto
  then show ?thesis using k unfolding Suc_max by blast
qed

theorem starts_against_stops_witness:
  "\<exists>t. torrent_of (stops ''a'' 2 (starts demo_torrents ''a'' 2 (snd (StartSeed demo_torrents ''a'' demo_bt))))
     (HexString demo_hash) = Some (t\<lparr>t_State := Dropped\<rparr>)"
proof -
  obtain t u where u: "StartSeed demo_torrents ''a'' demo_bt = (Inr (), u)" "running u ''a'' (HexString demo_hash) 0 t"
    by (rule demo_seeded)
  have "torrent_of (stops ''a'' (max 1 2) (starts demo_torrents ''a'' 2 u)) (HexString demo_hash) = Some (t\<lparr>t_State := Dropped\<rparr>)"
    using starts_against_stops [OF u(2), of 2 demo_torrents] by blast
  moreover have "max 1 2 = (2 :: nat)" by simp
  ultimately show ?thesis unfolding u(1) snd_conv by metis
qed

text \<open>C20. The stop that takes effect drops the torrent: it returns without error, the client has no
  torrent under the hash any more, the cached torrent is \<open>Dropped\<close>, the ID is no longer
  started, and no other ID or cached torrent has changed.\<close>

theorem last_stop_drops:
  assumes "running s idn ih n t" "n \<le> 1"
  shows "\<exists>j u. StopTorrent idn s = (Inr (), u) \<and> info_of u idn = Some j \<and> \<not> ii_Started j \<and>
    torrent_of u ih = Some (t\<lparr>t_State := Dropped\<rparr>) \<and>
    client_Torrent (h_client (handles s (t_tt t))) (h_hash (handles s (t_tt t))) u = None \<and>
    (\<forall>x. x \<noteq> idn \<longrightarrow> info_of u x = info_of s x) \<and> (\<forall>x. x \<noteq> ih \<longrightarrow> torrent_of u x = torrent_of s x)"
  by (rule running_last_stop [OF assms])

theorem last_stop_drops_witness:
  "\<exists>u. StopTorrent ''a'' (snd (StartSeed demo_torrents ''a'' demo_bt)) = (Inr (), u) \<and>
     client_Torrent 0 demo_hash u = None"
proof -
  obtain t u where u: "StartSeed demo_torrents ''a'' demo_bt = (Inr (), u)" "running u ''a'' (HexString demo_hash) 0 t"
    "t_tt t = 0" "client_Torrent 0 demo_hash u = Some 0"
    by (rule demo_seeded)
  have "h_client (handles u 0) = 0" "h_hash (handles u 0) = demo_hash"
    using u(2,4) by (auto simp: running_def bt_inv_def handles_ok_def)
  then show ?thesis using last_stop_drops [OF u(2)] u(1,3) by auto
qed

section \<open>Starting\<close>

text \<open>C21. A torrent that was stopped is not started again: the second \<open>StartSeed\<close> succeeds and the
  client gets a new, open handle, but the cache keeps the dropped one in the state \<open>Dropped\<close>.
  The goroutine left behind works on the old handle, and a \<open>StopTorrent\<close> before it has run fails
  with "Already stopped", leaving the new handle in the client.\<close>

theorem restart_keeps_old_handle:
  assumes "codec_laws c" "bt_inv s" "e_started (engine s)" "e_client (engine s) = Some k"
    and "info_of s idn = Some i" "\<not> ii_Started i" "torrent_of s (ii_InfoHash i) = Some t" "t_State t = Dropped"
    and "wf_fs s" "faults s = []"
    and "node_at s (comps (GetTorrentFilePath (engine s) idn)) = Some (File f)" "mi_load c (inodes s f) = Inr m"
    and "ii_InfoHash i = HexString (info_hash c m)" "info_decode c (mi_InfoBytes m) = Inr j" "validateInfo j = Inr ()"
    and "client_Torrent k (info_hash c m) s = None"
  shows "\<exists>u h t'. StartSeed c idn s = (Inr (), u) \<and>
    client_Torrent k (info_hash c m) u = Some h \<and> h \<noteq> t_tt t \<and> \<not> h_closed (handles u h) \<and>
    torrent_of u (ii_InfoHash i) = Some t' \<and> t_tt t' = t_tt t \<and> t_State t' = Dropped \<and>
    gos u = gos s @ [(t_tt t, ii_InfoHash i)] \<and>
    (\<exists>v. StopTorrent idn u = (Inl (Wrap ''Stop torrent failed'' (Msg ''Already stopped'')), v) \<and>
       client_Torrent k (info_hash c m) v = Some h \<and> (\<exists>j. info_of v idn = Some j \<and> ii_Started j \<and> ii_Count j = - 1))"
proof -
  let ?ih = "ii_InfoHash i"
  obtain t' u where u: "register c idn m s = (Inr t', u)" "client_Torrent k (info_hash c m) u = Some (next_handle s)"
    "\<not> h_closed (handles u (next_handle s))" "torrent_of u = (torrent_of s)(?ih \<mapsto> t')"
    "info_of u = (info_of s)(idn \<mapsto> \<lparr>ii_Id = idn, ii_InfoHash = t_InfoHash t', ii_Started = True, ii_Count = 0\<rparr>)"
    "gos u = gos s @ [(t_tt t', t_InfoHash t')]" "e_started (engine u)"
    "t_tt t' = t_tt t" "t_State t' = t_State t" "t_InfoHash t' = t_InfoHash t"
    using register_new [OF assms(1,4,16,14,15,13), of idn] assms(3,7) by auto
  have tih: "t_InfoHash t = ?ih" "t_tt t < next_handle s"
    using bt_inv_torrent [OF assms(2,7)] by (auto simp: tor_ok_def)
  have s: "StartSeed c idn s = (Inr (), u)"
    using StartSeed_loaded [OF assms(3) _ assms(9-12)] assms(5,6) u(1) by (simp add: run bindE_def)
  have keeps: "keeps bt_inv (StartSeed c idn :: ('a bt_scheme, unit) call)" by (rule StartSeed_inv [OF assms(1)])
  have inv: "bt_inv u" using keepsD [OF keeps assms(2)] s by simp
  let ?i = "\<lparr>ii_Id = idn, ii_InfoHash = ?ih, ii_Started = True, ii_Count = 0\<rparr>"
  have iu: "info_of u idn = Some ?i" "torrent_of u ?ih = Some t'" using u tih by simp_all
  have stop: "StopTorrent idn u = (Inl (Wrap ''Stop torrent failed'' (Msg ''Already stopped'')),
       set_idInfo idn \<lparr>ii_Id = idn, ii_InfoHash = ?ih, ii_Started = True, ii_Count = - 1\<rparr> u)"
    using StopTorrent_last [OF inv u(7) iu(1)] iu(2) u(9) assms(8) by (simp add: Let_def)
  show ?thesis using s u tih assms(8) stop by auto
qed

theorem restart_keeps_old_handle_witness:
  "\<exists>u v. StartSeed demo_torrents ''a'' demo_stopped = (Inr (), u) \<and>
     StopTorrent ''a'' u = (Inl (Wrap ''Stop torrent failed'' (Msg ''Already stopped'')), v)"
  using restart_keeps_old_handle [OF demo_torrents_laws demo_stopped]
  by blast

text \<open>C18. A start of an ID that is not started is all or nothing. When \<open>StartSeed\<close> (or
  \<open>StartLeecher\<close>) succeeds, the ID is registered as started with count 0 under the hash of
  a torrent that is now in the cache, and exactly one goroutine is left behind for it; when it fails,
  under whatever fault, neither the registry nor the cache nor the pending goroutines changed.\<close>

theorem start_effect:
  fixes s :: "'z bt_scheme"
  assumes "codec_laws c" "bt_inv s" "e_started (engine s)" "\<nexists>i. info_of s idn = Some i \<and> ii_Started i"
    and call: "StartSeed c idn s = (r, u) \<or> (\<exists>r' n d. StartLeecher c (\<lambda>s. s) n idn d False s = (r', u) \<and> r = map_sum (\<lambda>x. x) (\<lambda>_. ()) r')"
  shows "(\<exists>x. r = Inl x \<and> engine u = engine s \<and> gos u = gos s) \<or>
    (r = Inr () \<and> (\<exists>t. info_of u = (info_of s)(idn \<mapsto> \<lparr>ii_Id = idn, ii_InfoHash = t_InfoHash t, ii_Started = True, ii_Count = 0\<rparr>) \<and>
      torrent_of u = (torrent_of s)(t_InfoHash t \<mapsto> t) \<and> gos u = gos s @ [(t_tt t, t_InfoHash t)]))"
proof -
  have at: "at_engine (engine s) (gos s) s" by (simp add: at_engine_def)
  have ks: "keeps bt_inv (StartSeed c idn :: ('z bt_scheme, unit) call)" by (rule StartSeed_inv [OF assms(1)])
  have kl: "keeps bt_inv (StartLeecher c (\<lambda>s. s) n idn d False :: ('z bt_scheme, bool) call)" for n d
    by (rule StartLeecher_inv [OF assms(1)])
  have inv: "bt_inv u" using call keepsD [OF ks assms(2)] keepsD [OF kl assms(2)] by (metis snd_conv)
  have no: "\<not> ii_Started i" if "info_of s idn = Some i" for i using assms(4) that by blast
  have fs: "triple (at_engine (engine s) (gos s)) (StartSeed c idn :: ('z bt_scheme, unit) call)
      (\<lambda>_. registered (engine s) (gos s) idn) (\<lambda>_. at_engine (engine s) (gos s))"
    by (rule StartSeed_frame [OF assms(3) no])
  have fl: "triple (at_engine (engine s) (gos s)) (StartLeecher c (\<lambda>s. s) n idn d False :: ('z bt_scheme, bool) call)
      (\<lambda>_. registered (engine s) (gos s) idn) (\<lambda>_. at_engine (engine s) (gos s))" for n d
    by (rule StartLeecher_frame [OF assms(3) no])
  have "case r of Inl x \<Rightarrow> at_engine (engine s) (gos s) u | Inr x \<Rightarrow> registered (engine s) (gos s) idn u"
    using call
  proof
    assume "StartSeed c idn s = (r, u)"
    then show ?thesis using tripleD_Inl [OF fs at] tripleD_Inr [OF fs at] by (cases r) auto
  next
    assume "\<exists>r' n d. StartLeecher c (\<lambda>s. s) n idn d False s = (r', u) \<and> r = map_sum (\<lambda>x. x) (\<lambda>_. ()) r'"
    then obtain r' n d where r': "StartLeecher c (\<lambda>s. s) n idn d False s = (r', u)" "r = map_sum (\<lambda>x. x) (\<lambda>_. ()) r'" by blast
    have "case r' of Inl x \<Rightarrow> at_engine (engine s) (gos s) u | Inr x \<Rightarrow> registered (engine s) (gos s) idn u"
      using tripleD_Inl [OF fl at] tripleD_Inr [OF fl at] r'(1) by (cases r') auto
    then show ?thesis using r'(2) by (cases r') simp_all
  qed
  then show ?thesis using registeredD [OF _ inv] by (cases r) (simp_all add: at_engine_def)
qed

theorem start_effect_witness:
  "\<exists>(t :: Torrent) u. StartSeed demo_torrents ''a'' demo_bt = (Inr (), u) \<and> gos u = [(t_tt t, t_InfoHash t)]"
proof -
  obtain t u where u: "StartSeed demo_torrents ''a'' demo_bt = (Inr (), u)"
    by (rule demo_seeded)
  have "\<nexists>i. info_of demo_bt ''a'' = Some i \<and> ii_Started i" by simp
  from start_effect [OF demo_torrents_laws demo_bt_inv demo_bt_simps(2) this disjI1 [OF u]]
  have "\<exists>t :: Torrent. gos u = gos demo_bt @ [(t_tt t, t_InfoHash t)]" by blast
  then show ?thesis using u by simp
qed

end

