(* ===== verification/Bt_Registry.thy ===== *)
theory Bt_Registry
  imports Bt_Properties
begin

text \<open>
  The registry of IDs as an abstract machine: which IDs are started, each with its count. A step of the
  machine is labelled with a call of the engine and the outcome of the call, which determine what it
  does; every run of the engine is, call by call and outcome by outcome, a run of the machine.
\<close>

section \<open>The machine\<close>

type_synonym registry = "string \<Rightarrow> int option"

definition registry_of :: "'z bt_scheme \<Rightarrow> registry" where
  "registry_of s = (\<lambda>idn. case info_of s idn of
     None \<Rightarrow> None | Some i \<Rightarrow> if ii_Started i then Some (ii_Count i) else None)"

text \<open>A start counts from 0; a stop of a started ID counts down, the last one ends it.\<close>

definition reg_start :: "string \<Rightarrow> registry \<Rightarrow> registry" where
  "reg_start idn A = A(idn \<mapsto> (case A idn of None \<Rightarrow> 0 | Some n \<Rightarrow> n + 1))"

definition reg_stop :: "string \<Rightarrow> registry \<Rightarrow> registry" where
  "reg_stop idn A =
     (case A idn of None \<Rightarrow> A | Some n \<Rightarrow> if n > 1 then A(idn \<mapsto> n - 1) else A(idn := None))"

text \<open>What can happen to an engine: its calls, the goroutines of the starts, transfers.\<close>

datatype bt_op =
    Op_Run
  | Op_Seed string
  | Op_Leech string bytes bool nat
  | Op_Stop string
  | Op_Delete string
  | Op_Status string
  | Op_AllStatus "string list"
  | Op_Torrents
  | Op_Goroutine "nat \<times> string"
  | Op_Transfer nat int bool bool

fun starts_id :: "bt_op \<Rightarrow> string option" where
  "starts_id (Op_Seed idn) = Some idn"
| "starts_id (Op_Leech idn d p n) = Some idn"
| "starts_id _ = None"

text \<open>The calls that only look at the registry.\<close>

fun quiet :: "bt_op \<Rightarrow> bool" where
  "quiet (Op_Status idn) = True"
| "quiet (Op_AllStatus order) = True"
| "quiet Op_Torrents = True"
| "quiet (Op_Goroutine g) = True"
| "quiet (Op_Transfer h left complete pending) = True"
| "quiet _ = False"

inductive reg_step :: "bt_op \<Rightarrow> unit result \<Rightarrow> registry \<Rightarrow> registry \<Rightarrow> bool" where
  reg_off: "op \<noteq> Op_Run \<Longrightarrow> reg_step op (Inl ErrBtEngineNotStart) A A"
| reg_start_ok: "starts_id op = Some idn \<Longrightarrow> reg_step op (Inr ()) A (reg_start idn A)"
| reg_start_fails: "starts_id op = Some idn \<Longrightarrow> A idn = None \<Longrightarrow> reg_step op (Inl x) A A"
| reg_stop_ok: "reg_step (Op_Stop idn) (Inr ()) A (reg_stop idn A)"
| reg_stop_fails: "A idn = Some n \<Longrightarrow> n \<le> 1 \<Longrightarrow> reg_step (Op_Stop idn) (Inl (Wrap w x)) A (A(idn \<mapsto> n - 1))"
| reg_delete: "A idn = None \<Longrightarrow> reg_step (Op_Delete idn) r A A"
| reg_delete_fails: "A idn = Some n \<Longrightarrow> reg_step (Op_Delete idn) (Inl x) A A"
| reg_look: "quiet op \<Longrightarrow> reg_step op r A A"
| reg_restart: "(\<And>idn. idn \<in> set ids \<Longrightarrow> dot \<notin> set idn) \<Longrightarrow> reg_step Op_Run r A (fold reg_start ids A)"

inductive reg_run :: "registry \<Rightarrow> (bt_op \<times> unit result) list \<Rightarrow> registry \<Rightarrow> bool" for A where
  reg_init: "reg_run A [] A"
| reg_call: "reg_run A tr B \<Longrightarrow> reg_step op r B C \<Longrightarrow> reg_run A (tr @ [(op, r)]) C"

inductive_cases reg_runE: "reg_run A tr B"

text \<open>Call and outcome determine what happens, but for \<open>Run\<close>, which starts what it finds on disk.\<close>

lemma reg_step_det: "reg_step op r A B \<Longrightarrow> reg_step op r A C \<Longrightarrow> op \<noteq> Op_Run \<Longrightarrow> B = C"
proof (induction rule: reg_step.induct)
  case (reg_start_ok op idn A)
  then show ?case by (cases op) (auto elim: reg_step.cases)
next
  case (reg_look op r A)
  then show ?case by (cases op) (auto elim: reg_step.cases)
qed (auto elim: reg_step.cases)

lemma reg_run_det: "reg_run A tr B \<Longrightarrow> Op_Run \<notin> fst ` set tr \<Longrightarrow> reg_run A tr C \<Longrightarrow> C = B"
proof (induction arbitrary: C rule: reg_run.induct)
  case reg_init
  then show ?case by (auto elim: reg_runE)
next
  case (reg_call tr B op r D)
  from reg_call.prems(2) obtain B' where "reg_run A tr B'" "reg_step op r B' C" by (auto elim: reg_runE)
  then show ?case using reg_call.IH reg_call.prems(1) reg_call.hyps(2) reg_step_det by auto
qed

section \<open>Runs of the engine\<close>

definition outcome :: "('s, 'v) call \<Rightarrow> ('s, unit) call" where
  "outcome m = bindE m (\<lambda>_. returnE ())"

fun bt_exec :: "codec \<Rightarrow> bt_op \<Rightarrow> ('z bt_scheme, unit) call" where
  "bt_exec c Op_Run = Run c"
| "bt_exec c (Op_Seed idn) = StartSeed c idn"
| "bt_exec c (Op_Leech idn d p n) = outcome (StartLeecher c (\<lambda>s. s) n idn d p)"
| "bt_exec c (Op_Stop idn) = StopTorrent idn"
| "bt_exec c (Op_Delete idn) = DeleteTorrent idn"
| "bt_exec c (Op_Status idn) = outcome (GetStatus idn)"
| "bt_exec c (Op_AllStatus order) = outcome (GetAllStatus order)"
| "bt_exec c Op_Torrents = outcome GetTorrents"
| "bt_exec c (Op_Goroutine g) = bindE (modifyE (\<lambda>s. s\<lparr>gos := remove1 g (gos s)\<rparr>)) (\<lambda>_. run_goroutine g)"
| "bt_exec c (Op_Transfer h left complete pending) = modifyE (progress h left complete pending)"

text \<open>A goroutine runs once, when its torrent has its info.\<close>

fun enabled :: "bt_op \<Rightarrow> 'z bt_scheme \<Rightarrow> bool" where
  "enabled (Op_Goroutine g) s \<longleftrightarrow> g \<in> set (gos s) \<and> haveInfo (handles s (fst g))"
| "enabled _ s \<longleftrightarrow> True"

inductive bt_run :: "codec \<Rightarrow> 'z bt_scheme \<Rightarrow> (bt_op \<times> unit result) list \<Rightarrow> 'z bt_scheme \<Rightarrow> bool" for c s where
  run_init: "bt_run c s [] s"
| run_call: "bt_run c s tr t \<Longrightarrow> enabled op t \<Longrightarrow> bt_exec c op t = (r, u) \<Longrightarrow> bt_run c s (tr @ [(op, r)]) u"

lemma outcome_run: "outcome m s = (map_sum (\<lambda>x. x) (\<lambda>_. ()) (fst (m s)), snd (m s))"
  by (simp add: outcome_def bindE_def returnE_def split: prod.split sum.split)

lemma bt_exec_step: "enabled op t \<Longrightarrow> bt_exec c op t = (r, u) \<Longrightarrow> bt_step c t u"
proof (cases op)
  case Op_Run
  then show "bt_exec c op t = (r, u) \<Longrightarrow> bt_step c t u" using run_step [of c t] by simp
next
  case (Op_Seed idn)
  then show "bt_exec c op t = (r, u) \<Longrightarrow> bt_step c t u" using seed_step [of c t idn] by simp
next
  case (Op_Stop idn)
  then show "bt_exec c op t = (r, u) \<Longrightarrow> bt_step c t u" using stop_step [of c t idn] by simp
next
  case (Op_Delete idn)
  then show "bt_exec c op t = (r, u) \<Longrightarrow> bt_step c t u" using delete_step [of c t idn] by simp
next
  case (Op_Goroutine g)
  then show "enabled op t \<Longrightarrow> bt_exec c op t = (r, u) \<Longrightarrow> bt_step c t u" using goroutine_step [of g t c] by (simp add: run bindE_def)
qed (auto simp: outcome_run run intro: bt_step.intros)

lemma bt_run_inv:
  assumes "codec_laws c" "bt_inv s"
  shows "bt_run c s tr t \<Longrightarrow> bt_inv t"
  by (induction rule: bt_run.induct) (use assms in \<open>auto intro: bt_step_inv bt_exec_step\<close>)

section \<open>What calls do to the registry\<close>

lemma registry_of_cong: "info_of t = info_of s \<Longrightarrow> registry_of t = registry_of s"
  by (simp add: registry_of_def)

lemma registry_of_upd:
  "info_of t = (info_of s)(idn \<mapsto> i) \<Longrightarrow>
   registry_of t = (registry_of s)(idn := if ii_Started i then Some (ii_Count i) else None)"
  by (simp add: registry_of_def fun_eq_iff)

section \<open>Starts\<close>

text \<open>What a start with the outcome \<open>r\<close> leaves of the registry \<open>A\<close>.\<close>

definition reg_started :: "string \<Rightarrow> 'v result \<Rightarrow> registry \<Rightarrow> registry \<Rightarrow> bool" where
  "reg_started idn r A B \<longleftrightarrow>
     (case r of Inl x \<Rightarrow> B = A \<and> (x = ErrBtEngineNotStart \<or> A idn = None) | Inr _ \<Rightarrow> B = reg_start idn A)"

lemma reg_startedD: "starts_id op = Some idn \<Longrightarrow> reg_started idn r A B \<Longrightarrow> reg_step op (map_sum (\<lambda>x. x) (\<lambda>_. ()) r) A B"
  by (cases r; cases op) (auto simp: reg_started_def intro: reg_step.intros)

lemma started_again:
  assumes "info_of s idn = Some i" "ii_Started i"
  shows "reg_started idn (Inr x) (registry_of s) (registry_of (set_idInfo idn (i\<lparr>ii_Count := ii_Count i + 1\<rparr>) s))"
proof -
  have "registry_of s idn = Some (ii_Count i)" using assms by (simp add: registry_of_def)
  moreover have "registry_of (set_idInfo idn (i\<lparr>ii_Count := ii_Count i + 1\<rparr>) s) = (registry_of s)(idn \<mapsto> ii_Count i + 1)"
    using assms by (subst registry_of_upd [where s = s and idn = idn and i = "i\<lparr>ii_Count := ii_Count i + 1\<rparr>"]) simp_all
  ultimately show ?thesis by (simp add: reg_started_def reg_start_def)
qed

lemma registered_step:
  assumes "registered (engine s) G idn u" "\<And>i. info_of s idn = Some i \<Longrightarrow> \<not> ii_Started i"
  shows "reg_started idn (Inr x) (registry_of s) (registry_of u)"
proof -
  obtain t :: Torrent where u: "info_of u = (info_of s)(idn \<mapsto> \<lparr>ii_Id = idn, ii_InfoHash = t_InfoHash t, ii_Started = True, ii_Count = 0\<rparr>)"
    using assms(1) by (auto simp: registered_def)
  have "registry_of s idn = None" using assms(2) by (auto simp: registry_of_def split: option.split)
  then show ?thesis by (simp add: reg_started_def reg_start_def registry_of_upd [OF u])
qed

text \<open>A call that registers the ID when it succeeds and keeps the engine as it was when it fails.\<close>

lemma registering_call:
  fixes s :: "'z bt_scheme"
  assumes f: "triple (at_engine (engine s) (gos s)) m (\<lambda>_. registered (engine s) (gos s) idn) (\<lambda>_. at_engine (engine s) (gos s))"
    and no: "\<And>i. info_of s idn = Some i \<Longrightarrow> \<not> ii_Started i"
  shows "reg_started idn (fst (m s)) (registry_of s) (registry_of (snd (m s)))"
proof -
  have at: "at_engine (engine s) (gos s) s" by (simp add: at_engine_def)
  have none: "registry_of s idn = None" using no by (auto simp: registry_of_def split: option.split)
  obtain r u where m: "m s = (r, u)" by fastforce
  show ?thesis
  proof (cases r)
    case (Inl x)
    have "at_engine (engine s) (gos s) u" by (rule tripleD_Inl [OF f at, where e = x]) (use m Inl in simp)
    then have "registry_of u = registry_of s" by (intro registry_of_cong) (simp add: at_engine_def)
    then show ?thesis using m Inl none by (simp add: reg_started_def)
  next
    case (Inr x)
    then have "registered (engine s) (gos s) idn u" using tripleD_Inr [OF f at] m by simp
    from registered_step [OF this no] show ?thesis using m Inr by simp
  qed
qed

lemma StartSeed_registry: "reg_started idn (fst (StartSeed c idn s)) (registry_of s) (registry_of (snd (StartSeed c idn s)))"
proof (cases "e_started (engine s)")
  case True
  note st = this
  show ?thesis
  proof (cases "\<exists>i. info_of s idn = Some i \<and> ii_Started i")
    case True
    then obtain i where i: "info_of s idn = Some i" "ii_Started i" by blast
    show ?thesis unfolding StartSeed_again [OF st i] fst_conv snd_conv by (rule started_again [OF i])
  next
    case False
    then have no: "\<And>i. info_of s idn = Some i \<Longrightarrow> \<not> ii_Started i" by blast
    show ?thesis by (rule registering_call [OF StartSeed_frame [OF st no] no])
  qed
qed (simp add: StartSeed_def when_started_run reg_started_def)

text \<open>With nothing going on outside, waiting changes nothing.\<close>

lemma waitComplete_id: "\<exists>b. waitComplete (\<lambda>s. s) n tt s = (Inr b, s)"
  by (induction n) (auto simp: run bindE_def ex_bool_eq)

lemma StartLeecher_waits:
  "\<exists>b. StartLeecher c (\<lambda>s. s) n idn d p s =
     (map_sum (\<lambda>x. x) (\<lambda>_. b) (fst (StartLeecher c (\<lambda>s. s) n idn d False s)), snd (StartLeecher c (\<lambda>s. s) n idn d False s))"
proof (cases "e_started (engine s)")
  case st: True
  show ?thesis
  proof (cases "(\<exists>i. info_of s idn = Some i \<and> ii_Started i) \<or> isl (mi_load c d)")
    case True
    then show ?thesis
      using st by (cases "info_of s idn"; cases "mi_load c d"; cases "ii_Started (the (info_of s idn))")
        (auto simp: StartLeecher_def when_started_run call_simps wrapE_run bindE_def)
  next
    case False
    then obtain m where m: "mi_load c d = Inr m" by (cases "mi_load c d") auto
    have wait: "\<exists>b. waitComplete (\<lambda>s. s) n tt u = (Inr b, u)" for tt and u :: "'a bt_scheme" by (rule waitComplete_id)
    show ?thesis
    proof (cases "register c idn m s")
      case (Pair r u)
      show ?thesis
        using st False m Pair wait [of "t_tt (projr r)" u]
        by (cases "info_of s idn"; cases r) (auto simp: StartLeecher_def when_started_run call_simps wrapE_run bindE_def)
    qed
  qed
qed (auto simp: StartLeecher_def when_started_run)

lemma StartLeecher_registry:
  "reg_started idn (fst (StartLeecher c (\<lambda>s. s) n idn d p s)) (registry_of s) (registry_of (snd (StartLeecher c (\<lambda>s. s) n idn d p s)))"
proof -
  let ?m = "StartLeecher c (\<lambda>s :: 'a bt_scheme. s) n idn d False"
  have "reg_started idn (fst (?m s)) (registry_of s) (registry_of (snd (?m s)))"
  proof (cases "e_started (engine s)")
    case True
    note st = this
    show ?thesis
    proof (cases "\<exists>i. info_of s idn = Some i \<and> ii_Started i")
      case True
      then obtain i where i: "info_of s idn = Some i" "ii_Started i" by blast
      show ?thesis unfolding StartLeecher_again [OF st i] fst_conv snd_conv by (rule started_again [OF i])
    next
      case False
      then have no: "\<And>i. info_of s idn = Some i \<Longrightarrow> \<not> ii_Started i" by blast
      show ?thesis by (rule registering_call [OF StartLeecher_frame [OF st no] no])
    qed
  qed (simp add: StartLeecher_def when_started_run reg_started_def)
  moreover obtain b where "StartLeecher c (\<lambda>s. s) n idn d p s = (map_sum (\<lambda>x. x) (\<lambda>_. b) (fst (?m s)), snd (?m s))"
    using StartLeecher_waits by blast
  ultimately show ?thesis by (cases "fst (?m s)") (simp_all add: reg_started_def)
qed

section \<open>Stops and the rest\<close>

lemma StopTorrent_registry:
  assumes inv: "bt_inv s"
  shows "reg_step (Op_Stop idn) (fst (StopTorrent idn s)) (registry_of s) (registry_of (snd (StopTorrent idn s)))"
proof (cases "e_started (engine s) \<and> (\<exists>i. info_of s idn = Some i \<and> ii_Started i)")
  case False
  then have "registry_of s idn = None \<or> \<not> e_started (engine s)" by (auto simp: registry_of_def split: option.split)
  moreover have "snd (StopTorrent idn s) = s" "fst (StopTorrent idn s) = (if e_started (engine s) then Inr () else Inl ErrBtEngineNotStart)"
    using False by (cases "info_of s idn"; auto simp: StopTorrent_def when_started_def run)+
  ultimately show ?thesis
    using reg_stop_ok [of idn "registry_of s"] reg_off [of "Op_Stop idn" "registry_of s"] by (auto simp: reg_stop_def)
next
  case True
  then obtain i where i: "info_of s idn = Some i" "ii_Started i" and st: "e_started (engine s)" by blast
  let ?j = "i\<lparr>ii_Count := ii_Count i - 1\<rparr>" let ?u = "set_idInfo idn ?j s"
  have A: "registry_of s idn = Some (ii_Count i)" using i by (simp add: registry_of_def)
  have U: "registry_of ?u = (registry_of s)(idn \<mapsto> ii_Count i - 1)"
    using i by (subst registry_of_upd [where s = s and idn = idn and i = ?j]) simp_all
  have ok: ?thesis if "fst (StopTorrent idn s) = Inr ()" "registry_of (snd (StopTorrent idn s)) = reg_stop idn (registry_of s)"
    unfolding that by (rule reg_stop_ok)
  show ?thesis
  proof (cases "ii_Count i > 1")
    case True
    show ?thesis by (rule ok) (simp_all add: StopTorrent_more [OF st i True] U A True reg_stop_def)
  next
    case False
    then have le: "ii_Count i \<le> 1" by simp
    have failed: ?thesis if "StopTorrent idn s = (Inl (Wrap ''Stop torrent failed'' x), ?u)" for x
      unfolding that fst_conv snd_conv U by (rule reg_stop_fails [where A = "registry_of s" and idn = idn, OF A le])
    show ?thesis
    proof (cases "torrent_of s (ii_InfoHash i)")
      case None
      have "bt_inv ?u" using inv i(1) by (rule count_up_inv)
      moreover have "hash_known ?u (ii_InfoHash i)" using bt_inv_parts(2) [OF inv i(1)] by simp
      ultimately have "stopTorrent (ii_InfoHash i) ?u = (Inl (Msg (''Missing torrent '' @ ii_InfoHash i)), ?u)"
        using None by (simp add: stopTorrent_def getTorrent_known bt_inv_parts(1))
      then show ?thesis
        using st i le by (intro failed) (simp add: StopTorrent_def when_started_run call_simps Let_def wrapE_run bindE_def)
    next
      case (Some t)
      note l = StopTorrent_last [OF inv st i le Some, unfolded Let_def]
      show ?thesis
      proof (cases "t_State t = Dropped")
        case True
        then show ?thesis using l by (intro failed) simp
      next
        case False
        let ?w = "snd (StopTorrent idn s)"
        have w: "info_of ?w = (info_of s)(idn \<mapsto> ?j\<lparr>ii_Started := False\<rparr>)" using l False by simp
        have "registry_of ?w = (registry_of s)(idn := None)" by (simp add: registry_of_upd [OF w])
        then show ?thesis using A le False l by (intro ok) (simp_all add: reg_stop_def)
      qed
    qed
  qed
qed

text \<open>What leaves the registrations alone, or removes one that is not started.\<close>

lemma info_keep [keep]:
  "keeps (\<lambda>s. info_of s = M) (getTorrent ih)" "keeps (\<lambda>s. info_of s = M) (startTorrent ih)"
  "keeps (\<lambda>s. info_of s = M) (run_goroutine g)" "keeps (\<lambda>s. info_of s = M) (GetStatus idn)"
  "keeps (\<lambda>s. info_of s = M) (all_status ids)" "keeps (\<lambda>s. info_of s = M) (GetAllStatus ids)"
  "keeps (\<lambda>s. info_of s = M) GetTorrents" "keeps (\<lambda>s. info_of s = M) engine_client"
  "keeps (\<lambda>s. info_of s = M) (deleteTorrent ih)"
proof -
  let ?I = "\<lambda>s. info_of s = M"
  have guard: "keeps ?I m \<Longrightarrow> keeps ?I (when_started m)" for m :: "('z bt_scheme, 'v) call"
    unfolding when_started_def by (intro keeps_bind keeps_simple keeps_cases)
  show get: "keeps ?I (getTorrent ih)" for ih
    unfolding getTorrent_def by (intro keeps_bind keeps_simple keeps_cases)
  show start: "keeps ?I (startTorrent ih)" for ih
    unfolding startTorrent_def
    by (intro keeps_bind get keeps_cases(1) keeps_simple keeps_modify keeps_when) simp_all
  show "keeps ?I (run_goroutine g)"
    unfolding run_goroutine_def by (intro keeps_catch start keeps_simple)
  show "keeps ?I (GetStatus idn)" unfolding GetStatus_def
    by (intro guard keeps_bind keeps_simple keeps_cases keeps_modify keeps_wrap get) simp
  show all: "keeps ?I (all_status ids)" for ids
  proof (induction ids)
    case (Cons idn ids)
    show ?case unfolding all_status.simps
      by (intro keeps_bind keeps_simple keeps_cases keeps_modify keeps_try get Cons.IH) simp
  qed (simp add: keeps_simple)
  show "keeps ?I (GetAllStatus ids)" unfolding GetAllStatus_def by (intro guard all)
  show "keeps ?I GetTorrents" unfolding GetTorrents_def
    by (intro keeps_bind keeps_simple keeps_cases keeps_modify) simp
  show cl: "keeps ?I engine_client" unfolding engine_client_def by (intro keeps_bind keeps_simple keeps_cases)
  show "keeps ?I (deleteTorrent ih)" unfolding deleteTorrent_def
    by (intro keeps_bind get keeps_simple keeps_cases keeps_modify cl) simp_all
qed

lemma DeleteTorrent_registry: "registry_of (snd (DeleteTorrent idn s)) = registry_of s"
proof (cases "e_started (engine s) \<and> (\<exists>i. info_of s idn = Some i \<and> \<not> ii_Started i)")
  case False
  then have "snd (DeleteTorrent idn s) = s"
    by (cases "info_of s idn") (auto simp: DeleteTorrent_def when_started_def run)
  then show ?thesis by simp
next
  case True
  then obtain i where i: "info_of s idn = Some i" "\<not> ii_Started i" and st: "e_started (engine s)" by blast
  let ?D = "wrapE ''Delete torrent failed'' (deleteTorrent (ii_InfoHash i))"
  let ?M = "info_of s" let ?N = "?M(idn := None)"
  have del: "triple (\<lambda>u :: 'a bt_scheme. info_of u = ?M) ?D (\<lambda>_ u. info_of u = ?M) (\<lambda>_ u. info_of u = ?M \<or> info_of u = ?N)"
    by (rule triple_weaken [OF keeps_wrap [OF info_keep(9) [where M = ?M]]]) auto
  have files: "keeps (\<lambda>u :: 'a bt_scheme. info_of u = ?N) (remove_quiet m f)" for m f
  proof (rule keepsI)
    fix u :: "'a bt_scheme" assume u: "info_of u = ?N"
    have "keeps (\<lambda>u :: 'a bt_scheme. fs.more u = X) (remove_quiet m f)" for X
      unfolding remove_quiet_def by (intro keep)
    from keepsD [OF this refl] have "engine (snd (remove_quiet m f u)) = engine u" by (rule more_eqD(4))
    then show "info_of (snd (remove_quiet m f u)) = ?N" using u by simp
  qed
  have rest: "triple (\<lambda>u :: 'a bt_scheme. info_of u = ?M)
      (bindE (modifyE (upd_engine (\<lambda>e. e\<lparr>e_idInfos := AList.delete idn (e_idInfos e)\<rparr>))) (\<lambda>_.
       bindE (getE (\<lambda>s. GetFilePath (engine s) idn)) (\<lambda>dfn.
       bindE (remove_quiet (''Remove data file '' @ dfn @ '' failed'') dfn) (\<lambda>_.
       bindE (getE (\<lambda>s. GetTorrentFilePath (engine s) idn)) (\<lambda>tfn.
       remove_quiet (''Remove torrent file '' @ tfn @ '' failed'') tfn)))))
      (\<lambda>_ u. info_of u = ?M \<or> info_of u = ?N) (\<lambda>_ u. info_of u = ?M \<or> info_of u = ?N)"
  proof (rule triple_bind [where M = "\<lambda>_ u. info_of u = ?N"], goal_cases)
    case 1
    show ?case by (rule triple_modify) (simp add: delete_conv')
  next
    case 2
    have "keeps (\<lambda>u :: 'a bt_scheme. info_of u = ?N) (bindE (getE (\<lambda>s. GetFilePath (engine s) idn)) (\<lambda>dfn.
       bindE (remove_quiet (''Remove data file '' @ dfn @ '' failed'') dfn) (\<lambda>_.
       bindE (getE (\<lambda>s. GetTorrentFilePath (engine s) idn)) (\<lambda>tfn.
       remove_quiet (''Remove torrent file '' @ tfn @ '' failed'') tfn))))"
      by (intro keeps_bind keeps_simple files)
    then show ?case by (rule triple_weaken) auto
  qed
  have "info_of (snd (DeleteTorrent idn s)) = ?M \<or> info_of (snd (DeleteTorrent idn s)) = ?N"
    using triple_snd [OF triple_bind [OF del rest], of s] i st by (simp add: DeleteTorrent_def when_started_run call_simps)
  then show ?thesis using i by (auto simp: registry_of_def fun_eq_iff)
qed

lemma DeleteTorrent_refused:
  "registry_of s idn = Some n \<Longrightarrow> \<exists>x. fst (DeleteTorrent idn s) = Inl x"
  by (cases "e_started (engine s)")
    (auto simp: registry_of_def DeleteTorrent_def when_started_def run split: option.splits if_splits)

section \<open>The refinement\<close>

lemma Run_registry:
  "\<exists>ids. (\<forall>idn \<in> set ids. dot \<notin> set idn) \<and> registry_of (snd (Run c s)) = fold reg_start ids (registry_of s)"
proof -
  let ?I = "\<lambda>u :: 'a bt_scheme. \<exists>ids. (\<forall>idn \<in> set ids. dot \<notin> set idn) \<and> registry_of u = fold reg_start ids (registry_of s)"
  have same: "keeps ?I m" if "\<And>u. registry_of (snd (m u)) = registry_of u" for m :: "('a bt_scheme, 'v) call"
    by (rule keepsI) (simp add: that)
  have files: "keeps ?I m" if "\<And>M. keeps (\<lambda>s. fs.more s = M) m" for m :: "('a bt_scheme, 'v) call"
  proof (rule same)
    fix u
    have "fs.more (snd (m u)) = fs.more u" by (rule keepsD [OF that]) (rule refl)
    then have "engine (snd (m u)) = engine u" by (rule more_eqD(4))
    then show "registry_of (snd (m u)) = registry_of u" by (intro registry_of_cong) simp
  qed
  have modify: "keeps ?I (modifyE f)" if "\<And>u. info_of (f u) = info_of u" for f
    by (rule same, rule registry_of_cong) (simp add: run that)
  have seed: "keeps ?I (StartSeed c idn)" if "dot \<notin> set idn" for idn
  proof (rule keepsI)
    fix u :: "'a bt_scheme" assume "?I u"
    then obtain ids where ids: "\<forall>i \<in> set ids. dot \<notin> set i" "registry_of u = fold reg_start ids (registry_of s)" by blast
    have "registry_of (snd (StartSeed c idn u)) = fold reg_start ids (registry_of s) \<or>
        registry_of (snd (StartSeed c idn u)) = fold reg_start (ids @ [idn]) (registry_of s)"
      using StartSeed_registry [of idn c u] ids(2) by (auto simp: reg_started_def split: sum.splits)
    then show "?I (snd (StartSeed c idn u))"
    proof
      assume "registry_of (snd (StartSeed c idn u)) = fold reg_start (ids @ [idn]) (registry_of s)"
      then show ?thesis using ids(1) that by (intro exI [of _ "ids @ [idn]"]) simp
    qed (use ids(1) in blast)
  qed
  have hd: "dot \<notin> set (hd (split_on dot f))" for f
    by (rule split_on_parts, rule hd_in_set) simp
  have 1: "keeps ?I (seed_file c f)" for f
    unfolding seed_file_def Let_def
    by (intro keeps_bind keeps_simple keeps_cases keeps_try keeps_catch seed hd files keep)
  have 2: "keeps ?I (NewClient tc)" for tc
  proof -
    have sys: "keeps ?I (syscall (\<lambda>s. (Inr (), s)) :: ('a bt_scheme, unit) call)"
      by (intro files syscall_frame) auto
    show ?thesis unfolding NewClient_def by (intro keeps_bind keeps_simple sys modify) simp
  qed
  have close: "engine (client_Close k u) = engine u" for k and u :: "'a bt_scheme"
  proof -
    have "engine (fold (\<lambda>h. upd_handle h close_torrent) hs w) = engine w" for hs and w :: "'a bt_scheme"
      by (induction hs arbitrary: w) simp_all
    then show ?thesis by (simp add: client_Close_def)
  qed
  have 3: "keeps ?I (case k of Some k \<Rightarrow> modifyE (client_Close k) | None \<Rightarrow> returnE ())" for k
    by (cases k) (auto intro!: keeps_simple modify simp: close)
  have "keeps ?I (Run c)" unfolding Run_def
    by (intro keeps_bind keeps_simple keeps_cases(1) keeps_try 1 2 3 modify keeps_for files keep) simp
  then show ?thesis by (rule keepsD) (auto intro: exI [of _ "[]"])
qed

lemma bt_exec_registry:
  assumes "bt_inv s" "enabled op s" "bt_exec c op s = (r, t)"
  shows "reg_step op r (registry_of s) (registry_of t)"
proof -
  have quiet: ?thesis if "quiet op" "info_of t = info_of s"
    using reg_look [OF that(1)] registry_of_cong [OF that(2)] by simp
  have same: "info_of (snd (outcome m s)) = info_of s" if "\<And>M. keeps (\<lambda>s. info_of s = M) m" for m :: "('a bt_scheme, 'v) call"
    using keepsD [OF that [of "info_of s"]] by (simp add: outcome_run)
  show ?thesis
  proof (cases op)
    case Op_Run
    then show ?thesis using assms(3) Run_registry [of c s] reg_restart [of _ r "registry_of s"] by auto
  next
    case (Op_Seed idn)
    then show ?thesis using assms(3) reg_startedD [OF _ StartSeed_registry, of op idn c s]
      by (cases r) auto
  next
    case (Op_Leech idn d p n)
    then show ?thesis using assms(3) reg_startedD [OF _ StartLeecher_registry, of op idn c n d p s] by (auto simp: outcome_run)
  next
    case (Op_Stop idn)
    then show ?thesis using assms(3) StopTorrent_registry [OF assms(1), of idn] by simp
  next
    case (Op_Delete idn)
    then have t: "registry_of t = registry_of s" "r = fst (DeleteTorrent idn s)"
      using assms(3) DeleteTorrent_registry [of idn s] by simp_all
    show ?thesis
      unfolding t(1) Op_Delete t(2) using DeleteTorrent_refused [of s idn]
      by (cases "registry_of s idn") (auto intro: reg_delete reg_delete_fails)
  next
    case (Op_Goroutine g)
    have "info_of (snd (run_goroutine g (s\<lparr>gos := remove1 g (gos s)\<rparr>))) = info_of s"
      by (rule keepsD [OF info_keep(3)]) simp
    then show ?thesis using Op_Goroutine assms(3) by (intro quiet) (simp_all add: run bindE_def)
  next
    case (Op_Transfer h left complete pending)
    then show ?thesis using assms(3) by (intro quiet) (auto simp: run progress_def)
  next
    case (Op_Status idn)
    then show ?thesis using assms(3) same [OF info_keep(4), of idn] by (intro quiet) simp_all
  next
    case (Op_AllStatus order)
    then show ?thesis using assms(3) same [OF info_keep(6), of order] by (intro quiet) simp_all
  next
    case Op_Torrents
    then show ?thesis using assms(3) same [OF info_keep(7)] by (intro quiet) simp_all
  qed
qed

text \<open>C10. The engine refines the machine of counted starts: every run of the engine, whatever fails, is call by
  call a run of the machine with the same outcomes. A start that succeeds counts the ID up, from 0 when it was not
  started, and one that fails leaves the registry alone and can fail only for an ID that is not started; a stop that
  succeeds counts a started ID down and ends it at 1 or less, and one that fails has counted it down all the same; a
  delete, a status call, a goroutine or a transfer starts and stops nothing, and deleting a started ID fails; \<open>Run\<close>
  starts some IDs and stops none. So, but for \<open>Run\<close>, the calls and their outcomes determine the registry.\<close>

theorem registry_refines:
  assumes "codec_laws c" "bt_inv s" "bt_run c s tr t"
  shows "reg_run (registry_of s) tr (registry_of t) \<and>
    (Op_Run \<notin> fst ` set tr \<longrightarrow> (\<forall>B. reg_run (registry_of s) tr B \<longrightarrow> B = registry_of t))"
proof -
  have "reg_run (registry_of s) tr (registry_of t)"
    using assms(3)
  proof (induction rule: bt_run.induct)
    case (run_call tr t op r u)
    have "bt_inv t" by (rule bt_run_inv [OF assms(1,2) run_call.hyps(1)])
    from bt_exec_registry [OF this run_call.hyps(2,3)] show ?case by (rule reg_call [OF run_call.IH])
  qed (rule reg_init)
  then show ?thesis using reg_run_det by blast
qed

theorem registry_refines_witness:
  "reg_run (registry_of demo_bt) [(Op_Seed ''a'', Inr ()), (Op_Stop ''a'', fst (StopTorrent ''a'' (snd (StartSeed demo_torrents ''a'' demo_bt))))]
     (registry_of (snd (StopTorrent ''a'' (snd (StartSeed demo_torrents ''a'' demo_bt)))))"
proof -
  obtain t u where u: "StartSeed demo_torrents ''a'' demo_bt = (Inr (), u)"
    by (rule demo_seeded)
  obtain r v where v: "StopTorrent ''a'' u = (r, v)" by fastforce
  have "bt_run demo_torrents demo_bt (([] @ [(Op_Seed ''a'', Inr ())]) @ [(Op_Stop ''a'', r)]) v"
    by (rule run_call [OF run_call [OF run_init]]) (use u v in simp_all)
  from registry_refines [OF demo_torrents_laws demo_bt_inv this] show ?thesis using u v by simp
qed

end
