(* ===== verification/Bt_Frames.thy ===== *)
theory Bt_Frames
  imports Bt_Rules
begin

text \<open>
  A contract for what the calls that need no file keep: a property of the state that the primitive
  updates of the engine, the handles and a client's table keep is kept by adding, dropping, finding
  and reporting torrents. A handle stays with its client, and an info it has got stays. The calls that add no
  torrent ask for less (\<open>engine_frame\<close>): that handles with the info they have are kept.
  Its first instance: these calls leave the disk alone.
\<close>

definition grows :: "handle \<Rightarrow> handle \<Rightarrow> bool" where
  "grows t t' \<longleftrightarrow> h_client t' = h_client t \<and> (haveInfo t \<longrightarrow> h_info t' = h_info t)"

lemma grows_simps [simp]:
  "grows t (close_torrent t)" "grows t (setDisplayName dn t)" "grows t (addTrackers al t)" "grows t (t\<lparr>h_pending := b\<rparr>)"
  "grows t (t\<lparr>h_left := n, h_complete := b, h_pending := b'\<rparr>)"
  "\<not> haveInfo t \<Longrightarrow> grows t (t\<lparr>h_info := i, h_infoBytes := x, h_display := dn, h_left := n\<rparr>)"
  by (simp_all add: grows_def close_torrent_def setDisplayName_def addTrackers_def)

locale engine_frame =
  fixes I :: "'z bt_scheme \<Rightarrow> bool"
  assumes books: "I s \<Longrightarrow> I (upd_engine f s)"
    and jobs: "I s \<Longrightarrow> I (s\<lparr>gos := l\<rparr>)"
    and marks: "I s \<Longrightarrow> h_client (g (handles s h)) = h_client (handles s h) \<Longrightarrow>
      h_info (g (handles s h)) = h_info (handles s h) \<Longrightarrow> I (upd_handle h g s)"
    and tables: "I s \<Longrightarrow> I (upd_client k (\<lambda>cl. cl\<lparr>cl_torrents := tab (cl_torrents cl)\<rparr>) s)"
begin

lemma set_simps: "I s \<Longrightarrow> I (set_torrent ih t s)" "I s \<Longrightarrow> I (set_idInfo idn i s)"
  unfolding set_torrent_def set_idInfo_def by (rule books, assumption)+

lemma drop: "I s \<Longrightarrow> I (Drop h s)"
  unfolding Drop_def dropTorrent_def by (auto simp: close_torrent_def split: option.split intro!: tables marks)

lemma lookup: "keeps I (getTorrent ih)"
  unfolding getTorrent_def by (intro keeps_bind keeps_simple keeps_cases)

lemma client: "keeps I engine_client"
  unfolding engine_client_def by (intro keeps_bind keeps_simple keeps_cases)

lemma guard: "keeps I m \<Longrightarrow> keeps I (when_started m)"
  unfolding when_started_def by (intro keeps_bind keeps_simple keeps_cases)

lemma stopping: "keeps I (StopTorrent idn)"
proof -
  have 1: "keeps I (stopTorrent ih)" for ih
    unfolding stopTorrent_def
    by (intro keeps_bind lookup keeps_cases(1) keeps_simple keeps_modify drop set_simps)
  show ?thesis unfolding StopTorrent_def Let_def
    by (intro guard keeps_bind keeps_simple keeps_cases keeps_modify set_simps keeps_wrap 1)
qed

lemma uncaching: "keeps I (deleteTorrent ih)"
  unfolding deleteTorrent_def
  by (intro keeps_bind lookup keeps_modify books keeps_simple client keeps_cases drop)

lemma reporting: "keeps I (GetStatus idn)" "keeps I (GetAllStatus order)" "keeps I GetTorrents"
proof -
  show "keeps I (GetStatus idn)" unfolding GetStatus_def
    by (intro guard keeps_bind keeps_simple keeps_cases keeps_modify set_simps keeps_wrap lookup)
  have "keeps I (all_status ids)" for ids
  proof (induction ids)
    case (Cons idn ids)
    then show ?case unfolding all_status.simps
      by (intro keeps_bind keeps_simple keeps_cases keeps_modify set_simps keeps_try lookup)
  qed (simp add: keeps_simple)
  then show "keeps I (GetAllStatus order)" unfolding GetAllStatus_def by (rule guard)
  show "keeps I GetTorrents" unfolding GetTorrents_def
    by (intro keeps_bind keeps_simple keeps_cases keeps_modify) (rule books)
qed

lemma goroutine: "keeps I (run_goroutine g)"
proof -
  have "keeps I (startTorrent ih)" for ih
    unfolding startTorrent_def
    by (intro keeps_bind lookup keeps_cases(1) keeps_simple keeps_modify set_simps keeps_when) (simp_all add: DownloadAll_def marks)
  then show ?thesis unfolding run_goroutine_def by (intro keeps_catch keeps_simple)
qed

end

text \<open>Calls that may also give the client a torrent.\<close>

locale net_frame =
  fixes I :: "'z bt_scheme \<Rightarrow> bool"
  assumes engine: "I s \<Longrightarrow> I (upd_engine f s)"
    and pending: "I s \<Longrightarrow> I (s\<lparr>gos := l\<rparr>)"
    and handle: "I s \<Longrightarrow> grows (handles s h) (g (handles s h)) \<Longrightarrow> I (upd_handle h g s)"
    and table: "I s \<Longrightarrow> I (upd_client k (\<lambda>cl. cl\<lparr>cl_torrents := tab (cl_torrents cl)\<rparr>) s)"
    and new_handle: "I s \<Longrightarrow> I (s\<lparr>handles := (handles s)(next_handle s := t), next_handle := Suc (next_handle s)\<rparr>)"

sublocale net_frame \<subseteq> engine_frame I
  by unfold_locales (auto simp: grows_def intro: engine pending handle table)

context net_frame begin

lemma add_torrent: "keeps I (AddTorrent c k m)"
proof -
  have 1: "keeps I (AddTorrentInfoHash k ih)" for ih
    by (rule keepsI) (auto simp: AddTorrentInfoHash_def run split: option.split intro!: table new_handle)
  have 2: "keeps I (setInfoBytes c h b)" for h b
  proof (rule keepsI)
    fix s :: "'z bt_scheme" assume s: "I s"
    show "I (snd (setInfoBytes c h b s))"
    proof (cases "haveInfo (handles s h)")
      case False
      then have "I (upd_handle h (\<lambda>t. t\<lparr>h_info := Some i, h_infoBytes := b, h_display := [], h_left := bytesLeft i\<rparr>) s)" for i
        using s by (intro handle) simp_all
      then show ?thesis
        using s False by (cases "info_decode c b"; cases "validateInfo (projr (info_decode c b))")
          (auto simp: setInfoBytes_def run wrapE_run bindE_def)
    qed (use s in \<open>simp add: setInfoBytes_def run\<close>)
  qed
  have 3: "keeps I (case info of None \<Rightarrow> returnE () | Some b \<Rightarrow> setInfoBytes c h b)" for info h
    by (cases info) (simp_all add: 2 keeps_simple)
  show ?thesis unfolding AddTorrent_def Let_def AddTorrentSpec_def
    by (intro keeps_bind 1 2 3 keeps_simple keeps_when keeps_modify handle) simp_all
qed

lemma registering: "keeps I (register c idn m)"
proof -
  have "keeps I (addTorrent tt)" for tt
    unfolding addTorrent_def by (intro keeps_bind keeps_simple keeps_modify set_simps)
  then show ?thesis unfolding register_def
    by (intro keeps_bind client keeps_wrap add_torrent keeps_modify pending set_simps keeps_simple)
qed

end

definition disk_is :: "(string list \<times> node) list \<Rightarrow> (nat \<Rightarrow> bytes) \<Rightarrow> 'z fs_scheme \<Rightarrow> bool" where
  "disk_is T N s \<longleftrightarrow> tree s = T \<and> inodes s = N"

interpretation disk: net_frame "disk_is T N" for T N
  by unfold_locales (simp_all add: disk_is_def upd_engine_def upd_handle_def upd_client_def)

end
