(* ===== verification/Bt_Files.thy ===== *)
theory Bt_Files
  imports Bt_Properties Bt_Frames
begin

text \<open>
  The engine and its files: the torrent file a first seed makes of a layer, the pieces it lists,
  and what a delete takes away.
\<close>

section \<open>Pieces\<close>

text \<open>The pieces of \<open>d\<close> one by one: how many there are, and each of them.\<close>

definition piece_count :: "nat \<Rightarrow> bytes \<Rightarrow> nat" where
  "piece_count n d = (length d + n - 1) div n"

definition piece :: "nat \<Rightarrow> bytes \<Rightarrow> nat \<Rightarrow> bytes" where
  "piece n d k = take n (drop (k * n) d)"

lemma piece_count_simps:
  "n > 0 \<Longrightarrow> piece_count n [] = 0"
  "n > 0 \<Longrightarrow> d \<noteq> [] \<Longrightarrow> piece_count n d = Suc (piece_count n (drop n d))"
proof -
  assume n: "n > 0" and d: "d \<noteq> []"
  show "piece_count n d = Suc (piece_count n (drop n d))"
  proof (cases "length d \<le> n")
    case True
    have "(length d + n - 1) div n = 1"
      using True n d by (cases "length d") (auto simp: div_nat_eqI)
    then show ?thesis using True n by (simp add: piece_count_def)
  next
    case False
    then have e: "length d + n - 1 = (length d - n + n - 1) + n" by simp
    have "(x + n) div n = Suc (x div n)" for x using n div_add_self2 [of n x] by (metis Suc_eq_plus1 less_irrefl)
    then show ?thesis unfolding piece_count_def length_drop by (metis e)
  qed
qed (simp add: piece_count_def)

lemma pieces_loop_spec:
  "n > 0 \<Longrightarrow> length d \<le> m \<Longrightarrow> pieces_loop h m n d = concat (map (\<lambda>k. h (piece n d k)) [0..<piece_count n d])"
proof (induction m arbitrary: d)
  case (Suc m)
  show ?case
  proof (cases "d = []")
    case False
    have "length (drop n d) \<le> m" using Suc.prems False by (cases d) auto
    then have IH: "pieces_loop h m n (drop n d) = concat (map (\<lambda>k. h (piece n (drop n d) k)) [0..<piece_count n (drop n d)])"
      using Suc.IH Suc.prems(1) by blast
    have sh: "piece n (drop n d) k = piece n d (Suc k)" for k by (simp add: piece_def add.commute)
    have "[0..<Suc j] = 0 # map Suc [0..<j]" for j by (simp add: upt_conv_Cons map_Suc_upt)
    then have "concat (map (\<lambda>k. h (piece n d k)) [0..<Suc j]) = h (piece n d 0) @ concat (map (\<lambda>k. h (piece n d (Suc k))) [0..<j])" for j
      by (simp add: comp_def)
    then show ?thesis
      using IH False Suc.prems(1) by (simp add: piece_count_simps(2) sh) (simp add: piece_def)
  qed (use Suc.prems(1) in \<open>simp add: piece_count_simps\<close>)
qed (simp add: piece_count_simps)

lemma piece_count_int:
  "n > 0 \<Longrightarrow> int (piece_count n d) = (int (length d) + int n - 1) div int n"
proof -
  assume "n > 0"
  then have "int (length d + n - 1) = int (length d) + int n - 1" by linarith
  then show ?thesis unfolding piece_count_def zdiv_int by (rule arg_cong)
qed

lemma pieces_reference_aux:
  assumes "codec_laws c" "i_PieceLength i > 0" "i_Files i = []" "i_Length i = int (length d)"
  shows "\<exists>j. GeneratePieces c d i = Inr j \<and>
    i_Pieces j = concat (map (\<lambda>k. sha1 c (piece (nat (i_PieceLength i)) d k)) [0..<piece_count (nat (i_PieceLength i)) d]) \<and>
    i_Length j = i_Length i \<and> i_Name j = i_Name i \<and> i_PieceLength j = i_PieceLength i \<and> i_Files j = [] \<and>
    NumPieces j = Inr (int (piece_count (nat (i_PieceLength i)) d)) \<and>
    (int (length d) + i_PieceLength i \<le> 2 ^ 63 \<longrightarrow> validateInfo j = Inr ())"
proof -
  let ?n = "nat (i_PieceLength i)" let ?m = "piece_count ?n d"
  let ?p = "concat (map (\<lambda>k. sha1 c (piece ?n d k)) [0..<?m])"
  have n: "?n > 0" using assms(2) by simp
  have len: "length ?p = 20 * ?m"
  proof -
    have "length (concat (map (\<lambda>k. sha1 c (piece ?n d k)) xs)) = 20 * length xs" for xs
      using assms(1) by (induction xs) (simp_all add: codec_laws_def)
    then show ?thesis by simp
  qed
  let ?j = "i\<lparr>i_Pieces := ?p\<rparr>"
  have g: "GeneratePieces c d i = Inr ?j"
    using assms(2) by (simp add: GeneratePieces_def pieces_loop_spec [OF n])
  have np: "NumPieces ?j = Inr (int ?m)" using len by (simp add: NumPieces_def)
  have tl: "TotalLength ?j = int (length d)" using assms(3,4) by (simp add: TotalLength_def IsDir_def)
  let ?a = "int (length d) + i_PieceLength i - 1"
  have "?a div i_PieceLength i = int ?m" using piece_count_int [OF n, of d] assms(2) by simp
  moreover have "int64_quot (int64 ?a) (i_PieceLength i) = ?a div i_PieceLength i" if "int (length d) + i_PieceLength i \<le> 2 ^ 63"
    using that assms(2) int64_id [of ?a] int64_quot_pos [of ?a "i_PieceLength i"] by simp
  ultimately have "int (length d) + i_PieceLength i \<le> 2 ^ 63 \<longrightarrow> validateInfo ?j = Inr ()"
    using len np tl assms(2) by (simp add: validateInfo_def)
  then show ?thesis using g np assms(3) by (intro exI [of _ ?j]) simp
qed

text \<open>C25. \<open>GeneratePieces\<close> computes the hash of every piece in turn: piece \<open>k\<close> is the \<open>n\<close> bytes at \<open>k * n\<close> (the
  last one what is left), there are as many as the length divided by the piece length, rounded
  up, and the info it gives passes the client's own check as long as the length rounded up to a piece is
  an int64 (beyond, the check's sum wraps around).\<close>

theorem pieces_reference:
  assumes "codec_laws c" "i_PieceLength i > 0" "i_Files i = []" "i_Length i = int (length d)"
  shows "\<exists>j. GeneratePieces c d i = Inr j \<and>
    i_Pieces j = concat (map (\<lambda>k. sha1 c (piece (nat (i_PieceLength i)) d k)) [0..<piece_count (nat (i_PieceLength i)) d]) \<and>
    i_Length j = i_Length i \<and> i_Name j = i_Name i \<and> i_PieceLength j = i_PieceLength i \<and> i_Files j = [] \<and>
    NumPieces j = Inr (int (piece_count (nat (i_PieceLength i)) d)) \<and>
    (int (length d) + i_PieceLength i \<le> 2 ^ 63 \<longrightarrow> validateInfo j = Inr ())"
  by (rule pieces_reference_aux [OF assms])

theorem pieces_reference_witness:
  "\<exists>j. GeneratePieces demo_torrents ''abc''
      \<lparr>i_PieceLength = 2, i_Pieces = [], i_Name = ''x'', i_Length = 3, i_Files = []\<rparr> = Inr j \<and>
    NumPieces j = Inr 2 \<and> i_Pieces j = sha1 demo_torrents ''ab'' @ sha1 demo_torrents ''c''"
proof -
  let ?i = "\<lparr>i_PieceLength = 2, i_Pieces = [], i_Name = ''x'', i_Length = 3, i_Files = []\<rparr> :: Info"
  obtain j where "GeneratePieces demo_torrents ''abc'' ?i = Inr j" "NumPieces j = Inr (int (piece_count 2 ''abc''))"
    "i_Pieces j = concat (map (\<lambda>k. sha1 demo_torrents (piece 2 ''abc'' k)) [0..<piece_count 2 ''abc''])"
    using pieces_reference [OF demo_torrents_laws, of ?i "''abc''"] by auto
  moreover have "piece_count 2 ''abc'' = 2" by (simp add: piece_count_def)
  moreover have "[0..<2 :: nat] = [0, 1]" by (simp add: upt_conv_Cons)
  moreover have "piece 2 ''abc'' 0 = ''ab''" "piece 2 ''abc'' 1 = ''c''" by (simp_all add: piece_def numeral_2_eq_2)
  ultimately show ?thesis by simp
qed

section \<open>The first seed of a layer\<close>

lemma create_calm:
  assumes s: "fs_st True V s" and p: "V (comps p) = None" "V (butlast (comps p)) = Some None"
  shows "\<exists>i t u. os_Create p s = (Inr i, t) \<and> file_Write i bs t = (Inr (), u) \<and>
    fs_st True (V(comps p \<mapsto> Some bs)) u \<and> fs.more u = fs.more s"
proof -
  obtain r t where m: "os_Create p s = (r, t)" by fastforce
  have V: "V (comps p) = None \<or> V (comps p) = Some None" using p(1) by simp
  obtain i where r: "r = Inr i"
    using tripleD_Inl [OF os_Create_triple [where V = V and p = p, OF V] s] m p by (cases r) auto
  have st: "temp_st True V (comps p) i [] t" using tripleD_Inr [OF os_Create_triple [where V = V and p = p, OF V] s] m r by simp
  obtain r' u where w: "file_Write i bs t = (r', u)" by fastforce
  have r': "r' = Inr ()" using tripleD_Inl [OF file_Write_triple st] w by (cases r') auto
  have "temp_st True V (comps p) i ([] @ bs) u"
    by (rule tripleD_Inr [OF file_Write_triple st]) (use w r' in simp)
  then have "fs_st True (V(comps p \<mapsto> Some bs)) u" using temp_st_fs_st by fastforce
  moreover have "fs.more (snd (os_Create p s)) = fs.more s" by (rule keepsD [OF sys_more(4)]) (rule refl)
  moreover have "fs.more (snd (file_Write i bs t)) = fs.more t" by (rule keepsD [OF file_Write_more]) (rule refl)
  ultimately show ?thesis using m r w r' by simp
qed

text \<open>What the torrent of a layer with the data \<open>d\<close> has to say.\<close>

definition layer_info :: "codec \<Rightarrow> string \<Rightarrow> bytes \<Rightarrow> Info \<Rightarrow> bool" where
  "layer_info c name d i \<longleftrightarrow>
     i_Length i = int (length d) \<and> i_Name i = name \<and> i_PieceLength i = 1024 * 1024 \<and> i_Files i = [] \<and>
     i_Pieces i = concat (map (\<lambda>k. sha1 c (piece (1024 * 1024) d k)) [0..<piece_count (1024 * 1024) d]) \<and>
     validateInfo i = Inr ()"

lemma build_calm:
  fixes s :: "'z bt_scheme"
  assumes c: "codec_laws c" and s: "wf_fs s" "faults s = []" "node_at s (comps f) = Some (File n)"
    and small: "int (length (inodes s n)) + 1024 * 1024 \<le> 2 ^ 63"
  shows "\<exists>i. BuildFromFilePath c f ((mi_Info (SetDefaults now a))\<lparr>i_PieceLength := 1024 * 1024\<rparr>) s = (Inr i, s) \<and>
    layer_info c (filepath_Base f) (inodes s n) i"
proof -
  let ?d = "inodes s n"
  let ?i = "(mi_Info (SetDefaults now a))\<lparr>i_PieceLength := 1024 * 1024, i_Name := filepath_Base f, i_Files := [],
    i_Length := int (length ?d)\<rparr>"
  have nat: "nat (1024 * 1024) = 1024 * 1024" by simp
  obtain j where j: "GeneratePieces c ?d ?i = Inr j"
    "i_Pieces j = concat (map (\<lambda>k. sha1 c (piece (nat (i_PieceLength ?i)) ?d k)) [0..<piece_count (nat (i_PieceLength ?i)) ?d])"
    "i_Length j = i_Length ?i" "i_Name j = i_Name ?i" "i_PieceLength j = i_PieceLength ?i" "i_Files j = []" "validateInfo j = Inr ()"
    using pieces_reference_aux [OF c, of ?i ?d] small by auto
  have "layer_info c (filepath_Base f) ?d j"
    unfolding layer_info_def using j by (simp add: nat)
  moreover have "BuildFromFilePath c f ((mi_Info (SetDefaults now a))\<lparr>i_PieceLength := 1024 * 1024\<rparr>) s = (Inr j, s)"
    using j(1) calm_read [OF s] by (simp add: BuildFromFilePath_def Let_def run wrapE_run)
  ultimately show ?thesis by blast
qed

lemma createTorrent_calm:
  fixes s :: "'z bt_scheme" and idn :: string
  defines "f \<equiv> GetFilePath (engine s) idn" and "tf \<equiv> GetTorrentFilePath (engine s) idn"
  assumes c: "codec_laws c" and s: "wf_fs s" "faults s = []" and a: "e_trackers (engine s) = a # as"
    and d: "view s (comps f) = Some (Some d)" "int (length d) + 1024 * 1024 \<le> 2 ^ 63" and p: "view s (comps tf) = None" "view s (butlast (comps tf)) = Some None"
  shows "\<exists>m u. createTorrent c idn s = (Inr (), u) \<and> layer_info c (filepath_Base f) d (mi_Info m) \<and>
    mi_InfoBytes m = info_encode c (mi_Info m) \<and> mi_Announce m = a \<and>
    fs_st True ((view s)(comps tf \<mapsto> Some (mi_write c m))) u \<and> fs.more u = fs.more s"
proof -
  obtain n where n: "node_at s (comps f) = Some (File n)" "inodes s n = d" using d(1) by auto
  obtain i where i: "BuildFromFilePath c f ((mi_Info (SetDefaults (clock s) a))\<lparr>i_PieceLength := 1024 * 1024\<rparr>) s = (Inr i, s)"
    "layer_info c (filepath_Base f) d i"
    using build_calm [OF c s n(1)] n(2) d(2) by blast
  let ?m = "(SetDefaults (clock s) a)\<lparr>mi_Info := i, mi_InfoBytes := info_encode c i\<rparr>"
  have "fs_st True (view s) s" using s by (simp add: fs_st_def)
  from create_calm [OF this p] obtain h t u where
    w: "os_Create tf s = (Inr h, t)" "file_Write h (mi_write c ?m) t = (Inr (), u)"
    and u: "fs_st True ((view s)(comps tf \<mapsto> Some (mi_write c ?m))) u" "fs.more u = fs.more s"
    by blast
  have "createTorrent c idn s = (Inr (), u)"
    using i w a by (simp add: createTorrent_def run Let_def wrapE_run f_def tf_def)
  then show ?thesis using i(2) u by (intro exI [of _ ?m] exI [of _ u]) (simp add: SetDefaults_def)
qed

lemma StartSeed_creates:
  fixes s :: "'z bt_scheme"
  assumes "e_started (engine s)" "\<nexists>i. info_of s idn = Some i \<and> ii_Started i"
    and "wf_fs s" "faults s = []" "view s (comps (GetTorrentFilePath (engine s) idn)) = None"
    and "createTorrent c idn s = (Inr (), u)" "wf_fs u" "faults u = []"
    and "node_at u (comps (GetTorrentFilePath (engine s) idn)) = Some (File n)" "mi_load c (inodes u n) = Inr m"
  shows "StartSeed c idn s = bindE (register c idn m) (\<lambda>_. returnE ()) u"
proof -
  have "os_Stat p s = (Inl (Errno e), s)" if "resolve s (comps p) = Inl e" for p e
    using that assms(4) by (simp add: os_Stat_def syscall_def)
  moreover obtain e where "resolve s (comps (GetTorrentFilePath (engine s) idn)) = Inl e"
    using assms(5) resolve_iff [OF assms(3)] by (cases "resolve s (comps (GetTorrentFilePath (engine s) idn))") auto
  ultimately have st: "os_Stat (GetTorrentFilePath (engine s) idn) s = (Inl (Errno e), s)" by blast
  have b: "\<not> (info_of s idn \<noteq> None \<and> ii_Started (the (info_of s idn)))" using assms(2) by auto
  show ?thesis
    using st b assms(1,6) calm_read [OF assms(7-9)] assms(10)
    by (cases "info_of s idn") (simp_all add: StartSeed_def when_started_run call_simps LoadFromFile_def wrapE_run bindE_def)
qed

lemma view_cong: "tree t = tree s \<Longrightarrow> inodes t = inodes s \<Longrightarrow> view t = view s"
  by (rule ext) (simp add: view_def node_at_cong [of t s] cong: node.case_cong)

lemma register_view: "view (snd (register c idn m s)) = view s"
proof -
  have "disk_is (tree s) (inodes s) (snd (register c idn m s))"
    by (rule keepsD [OF disk.registering]) (simp add: disk_is_def)
  then show ?thesis by (intro view_cong) (simp_all add: disk_is_def)
qed

text \<open>C24. The first seed of a layer whose data file is in place succeeds: it writes a torrent file that
  names the first tracker and describes the data (its length, its name, the hash of every piece of 1 MiB),
  and the client serves a torrent with just this info; no other file changes. The bound on the length
  is that of int64, in which the client computes the number of pieces.\<close>

theorem seed_new_layer:
  fixes s :: "'z bt_scheme" and idn :: string
  assumes "codec_laws c" "bt_inv s" "e_started (engine s)" "e_client (engine s) = Some k" "\<nexists>i. info_of s idn = Some i \<and> ii_Started i"
    and "wf_fs s" "faults s = []" "e_trackers (engine s) = a # as"
    and d: "view s (comps (GetFilePath (engine s) idn)) = Some (Some d)" "int (length d) + 1024 * 1024 \<le> 2 ^ 63"
    and tf: "view s (comps (GetTorrentFilePath (engine s) idn)) = None"
      "view s (butlast (comps (GetTorrentFilePath (engine s) idn))) = Some None"
    and new: "\<And>ih. client_Torrent k ih s = None"
  shows "\<exists>m u h. StartSeed c idn s = (Inr (), u) \<and> layer_info c (filepath_Base (GetFilePath (engine s) idn)) d (mi_Info m) \<and>
    mi_Announce m = a \<and> view u = (view s)(comps (GetTorrentFilePath (engine s) idn) \<mapsto> Some (mi_write c m)) \<and>
    client_Torrent k (info_hash c m) u = Some h \<and> h_info (handles u h) = Some (mi_Info m)"
proof -
  let ?tf = "comps (GetTorrentFilePath (engine s) idn)"
  obtain m u where u: "createTorrent c idn s = (Inr (), u)" and li: "layer_info c (filepath_Base (GetFilePath (engine s) idn)) d (mi_Info m)"
    and m: "mi_InfoBytes m = info_encode c (mi_Info m)" "mi_Announce m = a"
    and fu: "fs_st True ((view s)(?tf \<mapsto> Some (mi_write c m))) u" and more: "fs.more u = fs.more s"
    using createTorrent_calm [OF assms(1,6,7,8) d tf] by blast
  have load: "mi_load c (mi_write c m) = Inr m" using assms(1) m(1) by (simp add: codec_laws_def)
  have wf: "wf_fs u" "faults u = []" and vu: "view u = (view s)(?tf \<mapsto> Some (mi_write c m))"
    using fu by (simp_all add: fs_st_def)
  then have "view u ?tf = Some (Some (mi_write c m))" by simp
  then obtain n where n: "node_at u ?tf = Some (File n)" "inodes u n = mi_write c m" by auto
  have ss: "StartSeed c idn s = bindE (register c idn m) (\<lambda>_. returnE ()) u"
    using StartSeed_creates [OF assms(3,5,6,7) tf(1) u wf n(1)] n(2) load by simp
  note same = more_eqD [OF more]
  have k: "e_client (engine u) = Some k" and newu: "client_Torrent k (info_hash c m) u = None"
    using same assms(4) new [of "info_hash c m"] by (simp_all add: client_Torrent_def)
  have dec: "info_decode c (mi_InfoBytes m) = Inr (mi_Info m)" using assms(1) m(1) by (simp add: codec_laws_def)
  have ok: "validateInfo (mi_Info m) = Inr ()" using li by (simp add: layer_info_def)
  obtain t v where v: "register c idn m u = (Inr t, v)" "client_Torrent k (info_hash c m) v = Some (next_handle u)"
    "h_info (handles v (next_handle u)) = Some (mi_Info m)"
    using register_new [OF assms(1) k newu dec ok refl, of idn] by blast
  have "view v = view u" using register_view [of c idn m u] v(1) by simp
  then show ?thesis
    using ss v vu li m(2) by (intro exI [of _ m] exI [of _ v] exI [of _ "next_handle u"]) (simp add: run)
qed

theorem seed_new_layer_witness:
  "\<exists>m u. StartSeed demo_torrents ''b'' demo_bt = (Inr (), u) \<and> i_Length (mi_Info m) = 3 \<and> mi_Announce m = ''tr'' \<and>
     view u [''root'', ''torrents'', ''b.torrent''] = Some (Some (mi_write demo_torrents m))"
proof -
  have no: "\<nexists>i. info_of demo_bt ''b'' = Some i \<and> ii_Started i" by simp
  have d: "view demo_bt (comps (GetFilePath (engine demo_bt) ''b'')) = Some (Some ''abc'')"
    "int (length ''abc'') + 1024 * 1024 \<le> 2 ^ 63"
    unfolding demo_paths using demo_bt_nodes(3) demo_bt_simps by simp_all
  have tf: "view demo_bt (comps (GetTorrentFilePath (engine demo_bt) ''b'')) = None"
    "view demo_bt (butlast (comps (GetTorrentFilePath (engine demo_bt) ''b''))) = Some None"
    unfolding demo_paths using demo_bt_nodes(4,5) by simp_all
  obtain m u where "StartSeed demo_torrents ''b'' demo_bt = (Inr (), u)"
    "layer_info demo_torrents (filepath_Base (GetFilePath (engine demo_bt) ''b'')) ''abc'' (mi_Info m)"
    "mi_Announce m = ''tr''" "view u = (view demo_bt)(comps (GetTorrentFilePath (engine demo_bt) ''b'') \<mapsto> Some (mi_write demo_torrents m))"
    using seed_new_layer [OF demo_torrents_laws demo_bt_inv demo_bt_simps(2,1) no demo_bt_wf demo_bt_simps(9,4) d tf demo_bt_simps(10)]
    by blast
  then show ?thesis
    unfolding demo_paths by (intro exI [of _ m] exI [of _ u]) (simp add: layer_info_def)
qed

section \<open>Deleting\<close>

lemma engine_remove_triple:
  "triple (fs_st c V) (remove_quiet m f)
     (\<lambda>_. fs_st c (V(comps f := None)))
     (\<lambda>x s. fs_st c V s \<and> \<not> is_panic x \<and> \<not> (c \<and> V (comps f) \<noteq> Some None \<and> V (butlast (comps f)) = Some None))"
  unfolding remove_quiet_def
proof (rule triple_catch [where H = "\<lambda>e s. fs_st c V s \<and> \<not> is_panic e \<and> (e = Errno ENOENT \<longrightarrow> V (comps f) = None) \<and>
    \<not> (c \<and> V (comps f) \<noteq> Some None \<and> V (butlast (comps f)) = Some None \<and> e \<noteq> Errno ENOENT)"], goal_cases)
  case 1
  have none: "V (comps f) = None" if "\<forall>d. V (comps f) \<noteq> Some (Some d)" "V (comps f) \<noteq> Some None"
    using that by (cases "V (comps f)") auto
  show ?case by (rule triple_weaken [OF os_Remove_triple]) (use none in auto)
next
  case (2 e)
  have "V(comps f := None) = V" if "V (comps f) = None" using that by (rule fun_upd_idem)
  then show ?case
    by (auto intro!: triple_if triple_throw triple_return simp: os_IsNotExist_def)
qed

lemma deleteTorrent_run:
  assumes inv: "bt_inv s" and k: "e_client (engine s) = Some k" and known: "hash_known s ih" and t: "torrent_of s ih = Some t"
  shows "\<exists>u. deleteTorrent ih s = (Inr (), u) \<and> torrent_of u = (torrent_of s)(ih := None) \<and> info_of u = info_of s \<and>
    e_started (engine u) = e_started (engine s) \<and> e_rootDir (engine u) = e_rootDir (engine s) \<and>
    tree u = tree s \<and> inodes u = inodes s \<and> wf_fs u = wf_fs s \<and> faults u = faults s \<and>
    (\<forall>h. ih = HexString h \<and> length h = 20 \<longrightarrow> client_Torrent k h u = None)"
proof -
  obtain h where h: "length h = 20" "ih = HexString h" "str2ih ih = Inr h"
    using hash_known_parse [OF bt_inv_parts(1) [OF inv] known] by blast
  let ?s = "upd_engine (\<lambda>e. e\<lparr>e_ts := AList.delete ih (e_ts e)\<rparr>) s"
  let ?u = "case client_Torrent k h ?s of Some tt \<Rightarrow> Drop tt ?s | None \<Rightarrow> ?s"
  have "getTorrent ih s = (Inr t, s)" "t_InfoHash t = ih"
    using inv known t bt_inv_torrent [OF inv t] by (simp_all add: getTorrent_known bt_inv_parts(1))
  then have run: "deleteTorrent ih s = (Inr (), ?u)"
    using k by (simp add: deleteTorrent_def h(3) run engine_client_def split: option.split)
  have drop: "client_Torrent k h (Drop tt ?s) = None" if "client_Torrent k h ?s = Some tt" for tt
  proof -
    have "client_Torrent k h s = Some tt" using that by simp
    then have "h_hash (handles s tt) = h" "h_client (handles s tt) = k"
      using bt_inv_parts(1) [OF inv] by (auto simp: handles_ok_def)
    then show ?thesis
      by (auto simp: Drop_def dropTorrent_def client_Torrent_def delete_conv' split: option.splits)
  qed
  have inj: "h' = h" if "ih = HexString h'" "length h' = 20" for h'
  proof -
    have "str2ih ih = Inr h'" unfolding that(1) by (rule str2ih_HexString [OF that(2)])
    then show ?thesis using h(3) by simp
  qed
  have eng: "engine ?u = engine ?s" by (simp split: option.split)
  have fs: "tree (Drop tt v) = tree v" "inodes (Drop tt v) = inodes v" "faults (Drop tt v) = faults v"
    "next_ino (Drop tt v) = next_ino v" "rnd (Drop tt v) = rnd v" for tt and v :: "'a bt_scheme"
    by (simp_all add: Drop_def dropTorrent_def upd_client_def upd_handle_def split: option.split)
  have files: "tree ?u = tree s" "inodes ?u = inodes s" "faults ?u = faults s" "next_ino ?u = next_ino s" "rnd ?u = rnd s"
    by (simp_all add: fs upd_engine_def split: option.split)
  have "wf_fs ?u = wf_fs s" unfolding wf_fs_def files node_at_cong [OF files(1)] by (rule refl)
  moreover have "client_Torrent k h ?u = None" using drop by (cases "client_Torrent k h ?s") simp_all
  ultimately show ?thesis
    using run eng files inj by (intro exI [of _ ?u]) (auto simp: delete_conv')
qed

definition delete_files :: "string \<Rightarrow> ('z bt_scheme, unit) call" where
  "delete_files idn =
     bindE (getE (\<lambda>s. GetFilePath (engine s) idn)) (\<lambda>dfn.
     bindE (remove_quiet (''Remove data file '' @ dfn @ '' failed'') dfn) (\<lambda>_.
     bindE (getE (\<lambda>s. GetTorrentFilePath (engine s) idn)) (\<lambda>tfn.
     remove_quiet (''Remove torrent file '' @ tfn @ '' failed'') tfn)))"

lemma remove_more: "fs.more (snd (remove_quiet m f s)) = fs.more s"
proof -
  have "keeps (\<lambda>s. fs.more s = M) (remove_quiet m f)" for M
    unfolding remove_quiet_def by (intro keep)
  from keepsD [OF this refl] show ?thesis .
qed

lemma DeleteTorrent_started: "e_started (engine (snd (DeleteTorrent idn s))) = e_started (engine s)"
proof -
  let ?I = "\<lambda>u. e_started (engine u) = e_started (engine s)"
  have get: "keeps ?I (getTorrent ih)" for ih
    unfolding getTorrent_def by (intro keeps_bind keeps_simple keeps_cases)
  have cl: "keeps ?I engine_client" unfolding engine_client_def by (intro keeps_bind keeps_simple keeps_cases)
  have del: "keeps ?I (deleteTorrent ih)" for ih unfolding deleteTorrent_def
    by (intro keeps_bind get keeps_simple keeps_cases keeps_modify cl) simp_all
  have files: "keeps ?I (remove_quiet m f)" for m f
    by (rule keepsI) (simp add: more_eqD(4) [OF remove_more])
  have "keeps ?I (DeleteTorrent idn)"
    unfolding DeleteTorrent_def when_started_def
    by (intro keeps_bind keeps_simple keeps_cases keeps_modify keeps_wrap del files) simp
  from keepsD [OF this, of s] show ?thesis by simp
qed

lemma delete_files_run:
  fixes s :: "'z bt_scheme"
  defines "E \<equiv> engine s"
  assumes s: "fs_st c (view s) s" and m: "delete_files idn s = (r, u)"
    and ne: "comps (GetFilePath (engine s) idn) \<noteq> comps (GetTorrentFilePath (engine s) idn)"
  shows "engine u = engine s \<and>
    (r = Inr () \<and> view u = (view s)(comps (GetFilePath E idn) := None, comps (GetTorrentFilePath E idn) := None) \<or>
     (\<exists>x. r = Inl x \<and> \<not> is_panic x \<and> view u (comps (GetTorrentFilePath E idn)) = view s (comps (GetTorrentFilePath E idn)) \<and>
       (view u = view s \<or> view u = (view s)(comps (GetFilePath E idn) := None)) \<and>
       \<not> (c \<and> (\<forall>p \<in> {GetFilePath E idn, GetTorrentFilePath E idn}. view s (comps p) \<noteq> Some None \<and>
          view s (butlast (comps p)) = Some None \<and> butlast (comps p) \<noteq> comps (GetFilePath E idn)))))"
proof -
  let ?d = "GetFilePath E idn" let ?t = "GetTorrentFilePath E idn"
  let ?m1 = "''Remove data file '' @ ?d @ '' failed''" let ?m2 = "''Remove torrent file '' @ ?t @ '' failed''"
  obtain r1 v where m1: "remove_quiet ?m1 ?d s = (r1, v)" by fastforce
  have ev: "engine v = E" using more_eqD(4) [OF remove_more [of ?m1 ?d s]] m1 by (simp add: E_def)
  show ?thesis
  proof (cases r1)
    case (Inl x)
    have "remove_quiet ?m1 ?d s = (Inl x, v)" using m1 Inl by simp
    note f = tripleD_Inl [OF engine_remove_triple s this]
    then have "view v = view s" by (simp add: fs_st_def)
    moreover have "r = Inl x" "u = v" using m m1 Inl by (simp_all add: delete_files_def run E_def)
    ultimately show ?thesis using f ev by (auto simp: E_def)
  next
    case (Inr y)
    let ?V = "(view s)(comps ?d := None)"
    have "remove_quiet ?m1 ?d s = (Inr (), v)" using m1 Inr by simp
    from tripleD_Inr [OF engine_remove_triple s this] have fv: "fs_st c ?V v" .
    obtain r2 w where m2: "remove_quiet ?m2 ?t v = (r2, w)" by fastforce
    have ru: "r = r2" "u = w" using m m1 m2 Inr ev by (simp_all add: delete_files_def run E_def)
    have ew: "engine w = E" using more_eqD(4) [OF remove_more [of ?m2 ?t v]] m2 ev by simp
    show ?thesis
    proof (cases r2)
      case (Inl x)
      have "remove_quiet ?m2 ?t v = (Inl x, w)" using m2 Inl by simp
      note f = tripleD_Inl [OF engine_remove_triple fv this]
      then have vw: "view w = ?V" unfolding fs_st_def by blast
      have "?V (comps ?t) = view s (comps ?t)" using ne by (simp add: E_def)
      then show ?thesis using f Inl ru ew vw by (auto simp: E_def)
    next
      case (Inr z)
      have "remove_quiet ?m2 ?t v = (Inr (), w)" using m2 Inr by simp
      from tripleD_Inr [OF engine_remove_triple fv this] have "fs_st c (?V(comps ?t := None)) w" .
      then show ?thesis using ru ew Inr by (simp add: fs_st_def E_def)
    qed
  qed
qed

lemma DeleteTorrent_run:
  fixes s :: "'z bt_scheme" and idn :: string
  assumes "bt_inv s" "e_started (engine s)" "e_client (engine s) = Some k"
    and "info_of s idn = Some i" "\<not> ii_Started i" "torrent_of s (ii_InfoHash i) = Some t" "wf_fs s"
    and ne: "comps (GetFilePath (engine s) idn) \<noteq> comps (GetTorrentFilePath (engine s) idn)"
    and call: "DeleteTorrent idn s = (r, u)"
  shows "info_of u = (info_of s)(idn := None) \<and> torrent_of u = (torrent_of s)(ii_InfoHash i := None) \<and>
    (r = Inr () \<and> view u = (view s)(comps (GetFilePath (engine s) idn) := None, comps (GetTorrentFilePath (engine s) idn) := None) \<or>
     (\<exists>x. r = Inl x \<and> view u (comps (GetTorrentFilePath (engine s) idn)) = view s (comps (GetTorrentFilePath (engine s) idn)) \<and>
        DeleteTorrent idn u = (Inr (), u))) \<and>
    (faults s = [] \<and> (\<forall>p \<in> {GetFilePath (engine s) idn, GetTorrentFilePath (engine s) idn}. view s (comps p) \<noteq> Some None \<and>
       view s (butlast (comps p)) = Some None \<and> butlast (comps p) \<noteq> comps (GetFilePath (engine s) idn)) \<longrightarrow> r = Inr ())"
proof -
  let ?ih = "ii_InfoHash i"
  obtain v where v: "deleteTorrent ?ih s = (Inr (), v)" "torrent_of v = (torrent_of s)(?ih := None)" "info_of v = info_of s"
    "e_started (engine v) = e_started (engine s)" "e_rootDir (engine v) = e_rootDir (engine s)"
    "tree v = tree s" "inodes v = inodes s" "wf_fs v = wf_fs s" "faults v = faults s"
    using deleteTorrent_run [OF assms(1,3) bt_inv_get_known [OF assms(1,4)] assms(6)] by blast
  let ?w = "upd_engine (\<lambda>e. e\<lparr>e_idInfos := AList.delete idn (e_idInfos e)\<rparr>) v"
  have w: "info_of ?w = (info_of s)(idn := None)" "torrent_of ?w = (torrent_of s)(?ih := None)" "e_started (engine ?w)"
    "e_rootDir (engine ?w) = e_rootDir (engine s)"
    using v assms(2) by (simp_all add: delete_conv')
  have paths: "GetFilePath (engine ?w) = GetFilePath (engine s)" "GetTorrentFilePath (engine ?w) = GetTorrentFilePath (engine s)"
    using w(4) by (simp_all add: GetFilePath_def GetTorrentFilePath_def fun_eq_iff)
  have files: "tree ?w = tree s" "inodes ?w = inodes s" "faults ?w = faults s" using v by (simp_all add: upd_engine_def)
  have view: "view ?w = view s" using files by (intro view_cong)
  have "wf_fs ?w = wf_fs v" by (simp add: wf_fs_def upd_engine_def node_at_def)
  then have fs: "fs_st (faults s = []) (view ?w) ?w" using v(8) assms(7) files by (simp add: fs_st_def)
  have "DeleteTorrent idn s = delete_files idn ?w"
    using v(1) assms(2,4,5) by (simp add: DeleteTorrent_def delete_files_def when_started_run call_simps)
  then have m: "delete_files idn ?w = (r, u)" using call by simp
  have ne': "comps (GetFilePath (engine ?w) idn) \<noteq> comps (GetTorrentFilePath (engine ?w) idn)" unfolding paths by (rule ne)
  note run = delete_files_run [OF fs m ne', unfolded paths view]
  then have eu: "engine u = engine ?w" by blast
  have gone: "DeleteTorrent idn u = (Inr (), u)"
    using w(1,3) eu by (simp add: DeleteTorrent_def when_started_run call_simps)
  have "info_of u = (info_of s)(idn := None)" "torrent_of u = (torrent_of s)(?ih := None)" using w(1,2) eu by simp_all
  then show ?thesis using run gone by blast
qed

text \<open>C22. \<open>DeleteTorrent\<close> of a stopped ID takes it out of the registry and its torrent out of the cache and the
  client in every case, and when it returns without error both files are gone and no other is touched. It does return so
  without faults when the files are no directories. But the registration is removed first: when removing a
  file fails, the call fails, the torrent file is still there, and deleting again reports success
  and removes nothing.\<close>

theorem delete_effect:
  fixes s :: "'z bt_scheme" and idn :: string
  assumes "bt_inv s" "e_started (engine s)" "e_client (engine s) = Some k"
    and "info_of s idn = Some i" "\<not> ii_Started i" "torrent_of s (ii_InfoHash i) = Some t" "wf_fs s"
    and ne: "comps (GetFilePath (engine s) idn) \<noteq> comps (GetTorrentFilePath (engine s) idn)"
    and call: "DeleteTorrent idn s = (r, u)"
  shows "info_of u = (info_of s)(idn := None) \<and> torrent_of u = (torrent_of s)(ii_InfoHash i := None) \<and>
    (r = Inr () \<and> view u = (view s)(comps (GetFilePath (engine s) idn) := None, comps (GetTorrentFilePath (engine s) idn) := None) \<or>
     (\<exists>x. r = Inl x \<and> view u (comps (GetTorrentFilePath (engine s) idn)) = view s (comps (GetTorrentFilePath (engine s) idn)) \<and>
        DeleteTorrent idn u = (Inr (), u))) \<and>
    (faults s = [] \<and> (\<forall>p \<in> {GetFilePath (engine s) idn, GetTorrentFilePath (engine s) idn}. view s (comps p) \<noteq> Some None \<and>
       view s (butlast (comps p)) = Some None \<and> butlast (comps p) \<noteq> comps (GetFilePath (engine s) idn)) \<longrightarrow> r = Inr ())"
  by (rule DeleteTorrent_run [OF assms])

theorem delete_effect_witness:
  "\<exists>u. DeleteTorrent ''a'' demo_stopped = (Inr (), u) \<and> info_of u ''a'' = None \<and>
     view u [''root'', ''data'', ''a.layer''] = None"
proof -
  have e: "engine (demo_bt\<lparr>handles := x, next_handle := y\<rparr>) = engine demo_bt" for x y by simp
  have p: "comps (GetFilePath (engine demo_stopped) ''a'') = [''root'', ''data'', ''a.layer'']"
    "comps (GetTorrentFilePath (engine demo_stopped) ''a'') = [''root'', ''torrents'', ''a.torrent'']"
    using demo_paths(1,3) by (simp_all only: demo_stopped_def files_of_engine e)
  have n: "node_at demo_stopped q = node_at demo_bt q" for q
    by (simp add: demo_stopped_def node_at_def)
  have ok: "\<forall>p \<in> {GetFilePath (engine demo_stopped) ''a'', GetTorrentFilePath (engine demo_stopped) ''a''}.
      view demo_stopped (comps p) \<noteq> Some None \<and> view demo_stopped (butlast (comps p)) = Some None \<and>
      butlast (comps p) \<noteq> comps (GetFilePath (engine demo_stopped) ''a'')"
    by (simp add: p n demo_bt_nodes)
  obtain r u where m: "DeleteTorrent ''a'' demo_stopped = (r, u)" by fastforce
  have ne: "comps (GetFilePath (engine demo_stopped) ''a'') \<noteq> comps (GetTorrentFilePath (engine demo_stopped) ''a'')"
    by (simp add: p)
  note d = delete_effect [OF demo_stopped(1-6,8) ne m]
  have "r = Inr ()" using d ok demo_stopped(9) by blast
  then have "info_of u ''a'' = None" "view u [''root'', ''data'', ''a.layer''] = None"
    using d unfolding p by auto
  then show ?thesis using m \<open>r = Inr ()\<close> by (intro exI [of _ u] conjI) simp_all
qed

text \<open>C23. Two IDs with the same content share one cached torrent. Deleting one of them takes it from the other: its
  status is then an error, and when it was started it can never be stopped: the stop that should
  take effect fails and leaves it started.\<close>

theorem shared_torrent_lost:
  fixes s :: "'z bt_scheme" and idn :: string
  assumes "bt_inv s" "e_started (engine s)" "e_client (engine s) = Some k"
    and "info_of s idn = Some i" "\<not> ii_Started i" "torrent_of s (ii_InfoHash i) = Some t" "wf_fs s"
    and ne: "comps (GetFilePath (engine s) idn) \<noteq> comps (GetTorrentFilePath (engine s) idn)"
    and call: "DeleteTorrent idn s = (r, u)"
    and other: "info_of s x = Some j" "x \<noteq> idn" "ii_InfoHash j = ii_InfoHash i"
  shows "fst (GetStatus x u) = Inl (Wrap (''Get status for '' @ x @ '' failed'') (Msg (''Missing torrent '' @ ii_InfoHash j))) \<and>
    (ii_Started j \<and> ii_Count j \<le> 1 \<longrightarrow>
      (\<exists>v. StopTorrent x u = (Inl (Wrap ''Stop torrent failed'' (Msg (''Missing torrent '' @ ii_InfoHash j))), v) \<and>
        map_option ii_Started (info_of v x) = Some True))"
proof -
  note d = DeleteTorrent_run [OF assms(1-7) ne call]
  have kd: "keeps bt_inv (DeleteTorrent idn :: ('z bt_scheme, unit) call)" by (rule DeleteTorrent_inv)
  have inv: "bt_inv u" using keepsD [OF kd assms(1)] call by simp
  have io: "info_of u x = Some j" and to: "torrent_of u (ii_InfoHash j) = None" using d other by auto
  have st: "e_started (engine u)" using DeleteTorrent_started [of idn s] call assms(2) by simp
  have g: "getTorrent (ii_InfoHash j) u = (Inl (Msg (''Missing torrent '' @ ii_InfoHash j)), u)"
    using getTorrent_known [OF bt_inv_parts(1) [OF inv] bt_inv_get_known [OF inv io]] to by simp
  let ?j = "j\<lparr>ii_Count := ii_Count j - 1\<rparr>" let ?w = "set_idInfo x ?j u"
  have "getTorrent (ii_InfoHash j) ?w = (Inl (Msg (''Missing torrent '' @ ii_InfoHash j)), ?w)"
    using getTorrent_known [OF bt_inv_parts(1) [OF count_up_inv [OF inv io, of "ii_Count j - 1"]], of "ii_InfoHash j"] bt_inv_get_known [OF inv io] to
    by simp
  then have "StopTorrent x u = (Inl (Wrap ''Stop torrent failed'' (Msg (''Missing torrent '' @ ii_InfoHash j))), ?w)"
    if "ii_Started j" "ii_Count j \<le> 1"
    using that st io by (simp add: StopTorrent_def when_started_run call_simps Let_def wrapE_run stopTorrent_def bindE_def)
  then show ?thesis
    using g st io by (auto simp: GetStatus_def when_started_run call_simps wrapE_run bindE_def)
qed

text \<open>A second ID, started, with the content of the stopped one.\<close>

definition demo_shared :: bt where
  "demo_shared = set_idInfo ''b'' \<lparr>ii_Id = ''b'', ii_InfoHash = HexString demo_hash, ii_Started = True, ii_Count = 0\<rparr> demo_stopped"

theorem shared_torrent_lost_witness:
  "\<exists>u v. DeleteTorrent ''a'' demo_shared = (Inr (), u) \<and>
     StopTorrent ''b'' u = (Inl (Wrap ''Stop torrent failed'' (Msg (''Missing torrent '' @ HexString demo_hash))), v)"
proof -
  let ?j = "\<lparr>ii_Id = ''b'', ii_InfoHash = HexString demo_hash, ii_Started = True, ii_Count = 0\<rparr>"
  have hash: "ii_InfoHash demo_stopped_info = HexString demo_hash" by (simp add: demo_stopped_info_def)
  have "hash_known demo_stopped (ii_InfoHash demo_stopped_info)"
    using bt_inv_get_known [OF demo_stopped(1,4)] .
  then have inv: "bt_inv demo_shared"
    unfolding demo_shared_def by (intro bt_inv_set_idInfo demo_stopped(1)) (simp_all add: hash)
  have e: "engine (demo_bt\<lparr>handles := x, next_handle := y\<rparr>) = engine demo_bt" for x y by simp
  have p: "comps (GetFilePath (engine demo_shared) ''a'') = [''root'', ''data'', ''a.layer'']"
    "comps (GetTorrentFilePath (engine demo_shared) ''a'') = [''root'', ''torrents'', ''a.torrent'']"
    using demo_paths(1,3) by (simp_all only: demo_shared_def demo_stopped_def files_of_engine e)
  have n: "node_at demo_shared q = node_at demo_bt q" for q
    by (simp add: demo_shared_def demo_stopped_def node_at_def)
  have io: "info_of demo_shared ''a'' = Some demo_stopped_info" "info_of demo_shared ''b'' = Some ?j"
    using demo_stopped(4) by (simp_all add: demo_shared_def)
  have c: "e_started (engine demo_shared)" "e_client (engine demo_shared) = Some 0" "wf_fs demo_shared"
    "torrent_of demo_shared (ii_InfoHash demo_stopped_info) = Some demo_stopped_torrent" "faults demo_shared = []"
    using demo_stopped by (simp_all add: demo_shared_def)
  have ok: "\<forall>p \<in> {GetFilePath (engine demo_shared) ''a'', GetTorrentFilePath (engine demo_shared) ''a''}.
      view demo_shared (comps p) \<noteq> Some None \<and> view demo_shared (butlast (comps p)) = Some None \<and>
      butlast (comps p) \<noteq> comps (GetFilePath (engine demo_shared) ''a'')"
    by (simp add: p n demo_bt_nodes)
  obtain r u where m: "DeleteTorrent ''a'' demo_shared = (r, u)" by fastforce
  have ne: "comps (GetFilePath (engine demo_shared) ''a'') \<noteq> comps (GetTorrentFilePath (engine demo_shared) ''a'')"
    by (simp add: p)
  have "r = Inr ()" using DeleteTorrent_run [OF inv c(1,2) io(1) demo_stopped(5) c(4,3) ne m] ok c(5) by blast
  moreover have "''b'' \<noteq> ''a''" "ii_InfoHash ?j = ii_InfoHash demo_stopped_info" by (simp_all add: hash)
  note s = shared_torrent_lost [OF inv c(1,2) io(1) demo_stopped(5) c(4,3) ne m io(2) this]
  then have "\<exists>v. StopTorrent ''b'' u = (Inl (Wrap ''Stop torrent failed'' (Msg (''Missing torrent '' @ HexString demo_hash))), v)"
    by auto
  ultimately show ?thesis using m by blast
qed

section \<open>Torrent data from others\<close>

text \<open>What the client makes of torrent data it has loaded: the info it goes on with, or the error.\<close>

definition torrent_verdict :: "codec \<Rightarrow> MetaInfo \<Rightarrow> Info result" where
  "torrent_verdict c m =
     (case info_decode c (mi_InfoBytes m) of
        Inl x \<Rightarrow> Inl (Wrap ''error unmarshalling info bytes'' x)
      | Inr i \<Rightarrow> (case validateInfo i of Inl x \<Rightarrow> Inl (if is_panic x then x else Wrap ''bad info'' x) | Inr _ \<Rightarrow> Inr i))"

lemma AddTorrent_bad:
  fixes s :: "'z bt_scheme"
  assumes c: "codec_laws c" and new: "client_Torrent k (info_hash c m) s = None" and bad: "torrent_verdict c m = Inl x"
  shows "\<exists>u. AddTorrent c k m s = (Inl x, u) \<and>
    client_Torrent k (info_hash c m) u = Some (next_handle s) \<and> h_info (handles u (next_handle s)) = None"
proof -
  let ?h = "next_handle s" let ?ih = "info_hash c m"
  let ?s1 = "upd_client k (\<lambda>cl. cl\<lparr>cl_torrents := AList.update ?ih ?h (cl_torrents cl)\<rparr>)
     (s\<lparr>handles := (handles s)(?h := newTorrent k ?ih), next_handle := Suc ?h\<rparr>)"
  have 1: "AddTorrentInfoHash k ?ih s = (Inr ?h, ?s1)" using new by (simp add: AddTorrentInfoHash_def run)
  have 2: "\<exists>s2. whenE (i_Name (mi_Info m) \<noteq> []) (modifyE (upd_handle ?h (setDisplayName (i_Name (mi_Info m))))) ?s1 = (Inr (), s2)
     \<and> h_info (handles s2 ?h) = None \<and> h_hash (handles s2 ?h) = ?ih \<and> client_Torrent k ?ih s2 = Some ?h"
    by (cases "i_Name (mi_Info m) = []")
      (simp_all add: run client_Torrent_def update_conv' newTorrent_def setDisplayName_def haveInfo_def)
  then obtain s2 where s2: "whenE (i_Name (mi_Info m) \<noteq> []) (modifyE (upd_handle ?h (setDisplayName (i_Name (mi_Info m))))) ?s1 = (Inr (), s2)"
    "h_info (handles s2 ?h) = None" "h_hash (handles s2 ?h) = ?ih" "client_Torrent k ?ih s2 = Some ?h" by blast
  have ne: "mi_InfoBytes m \<noteq> []" if "info_decode c (mi_InfoBytes m) = Inr i" for i using that c by (auto simp: codec_laws_def)
  have np: "\<not> is_panic y" if "info_decode c (mi_InfoBytes m) = Inl y" for y using that c by (auto simp: codec_laws_def)
  have 3: "setInfoBytes c ?h (mi_InfoBytes m) s2 = (Inl x, s2)"
  proof (cases "info_decode c (mi_InfoBytes m)")
    case (Inl y)
    then show ?thesis
      using s2(2) bad np by (simp add: setInfoBytes_def haveInfo_def run wrapE_run liftE_def bindE_def torrent_verdict_def)
  next
    case (Inr i)
    then show ?thesis
      using s2(2,3) bad ne by (cases "validateInfo i")
        (auto simp: setInfoBytes_def haveInfo_def run info_hash_def wrapE_run liftE_def bindE_def torrent_verdict_def)
  qed
  show ?thesis
    using s2 3 1 by (simp add: AddTorrent_def AddTorrentSpec_def Let_def bindE_def)
qed

text \<open>Below the bounds of int64 the check computes with the lengths as they are.\<close>

lemma foldl_int64:
  assumes "\<And>x. x \<in> set xs \<Longrightarrow> 0 \<le> f x"
  shows "0 \<le> a \<Longrightarrow> a + sum_list (map f xs) < 2 ^ 63 \<Longrightarrow> foldl (\<lambda>ret x. int64 (ret + f x)) a xs = a + sum_list (map f xs)"
  using assms
proof (induction xs arbitrary: a)
  case (Cons x xs)
  have "0 \<le> f x" "0 \<le> sum_list (map f xs)" using Cons.prems(3) by (auto intro!: sum_list_nonneg)
  then have "int64 (a + f x) = a + f x" using Cons.prems(1,2) by (intro int64_id) simp_all
  then show ?case using Cons.IH [of "a + f x"] Cons.prems \<open>0 \<le> f x\<close> by (simp add: add.assoc)
qed simp

lemma whole_hashes: "n mod 20 = 0 \<and> x = int n div 20 \<longleftrightarrow> int n = 20 * x"
proof
  assume a: "n mod 20 = 0 \<and> x = int n div 20"
  then have "int n mod 20 = 0" by (metis of_nat_0 of_nat_numeral zmod_int)
  then show "int n = 20 * x" using a mult_div_mod_eq [of 20 "int n"] by simp
next
  assume a: "int n = 20 * x"
  then have "int (n mod 20) = 0" by (simp add: zmod_int)
  then show "n mod 20 = 0 \<and> x = int n div 20" using a by simp
qed

lemma validateInfo_exact:
  assumes "\<And>f. f \<in> set (UpvertedFiles i) \<Longrightarrow> 0 \<le> fi_Length f" "0 < i_PieceLength i"
    and "sum_list (map fi_Length (UpvertedFiles i)) + i_PieceLength i \<le> 2 ^ 63"
  shows "validateInfo i = Inr () \<longleftrightarrow>
    int (length (i_Pieces i)) = 20 * ((sum_list (map fi_Length (UpvertedFiles i)) + i_PieceLength i - 1) div i_PieceLength i)"
proof -
  let ?L = "sum_list (map fi_Length (UpvertedFiles i))" and ?p = "i_PieceLength i" and ?n = "length (i_Pieces i)"
  have L: "0 \<le> ?L" using assms(1) by (auto intro!: sum_list_nonneg)
  have T: "TotalLength i = ?L"
  proof (cases "i_Files i = []")
    case False
    then have u: "UpvertedFiles i = i_Files i" by (simp add: UpvertedFiles_def)
    have n: "0 \<le> fi_Length f" if "f \<in> set (i_Files i)" for f using assms(1) [of f] that by (simp only: u)
    have "0 + sum_list (map fi_Length (i_Files i)) < 2 ^ 63" using assms(2,3) unfolding u by linarith
    from foldl_int64 [OF n order_refl this] show ?thesis using False by (simp add: TotalLength_def IsDir_def u)
  qed (simp add: UpvertedFiles_def TotalLength_def IsDir_def)
  have "int64 (?L + ?p - 1) = ?L + ?p - 1" using L assms(2,3) by (intro int64_id) simp_all
  then have q: "int64_quot (int64 (TotalLength i + ?p - 1)) ?p = (?L + ?p - 1) div ?p"
    unfolding T using int64_quot_pos [of "?L + ?p - 1" ?p] L assms(2,3) by simp
  define x where "x = (?L + ?p - 1) div ?p"
  have "validateInfo i = Inr () \<longleftrightarrow> ?n mod 20 = 0 \<and> x = int ?n div 20"
    using assms(2) unfolding validateInfo_def q x_def [symmetric] by (simp add: NumPieces_def)
  also have "\<dots> \<longleftrightarrow> int ?n = 20 * x" by (rule whole_hashes)
  finally show ?thesis by (simp add: x_def)
qed

text \<open>Four files of 2^62 bytes and one of 5: in int64 they have 5 bytes together.\<close>

definition wrapping_info :: "bytes \<Rightarrow> string \<Rightarrow> Info" where
  "wrapping_info pc name =
     \<lparr>i_PieceLength = 10, i_Pieces = pc, i_Name = name, i_Length = 0,
      i_Files = map (\<lambda>(n, f). \<lparr>fi_Length = n, fi_Path = [f]\<rparr>)
        [(2 ^ 62, ''a''), (2 ^ 62, ''b''), (2 ^ 62, ''c''), (2 ^ 62, ''d''), (5, ''e'')]\<rparr>"

text \<open>C29. What a leecher makes of the torrent data of its peer. Data the client cannot accept is refused with an error,
  and nothing is registered, but the client keeps a torrent without info that the engine does not know; all other
  data is accepted and its ID registered. The check compares the number of pieces with the length rounded up, exactly
  as long as that fits into an int64; beyond, it computes modulo 2^64 and accepts torrents with far too few
  pieces. A piece length of 0 is divided by, which panics. And names are not looked at: a torrent named by
  two dots has its files beside the data directory, wherever their paths lead.\<close>

theorem leecher_validates:
  fixes s :: "'z bt_scheme"
  assumes "codec_laws c" "e_started (engine s)" "e_client (engine s) = Some k" "\<nexists>i. info_of s idn = Some i \<and> ii_Started i"
    and "mi_load c d = Inr m" "client_Torrent k (info_hash c m) s = None"
  shows "(case torrent_verdict c m of
      Inl x \<Rightarrow> \<exists>u. StartLeecher c env n idn d p s = (Inl (if is_panic x then x else Wrap ''Add torrent failed'' x), u) \<and>
        info_of u = info_of s \<and> torrent_of u = torrent_of s \<and> gos u = gos s \<and>
        client_Torrent k (info_hash c m) u = Some (next_handle s) \<and> h_info (handles u (next_handle s)) = None
    | Inr i \<Rightarrow> \<exists>u. StartLeecher c env n idn d False s = (Inr True, u) \<and> (\<exists>j. info_of u idn = Some j \<and> ii_Started j) \<and>
        client_Torrent k (info_hash c m) u = Some (next_handle s) \<and> h_info (handles u (next_handle s)) = Some i) \<and>
    ((\<forall>f \<in> set (UpvertedFiles i). 0 \<le> fi_Length f) \<and> 0 < i_PieceLength i \<and>
       sum_list (map fi_Length (UpvertedFiles i)) + i_PieceLength i \<le> 2 ^ 63 \<longrightarrow>
       (validateInfo i = Inr () \<longleftrightarrow>
          int (length (i_Pieces i)) = 20 * ((sum_list (map fi_Length (UpvertedFiles i)) + i_PieceLength i - 1) div i_PieceLength i))) \<and>
    (length h = 20 \<longrightarrow> validateInfo (wrapping_info h nm) = Inr ()) \<and>
    (length (i_Pieces i) mod 20 = 0 \<and> i_PieceLength i = 0 \<longrightarrow> (\<exists>x. validateInfo i = Inl x \<and> is_panic x)) \<and>
    validateInfo (i\<lparr>i_Name := nm\<rparr>) = validateInfo i \<and>
    (R \<noteq> [] \<and> (\<forall>u \<in> set us. name_ok u) \<longrightarrow>
       fileInfoName (Join [R, ''data'']) (i\<lparr>i_Name := ''..''\<rparr>) \<lparr>fi_Length = l, fi_Path = us\<rparr> = Join (R # us))"
proof (intro conjI impI)
  have no: "\<not> ii_Started i" if "info_of s idn = Some i" for i using assms(4) that by blast
  show "case torrent_verdict c m of
      Inl x \<Rightarrow> \<exists>u. StartLeecher c env n idn d p s = (Inl (if is_panic x then x else Wrap ''Add torrent failed'' x), u) \<and>
        info_of u = info_of s \<and> torrent_of u = torrent_of s \<and> gos u = gos s \<and>
        client_Torrent k (info_hash c m) u = Some (next_handle s) \<and> h_info (handles u (next_handle s)) = None
    | Inr i \<Rightarrow> \<exists>u. StartLeecher c env n idn d False s = (Inr True, u) \<and> (\<exists>j. info_of u idn = Some j \<and> ii_Started j) \<and>
        client_Torrent k (info_hash c m) u = Some (next_handle s) \<and> h_info (handles u (next_handle s)) = Some i"
  proof (cases "torrent_verdict c m")
    case (Inl x)
    obtain u where u: "AddTorrent c k m s = (Inl x, u)"
      "client_Torrent k (info_hash c m) u = Some (next_handle s)" "h_info (handles u (next_handle s)) = None"
      using AddTorrent_bad [OF assms(1,6) Inl] by blast
    have at: "at_engine (engine s) (gos s) s" by (simp add: at_engine_def)
    have e: "engine u = engine s" "gos u = gos s"
      using keepsD [OF AddTorrent_engine at, of c k m] u(1) by (simp_all add: at_engine_def)
    have "register c idn m s = (Inl (if is_panic x then x else Wrap ''Add torrent failed'' x), u)"
      using u(1) assms(3) by (simp add: register_def engine_client_def run wrapE_run bindE_def)
    then have "StartLeecher c env n idn d p s = (Inl (if is_panic x then x else Wrap ''Add torrent failed'' x), u)"
      using assms(2,5) no
      by (cases "info_of s idn") (simp_all add: StartLeecher_def when_started_run call_simps wrapE_run bindE_def)
    then show ?thesis using u e Inl by auto
  next
    case (Inr i)
    then have i: "info_decode c (mi_InfoBytes m) = Inr i" "validateInfo i = Inr ()"
      by (auto simp: torrent_verdict_def split: sum.splits)
    obtain t u where u: "register c idn m s = (Inr t, u)" "client_Torrent k (info_hash c m) u = Some (next_handle s)"
      "h_info (handles u (next_handle s)) = Some i"
      "info_of u = (info_of s)(idn \<mapsto> \<lparr>ii_Id = idn, ii_InfoHash = t_InfoHash t, ii_Started = True, ii_Count = 0\<rparr>)"
      using register_new [OF assms(1,3,6) i refl, of idn] by blast
    have "StartLeecher c env n idn d False s = (Inr True, u)"
      using assms(2,5) no u(1)
      by (cases "info_of s idn") (simp_all add: StartLeecher_def when_started_run call_simps wrapE_run bindE_def)
    then show ?thesis using u Inr by simp
  qed
next
  assume a: "(\<forall>f \<in> set (UpvertedFiles i). 0 \<le> fi_Length f) \<and> 0 < i_PieceLength i \<and>
       sum_list (map fi_Length (UpvertedFiles i)) + i_PieceLength i \<le> 2 ^ 63"
  then show "validateInfo i = Inr () \<longleftrightarrow>
      int (length (i_Pieces i)) = 20 * ((sum_list (map fi_Length (UpvertedFiles i)) + i_PieceLength i - 1) div i_PieceLength i)"
    by (intro validateInfo_exact) simp_all
next
  show "validateInfo (wrapping_info h nm) = Inr ()" if "length h = 20"
    using that by (simp add: validateInfo_def NumPieces_def wrapping_info_def TotalLength_def IsDir_def int64_def int64_quot_def
        signed_divide_int_def)
qed (auto simp: validateInfo_def NumPieces_def TotalLength_def IsDir_def fileInfoName_escape)

text \<open>A torrent file with piece length 0.\<close>

definition demo_bad :: MetaInfo where
  "demo_bad = demo_mi\<lparr>mi_Info := demo_layer_info\<lparr>i_PieceLength := 0\<rparr>, mi_InfoBytes := put_info (demo_layer_info\<lparr>i_PieceLength := 0\<rparr>)\<rparr>"

theorem leecher_validates_witness:
  "(\<exists>u. StartLeecher demo_torrents (\<lambda>s. s) 1 ''x'' (put_metainfo demo_bad) False demo_bt =
     (Inl (Panic ''integer divide by zero''), u)) \<and>
   validateInfo (wrapping_info (sha1 demo_torrents ''abc'') ''x'') = Inr () \<and>
   fileInfoName (Join [''root'', ''data'']) (demo_layer_info\<lparr>i_Name := ''..''\<rparr>) \<lparr>fi_Length = 1, fi_Path = [''oci'']\<rparr> = Join [''root'', ''oci'']"
proof -
  let ?i = "demo_layer_info\<lparr>i_PieceLength := 0\<rparr>"
  have load: "mi_load demo_torrents (put_metainfo demo_bad) = Inr demo_bad"
    using demo_load_write [of demo_bad] by (simp add: demo_torrents_def demo_bad_def)
  have bad: "validateInfo ?i = Inl (Panic ''integer divide by zero'')"
    by (simp add: validateInfo_def demo_layer_info_def demo_torrents_def)
  have "info_decode demo_torrents (mi_InfoBytes demo_bad) = Inr ?i"
    by (simp add: demo_torrents_def demo_bad_def demo_info)
  then have v: "torrent_verdict demo_torrents demo_bad = Inl (Panic ''integer divide by zero'')"
    using bad by (simp add: torrent_verdict_def)
  have no: "\<nexists>i. info_of demo_bt ''x'' = Some i \<and> ii_Started i" by simp
  have h: "length (sha1 demo_torrents ''abc'') = 20" using demo_torrents_laws by (simp add: codec_laws_def)
  have o: "\<forall>u \<in> set [''oci'']. name_ok u" by (simp add: name_ok_def)
  note l = leecher_validates [OF demo_torrents_laws demo_bt_simps(2,1) no load demo_bt_simps(10), where env = "\<lambda>s. s" and n = 1 and p = False
    and h = "sha1 demo_torrents ''abc''" and nm = "''x''" and R = "''root''" and us = "[''oci'']" and i = demo_layer_info and l = 1]
  have "\<exists>u. StartLeecher demo_torrents (\<lambda>s. s) 1 ''x'' (put_metainfo demo_bad) False demo_bt =
     (Inl (Panic ''integer divide by zero''), u)"
    using l [THEN conjunct1] v by auto
  then show ?thesis using l h o by simp
qed

end
