(* ===== verification/Bt_Status.thy ===== *)
theory Bt_Status
  imports Bt_Demo
begin

text \<open>
  What the engine reports and refuses: the calls before \<open>Run\<close>, the status calls, the parsing of
  info hashes, the goroutine of a start, the wait of a leecher, the rate limits.
\<close>

section \<open>Before the engine runs\<close>

lemma not_started:
  assumes "\<not> e_started (engine s)"
  shows "StartSeed c idn s = (Inl ErrBtEngineNotStart, s)" "StartLeecher c env n idn d p s = (Inl ErrBtEngineNotStart, s)"
    "StopTorrent idn s = (Inl ErrBtEngineNotStart, s)" "DeleteTorrent idn s = (Inl ErrBtEngineNotStart, s)"
    "GetStatus idn s = (Inl ErrBtEngineNotStart, s)" "GetAllStatus order s = (Inl ErrBtEngineNotStart, s)"
    "engine_GetTorrent c idn s = (Inl ErrBtEngineNotStart, s)"
  using assms
  by (simp_all add: StartSeed_def StartLeecher_def StopTorrent_def DeleteTorrent_def GetStatus_def GetAllStatus_def
      engine_GetTorrent_def when_started_run)

text \<open>When the data directory cannot be made, \<open>Run\<close> still returns without error, with the
  engine as it was; every later call of an engine that was not running is then refused with
  \<open>ErrBtEngineNotStart\<close> and changes nothing.\<close>

theorem run_hides_failure:
  assumes "os_MkdirAll (e_dataDir (engine s)) s = (Inl x, t)" "\<not> is_panic x" "\<not> os_IsExist x" "\<not> e_started (engine s)"
  shows "Run c s = (Inr (), t) \<and> engine t = engine s \<and> gos t = gos s \<and>
    StartSeed c idn t = (Inl ErrBtEngineNotStart, t) \<and> StartLeecher c env n idn d p t = (Inl ErrBtEngineNotStart, t) \<and>
    StopTorrent idn t = (Inl ErrBtEngineNotStart, t) \<and> DeleteTorrent idn t = (Inl ErrBtEngineNotStart, t) \<and>
    GetStatus idn t = (Inl ErrBtEngineNotStart, t) \<and> GetAllStatus order t = (Inl ErrBtEngineNotStart, t) \<and>
    engine_GetTorrent c idn t = (Inl ErrBtEngineNotStart, t)"
proof -
  have "fs.more (snd (os_MkdirAll (e_dataDir (engine s)) s)) = fs.more s"
    by (rule keepsD [OF os_MkdirAll_more]) (rule refl)
  then have e: "engine t = engine s" "gos t = gos s" using assms(1) more_eqD [of t s] by simp_all
  have "Run c s = (Inr (), t)"
    using assms(1-3) by (simp add: Run_def run mkdir_failed_def)
  moreover have "\<not> e_started (engine t)" using e assms(4) by simp
  ultimately show ?thesis using e not_started [of t] by blast
qed

text \<open>A root that is a file.\<close>

definition demo_blocked :: bt where
  "demo_blocked = demo_new\<lparr>tree := [([''root''], File 0)]\<rparr>"

theorem run_hides_failure_witness:
  "\<exists>t. Run demo_torrents demo_blocked = (Inr (), t) \<and> StartSeed demo_torrents ''a'' t = (Inl ErrBtEngineNotStart, t)"
proof -
  have cs: "comps (Join [''root'', ''data'']) = [''root'', ''data'']" by code_simp
  have "os_MkdirAll (e_dataDir (engine demo_blocked)) demo_blocked = (Inl (Errno ENOTDIR), demo_blocked)"
    by (simp add: demo_blocked_def demo_new_def NewBtEngine_def os_MkdirAll_def cs syscall_def resolve_def node_at_def
        run tryE_def bindE_def)
  moreover have "\<not> e_started (engine demo_blocked)"
    by (simp add: demo_blocked_def demo_new_def NewBtEngine_def)
  ultimately show ?thesis
    using run_hides_failure [of demo_blocked "Errno ENOTDIR" demo_blocked demo_torrents "''a''"] by simp
qed

section \<open>Info hashes\<close>

definition is_hex :: "string \<Rightarrow> bool" where
  "is_hex str \<longleftrightarrow> (\<forall>c \<in> set str. fromHexChar c \<noteq> None)"

lemma hex_loop_panic:
  "hex_loop n src = Inl x \<Longrightarrow> is_panic x \<Longrightarrow> even (length src) \<Longrightarrow> length src > 2 * n"
  by (induction n src arbitrary: x rule: hex_loop.induct)
    (auto split: option.splits nat.splits sum.splits simp: map_sum_def)

lemma hex_loop_long:
  "even (length src) \<Longrightarrow> is_hex src \<Longrightarrow> length src > 2 * n \<Longrightarrow> \<exists>m. hex_loop n src = Inl (Panic m)"
proof (induction n src rule: hex_loop.induct)
  case (1 n a b src)
  then obtain x y where xy: "fromHexChar a = Some x" "fromHexChar b = Some y" by (auto simp: is_hex_def)
  show ?case
  proof (cases n)
    case (Suc k)
    have "is_hex src" using 1(3) by (simp add: is_hex_def)
    then obtain m where "hex_loop k src = Inl (Panic m)"
      using 1(1) [OF refl xy Suc] 1(2,4) Suc by auto
    then show ?thesis using xy Suc by simp
  qed (use xy in simp)
qed auto

text \<open>\<open>str2ih\<close> reads back the hash that \<open>HexString\<close> printed and gives only hashes of 20 bytes, from
  strings of 40 characters; shorter strings and strings that are no hexadecimal number are
  errors, but a longer hexadecimal one (of even length) panics.\<close>

theorem str2ih_spec:
  "(length h = 20 \<longrightarrow> str2ih (HexString h) = Inr h) \<and>
   (str2ih str = Inr h \<longrightarrow> length h = 20 \<and> length str = 40) \<and>
   (str2ih str = Inl x \<and> is_panic x \<longrightarrow> length str > 40) \<and>
   (even (length str) \<and> is_hex str \<and> length str > 40 \<longrightarrow> (\<exists>m. str2ih str = Inl (Panic m)))"
proof (intro conjI impI)
  show "length h = 20" if "str2ih str = Inr h"
    using that by (auto simp: str2ih_def split: sum.splits if_splits)
  show "length str = 40" if "str2ih str = Inr h"
    using that by (auto simp: str2ih_def hex_Decode_def split: sum.splits if_splits dest!: hex_loop_length)
  show "length str > 40" if "str2ih str = Inl x \<and> is_panic x"
    using that hex_loop_panic [of 20 str] by (auto simp: str2ih_def hex_Decode_def split: sum.splits if_splits)
  show "\<exists>m. str2ih str = Inl (Panic m)" if "even (length str) \<and> is_hex str \<and> length str > 40"
    using that hex_loop_long [of str 20] by (auto simp: str2ih_def hex_Decode_def)
qed simp

theorem str2ih_spec_witness:
  "str2ih (HexString demo_hash) = Inr demo_hash \<and> (\<exists>m. str2ih (replicate 42 CHR ''a'') = Inl (Panic m))"
proof (intro conjI)
  show "str2ih (HexString demo_hash) = Inr demo_hash"
    using str2ih_spec [of demo_hash] demo_mi_simps(5) by blast
  have "is_hex (replicate 42 CHR ''a'')" by (simp add: is_hex_def fromHexChar_def)
  then show "\<exists>m. str2ih (replicate 42 CHR ''a'') = Inl (Panic m)"
    using str2ih_spec [of _ "replicate 42 CHR ''a''"] by simp
qed

section \<open>The goroutine of a start\<close>

text \<open>C28. The goroutine a start leaves behind never fails and touches no registration. When its torrent
  is still cached it marks it \<open>Started\<close>, whatever its state was (so a stop that came first is
  undone), and if the state was another one and there are pieces, marks what is missing of them for
  download; the handle stays dropped when it was. When the torrent was deleted meanwhile, nothing happens.\<close>

theorem goroutine_effect:
  assumes "bt_inv s" "(h, ih) \<in> set (gos s)"
  shows "\<exists>u. run_goroutine (h, ih) s = (Inr (), u) \<and> info_of u = info_of s \<and>
    (case torrent_of s ih of None \<Rightarrow> u = s
     | Some t \<Rightarrow> torrent_of u = (torrent_of s)(ih \<mapsto> t\<lparr>t_State := Started\<rparr>) \<and>
        h_pending (handles u (t_tt t)) =
          (h_pending (handles s (t_tt t)) \<or>
           t_State t \<noteq> Started \<and> has_pieces (handles s (t_tt t)) \<and> \<not> h_complete (handles s (t_tt t))) \<and>
        h_closed (handles u (t_tt t)) = h_closed (handles s (t_tt t)))"
proof -
  have g: "getTorrent ih s = (case torrent_of s ih of
      None \<Rightarrow> (Inl (Msg (''Missing torrent '' @ ih)), s) | Some t \<Rightarrow> (Inr t, s))"
    using assms by (intro getTorrent_known) (auto simp: bt_inv_def)
  show ?thesis
  proof (cases "torrent_of s ih")
    case None
    then show ?thesis using g by (simp add: run_goroutine_def startTorrent_def run)
  next
    case (Some t)
    have ti: "t_InfoHash t = ih" using bt_inv_torrent [OF assms(1) Some] by simp
    show ?thesis
    proof (cases "t_State t = Started")
      case True
      moreover have "t\<lparr>t_State := t_State t\<rparr> = t" by simp
      ultimately show ?thesis using g Some by (simp add: run_goroutine_def startTorrent_def run fun_upd_idem)
    next
      case False
      then show ?thesis
        using g Some ti by (cases "haveInfo (handles s (t_tt t))")
          (simp_all add: run_goroutine_def startTorrent_def run DownloadAll_def has_pieces_def haveInfo_def)
    qed
  qed
qed

theorem goroutine_effect_witness:
  "\<exists>t u. StartSeed demo_torrents ''a'' demo_bt = (Inr (), t) \<and> run_goroutine (0, HexString demo_hash) t = (Inr (), u) \<and>
     map_option t_State (torrent_of u (HexString demo_hash)) = Some Started"
proof -
  obtain t u where u: "StartSeed demo_torrents ''a'' demo_bt = (Inr (), u)" "running u ''a'' (HexString demo_hash) 0 t"
    "torrent_of u = [HexString demo_hash \<mapsto> t]" "gos u = [(0, HexString demo_hash)]"
    by (rule demo_seeded)
  have "bt_inv u" "(0, HexString demo_hash) \<in> set (gos u)" using u by (simp_all add: running_def)
  from goroutine_effect [OF this] show ?thesis using u by auto
qed

section \<open>Waiting for a download\<close>

definition download_done :: "'z net_scheme \<Rightarrow> nat \<Rightarrow> bool" where
  "download_done s tt \<longleftrightarrow> haveInfo (handles s tt) \<and> BytesCompleted (handles s tt) \<ge> torrent_Length (handles s tt)"

lemma waitComplete_run:
  "waitComplete env (Suc n) tt s =
     (if download_done s tt then (Inr True, s) else waitComplete env n tt (env s))"
  by (simp add: download_done_def run)

lemma waitComplete_at:
  "download_done ((env ^^ m) s) tt \<Longrightarrow> (\<And>k. k < m \<Longrightarrow> \<not> download_done ((env ^^ k) s) tt) \<Longrightarrow> m < n \<Longrightarrow>
   waitComplete env n tt s = (Inr True, (env ^^ m) s)"
proof (induction n arbitrary: m s)
  case (Suc n)
  show ?case
  proof (cases m)
    case 0
    then show ?thesis using Suc.prems(1) unfolding waitComplete_run by simp
  next
    case (Suc m')
    have nd: "\<not> download_done s tt" using Suc.prems(2) [of 0] Suc by simp
    have step: "(env ^^ j) (env s) = (env ^^ Suc j) s" for j by (simp add: funpow_swap1)
    have "waitComplete env n tt (env s) = (Inr True, (env ^^ m') (env s))"
    proof (rule Suc.IH)
      show "download_done ((env ^^ m') (env s)) tt" using Suc.prems(1) Suc step by simp
      show "\<not> download_done ((env ^^ k) (env s)) tt" if "k < m'" for k
        using Suc.prems(2) [of "Suc k"] Suc that step by simp
      show "m' < n" using Suc.prems(3) Suc by simp
    qed
    then show ?thesis unfolding waitComplete_run using nd Suc step [of m'] by simp
  qed
qed simp

lemma waitComplete_not:
  "(\<And>k. k < n \<Longrightarrow> \<not> download_done ((env ^^ k) s) tt) \<Longrightarrow> waitComplete env n tt s = (Inr False, (env ^^ n) s)"
proof (induction n arbitrary: s)
  case (Suc n)
  have step: "(env ^^ j) (env s) = (env ^^ Suc j) s" for j by (simp add: funpow_swap1)
  have "\<not> download_done s tt" using Suc.prems [of 0] by simp
  moreover have "waitComplete env n tt (env s) = (Inr False, (env ^^ n) (env s))"
    by (rule Suc.IH) (use Suc.prems step in fastforce)
  ultimately show ?case using step [of n] by (simp only: waitComplete_run if_False)
qed (simp add: run)

text \<open>C26. The wait of a leecher ends exactly when the download gets complete. When the environment reaches a
  state in which the torrent has its info and all its bytes, the wait returns in the first such state,
  after as many polls as that takes (and not before: with fewer, all fuel is used up); when there is none, it
  polls forever.\<close>

theorem wait_complete:
  "(\<exists>m. download_done ((env ^^ m) s) tt \<and> (\<forall>k < m. \<not> download_done ((env ^^ k) s) tt) \<and>
      (\<forall>n. waitComplete env n tt s = (if m < n then (Inr True, (env ^^ m) s) else (Inr False, (env ^^ n) s)))) \<or>
   ((\<forall>m. \<not> download_done ((env ^^ m) s) tt) \<and> (\<forall>n. waitComplete env n tt s = (Inr False, (env ^^ n) s)))"
proof (cases "\<exists>m. download_done ((env ^^ m) s) tt")
  case True
  define k where "k = (LEAST m. download_done ((env ^^ m) s) tt)"
  have k: "download_done ((env ^^ k) s) tt" unfolding k_def using True by (rule LeastI_ex)
  have first: "\<not> download_done ((env ^^ j) s) tt" if "j < k" for j
    using that not_less_Least unfolding k_def by blast
  have "waitComplete env n tt s = (Inr True, (env ^^ k) s)" if "k < n" for n
    using waitComplete_at [OF k first that] .
  moreover have "waitComplete env n tt s = (Inr False, (env ^^ n) s)" if "\<not> k < n" for n
    by (rule waitComplete_not, rule first) (use that in simp)
  ultimately show ?thesis using k first by (intro disjI1 exI [of _ k]) simp
next
  case False
  then show ?thesis using waitComplete_not by blast
qed

theorem wait_complete_witness:
  "waitComplete (upd_handle 0 (\<lambda>t. t\<lparr>h_info := Some demo_layer_info, h_left := 0\<rparr>)) 5 0 demo_bt =
     (Inr True, upd_handle 0 (\<lambda>t. t\<lparr>h_info := Some demo_layer_info, h_left := 0\<rparr>) demo_bt)"
proof -
  let ?e = "upd_handle 0 (\<lambda>t. t\<lparr>h_info := Some demo_layer_info, h_left := 0\<rparr>) :: bt \<Rightarrow> bt"
  have d: "download_done ((?e ^^ 1) demo_bt) 0"
    by (simp add: download_done_def haveInfo_def BytesCompleted_def torrent_Length_def TotalLength_def IsDir_def
        demo_layer_info_def int64_def)
  have nd: "\<not> download_done demo_bt 0"
    by (simp add: download_done_def haveInfo_def demo_bt_def demo_new_def upd_engine_def newTorrent_def)
  obtain m where m: "download_done ((?e ^^ m) demo_bt) 0" "\<forall>k < m. \<not> download_done ((?e ^^ k) demo_bt) 0"
    "waitComplete ?e 5 0 demo_bt = (if m < 5 then (Inr True, (?e ^^ m) demo_bt) else (Inr False, (?e ^^ 5) demo_bt))"
    using wait_complete [of ?e demo_bt 0] d by blast
  have "m \<noteq> 0" using m(1) nd by (cases m) simp_all
  moreover have "\<not> 1 < m" using m(2) d by blast
  ultimately have "m = 1" by simp
  then show ?thesis using m(3) by simp
qed

section \<open>The status of all torrents\<close>

lemma distinct_single: "distinct xs \<Longrightarrow> set xs = {a} \<Longrightarrow> xs = [a]"
  by (cases xs; cases "tl xs") auto

lemma Update_again: "Update s (Update s t) = Update s t"
  by (simp add: Update_def Let_def)

definition same_clients :: "'z net_scheme \<Rightarrow> 'z net_scheme \<Rightarrow> bool" where
  "same_clients s u \<longleftrightarrow> handles u = handles s \<and> clients u = clients s \<and> next_handle u = next_handle s"

text \<open>The states of the loop: what is cached is what was, or its update.\<close>

definition refreshed :: "'z bt_scheme \<Rightarrow> 'z bt_scheme \<Rightarrow> bool" where
  "refreshed s u \<longleftrightarrow> bt_inv u \<and> same_clients s u \<and> info_of u = info_of s \<and>
     (\<forall>ih. torrent_of u ih = torrent_of s ih \<or> torrent_of u ih = map_option (Update s) (torrent_of s ih))"

lemma all_status_run:
  assumes "refreshed s u"
  shows "\<exists>v. all_status ids u =
     (Inr (map (\<lambda>idn. status_of idn (Update s (the (torrent_of s (ii_InfoHash (the (info_of s idn)))))))
        (filter (\<lambda>idn. \<exists>i. info_of s idn = Some i \<and> torrent_of s (ii_InfoHash i) \<noteq> None) ids)), v) \<and> refreshed s v"
  using assms
proof (induction ids arbitrary: u)
  case (Cons idn ids)
  have inv: "bt_inv u" and io: "info_of u = info_of s" and sc: "same_clients s u"
    and ts: "torrent_of u ih = torrent_of s ih \<or> torrent_of u ih = map_option (Update s) (torrent_of s ih)" for ih
    using Cons.prems by (auto simp: refreshed_def)
  show ?case
  proof (cases "info_of s idn")
    case None
    then show ?thesis using Cons.IH [OF Cons.prems] io by (simp add: run)
  next
    case (Some i)
    then have iu: "info_of u idn = Some i" using io by simp
    have g: "getTorrent (ii_InfoHash i) u = (case torrent_of u (ii_InfoHash i) of
       None \<Rightarrow> (Inl (Msg (''Missing torrent '' @ ii_InfoHash i)), u) | Some t \<Rightarrow> (Inr t, u))"
      using inv bt_inv_get_known [OF inv iu] by (intro getTorrent_known) (auto simp: bt_inv_def)
    show ?thesis
    proof (cases "torrent_of s (ii_InfoHash i)")
      case None
      then have "torrent_of u (ii_InfoHash i) = None" using ts [of "ii_InfoHash i"] by auto
      then show ?thesis using Cons.IH [OF Cons.prems] iu g Some None by (simp add: run)
    next
      case (Some t)
      then obtain t' where t': "torrent_of u (ii_InfoHash i) = Some t'" "t' = t \<or> t' = Update s t"
        using ts [of "ii_InfoHash i"] by auto
      have up: "Update u x = Update s x" for x
        using sc by (simp add: Update_def same_clients_def Let_def)
      have t2: "Update u t' = Update s t" using t'(2) by (auto simp: up Update_again)
      have tok: "t_InfoHash t' = ii_InfoHash i" "tor_ok u t'" using bt_inv_torrent [OF inv t'(1)] by auto
      have ti: "t_InfoHash t = ii_InfoHash i" using tok(1) t'(2) by auto
      let ?v = "set_torrent (t_InfoHash t') (Update u t') u"
      have "bt_inv ?v" using inv tok by (intro bt_inv_set_torrent) auto
      then have "refreshed s ?v"
        using Cons.prems t'(1) tok Some t2 by (auto simp: refreshed_def same_clients_def)
      from Cons.IH [OF this] obtain v where "all_status ids ?v =
        (Inr (map (\<lambda>idn. status_of idn (Update s (the (torrent_of s (ii_InfoHash (the (info_of s idn)))))))
          (filter (\<lambda>idn. \<exists>i. info_of s idn = Some i \<and> torrent_of s (ii_InfoHash i) \<noteq> None) ids)), v)" "refreshed s v"
        by blast
      then show ?thesis
        using iu g t'(1) t2 tok(1) ti \<open>info_of s idn = Some i\<close> Some by (simp add: run)
    qed
  qed
qed (simp add: run)

text \<open>\<open>GetAllStatus\<close> reports exactly the registered IDs whose torrent is cached, once each, in the order
  the map is iterated, each with what \<open>GetStatus\<close> says of it; it never fails on a running engine
  and drops the others silently. Nothing but the cached figures changes.\<close>

theorem all_status_complete:
  assumes "bt_inv s" "e_started (engine s)" "distinct order" "set order = dom (info_of s)"
  shows "\<exists>ss u. GetAllStatus order s = (Inr ss, u) \<and> distinct (map st_Id ss) \<and>
    set (map st_Id ss) = {idn. \<exists>i. info_of s idn = Some i \<and> torrent_of s (ii_InfoHash i) \<noteq> None} \<and>
    (\<forall>st \<in> set ss. fst (GetStatus (st_Id st) s) = Inr st) \<and>
    info_of u = info_of s \<and> dom (torrent_of u) = dom (torrent_of s)"
proof -
  let ?P = "\<lambda>idn. \<exists>i. info_of s idn = Some i \<and> torrent_of s (ii_InfoHash i) \<noteq> None"
  let ?st = "\<lambda>idn. status_of idn (Update s (the (torrent_of s (ii_InfoHash (the (info_of s idn))))))"
  have "refreshed s s" using assms(1) by (simp add: refreshed_def same_clients_def)
  from all_status_run [OF this, of order] obtain v where
    v: "all_status order s = (Inr (map ?st (filter ?P order)), v)" and r: "refreshed s v" by blast
  have run: "GetAllStatus order s = (Inr (map ?st (filter ?P order)), v)"
    using v assms(2) by (simp add: GetAllStatus_def when_started_run)
  have ids: "map st_Id (map ?st xs) = xs" for xs by (induction xs) (simp_all add: status_of_def)
  have "torrent_of v ih = None \<longleftrightarrow> torrent_of s ih = None" for ih
    using r unfolding refreshed_def by (metis option.map_disc_iff)
  then have dom: "dom (torrent_of v) = dom (torrent_of s)" by (auto simp: dom_def)
  have "fst (GetStatus (st_Id st) s) = Inr st" if st: "st \<in> set (map ?st (filter ?P order))" for st
  proof -
    obtain idn where idn: "st = ?st idn" "?P idn" using st by auto
    then obtain i t where i: "info_of s idn = Some i" and t: "torrent_of s (ii_InfoHash i) = Some t" by auto
    have "getTorrent (ii_InfoHash i) s = (Inr t, s)"
      using assms(1) bt_inv_get_known [OF assms(1) i] t by (subst getTorrent_known) (auto simp: bt_inv_def)
    moreover have "st_Id st = idn" using idn by (simp add: status_of_def)
    ultimately show ?thesis
      using i t idn(1) assms(2) by (simp add: GetStatus_def when_started_run call_simps)
  qed
  then show ?thesis
    using run ids [of "filter ?P order"] dom r assms(3,4)
    by (intro exI [of _ "map ?st (filter ?P order)"] exI [of _ v] conjI)
      (auto simp: refreshed_def simp del: map_map)
qed

theorem all_status_complete_witness:
  "\<exists>ss u. GetAllStatus [''a''] demo_stopped = (Inr ss, u) \<and> map st_Id ss = [''a'']"
proof -
  have d: "info_of demo_stopped = [''a'' \<mapsto> demo_stopped_info]" by (simp add: demo_stopped_def)
  have s: "set [''a''] = dom (info_of demo_stopped)" by (simp add: d)
  have dis: "distinct [''a'']" by simp
  obtain ss u where u: "GetAllStatus [''a''] demo_stopped = (Inr ss, u)" "distinct (map st_Id ss)"
    "set (map st_Id ss) = {idn. \<exists>i. info_of demo_stopped idn = Some i \<and> torrent_of demo_stopped (ii_InfoHash i) \<noteq> None}"
    using all_status_complete [OF demo_stopped(1,2) dis s] by blast
  have "set (map st_Id ss) = {''a''}"
    unfolding u(3) using demo_stopped(6) by (auto simp: d split: if_splits)
  then have "map st_Id ss = [''a'']" using u(2) by (intro distinct_single)
  with u(1) show ?thesis by (intro exI conjI)
qed

end
