(* ===== verification/Bt_Limits.thy ===== *)
theory Bt_Limits
  imports Bt_Properties Bt_Frames
begin

text \<open>
  The contract of Bt_Frames extended to every operation of the engine, for a property that does not
  speak of files and holds of a new client. Its instance: no client ever has a rate limiter, so
  that the limits of the configuration have no effect.
\<close>

locale client_frame = net_frame I
  for I :: "'z bt_scheme \<Rightarrow> bool" +
  assumes files: "fs.more s = fs.more t \<Longrightarrow> I s = I t"
    and closed: "I s \<Longrightarrow> I (upd_client k (\<lambda>cl. cl\<lparr>cl_closed := True\<rparr>) s)"
    and new_client: "I s \<Longrightarrow> tc_UploadRateLimit tc = 0 \<Longrightarrow> tc_DownloadRateLimit tc = 0 \<Longrightarrow>
      I (s\<lparr>next_client := n, clients := (clients s)(k :=
        \<lparr>cl_config = tc, cl_torrents = [], cl_upload = None, cl_download = None, cl_closed = False\<rparr>)\<rparr>)"
begin

lemma files_keep:
  assumes "\<And>M. keeps (\<lambda>s. fs.more s = M) m"
  shows "keeps I m"
proof (rule keepsI)
  fix s :: "'z bt_scheme" assume s: "I s"
  have "fs.more (snd (m s)) = fs.more s" by (rule keepsD [OF assms]) (rule refl)
  then show "I (snd (m s))" using s files by blast
qed

lemma creating: "keeps I (createTorrent c idn)"
proof -
  have "keeps J (case e_trackers e of [] \<Rightarrow> throwE (Panic ''index out of range'') | a # _ \<Rightarrow> returnE a)"
    for e and J :: "'z bt_scheme \<Rightarrow> bool"
    by (cases "e_trackers e") (simp_all add: keeps_simple)
  then show ?thesis unfolding createTorrent_def Let_def
    by (intro files_keep keeps_bind keeps_wrap keeps_simple BuildFromFilePath_more keep)
qed

lemma seeding: "keeps I (StartSeed c idn)"
proof -
  have 1: "keeps I (tryE (os_Stat tf))" for tf by (intro keeps_try files_keep keep)
  have 2: "keeps I (case st of Inl _ \<Rightarrow> createTorrent c idn | Inr _ \<Rightarrow> returnE ())" for st :: "node result"
    by (cases st) (simp_all add: creating keeps_simple)
  have 3: "keeps I (wrapE ''Load torrent file failed'' (LoadFromFile c tf))" for tf
    unfolding LoadFromFile_def by (intro keeps_wrap files_keep keep)
  show ?thesis unfolding StartSeed_def
    by (intro guard keeps_bind keeps_simple keeps_cases(1) keeps_modify set_simps 1 2 3 registering)
qed

lemma waiting: "(\<And>s. I s \<Longrightarrow> I (env s)) \<Longrightarrow> keeps I (waitComplete env n tt)"
  by (induction n) (auto intro!: keep)

lemma leeching: "(\<And>s. I s \<Longrightarrow> I (env s)) \<Longrightarrow> keeps I (StartLeecher c env n idn d p)"
  unfolding StartLeecher_def
  by (intro guard keeps_bind keeps_simple keeps_cases(1) keeps_modify set_simps keeps_wrap registering waiting)

lemma deleting: "keeps I (DeleteTorrent idn)"
proof -
  have "keeps I (remove_quiet m f)" for m f
    unfolding remove_quiet_def by (intro files_keep keep)
  then show ?thesis unfolding DeleteTorrent_def
    by (intro guard keeps_bind keeps_simple keeps_cases keeps_modify engine keeps_wrap uncaching)
qed

lemma closing: "I s \<Longrightarrow> I (client_Close k s)"
proof -
  have "I u \<Longrightarrow> I (fold (\<lambda>h. upd_handle h close_torrent) hs u)" for u hs
    by (induction hs arbitrary: u) (simp_all add: handle)
  then show "I s \<Longrightarrow> I (client_Close k s)" unfolding client_Close_def by (simp add: closed)
qed

lemma running_engine: "keeps I (Run c)"
proof -
  have 1: "keeps I (seed_file c f)" for f
    unfolding seed_file_def Let_def
    by (intro keeps_bind keeps_simple keeps_cases keeps_try keeps_catch seeding files_keep keep)
  have 2: "keeps I (NewClient (torrent_config e))" for e
  proof -
    have "keeps I (syscall (\<lambda>s. (Inr (), s)) :: ('z bt_scheme, unit) call)"
      by (intro files_keep syscall_frame) auto
    moreover have "I (s\<lparr>next_client := n, clients := (clients s)(k :=
        \<lparr>cl_config = torrent_config e, cl_torrents = [], cl_upload = limiter (tc_UploadRateLimit (torrent_config e)),
         cl_download = limiter (tc_DownloadRateLimit (torrent_config e)), cl_closed = False\<rparr>)\<rparr>)" if "I s" for s n k
      using new_client [OF that, of "torrent_config e"] by (simp add: torrent_config_def limiter_def)
    ultimately show ?thesis unfolding NewClient_def by (intro keeps_bind keeps_simple keeps_modify)
  qed
  have 3: "keeps I (case k of Some k \<Rightarrow> modifyE (client_Close k) | None \<Rightarrow> returnE ())" for k
    by (cases k) (auto intro: keeps_simple keeps_modify closing)
  show ?thesis unfolding Run_def
    by (intro keeps_bind keeps_simple keeps_cases(1) keeps_try 1 2 3 keeps_modify engine keeps_for files_keep keep)
qed

lemma step: "bt_step c s t \<Longrightarrow> I s \<Longrightarrow> I t"
proof (induction rule: bt_step.induct)
  case (goroutine_step g s)
  show ?case by (rule keepsD [OF goroutine]) (use goroutine_step in \<open>simp add: pending\<close>)
next
  case (transfer_step s h left complete pending)
  then show ?case by (simp add: progress_def handle)
qed (auto intro: keepsD [OF running_engine] keepsD [OF seeding] keepsD [OF leeching] keepsD [OF stopping]
    keepsD [OF deleting] keepsD [OF reporting(1)] keepsD [OF reporting(2)] keepsD [OF reporting(3)])

lemma reach: "bt_reach c s t \<Longrightarrow> I s \<Longrightarrow> I t"
  by (induction rule: bt_reach.induct) (auto intro: step)

end

definition no_limits :: "'z bt_scheme \<Rightarrow> bool" where
  "no_limits s \<longleftrightarrow> (\<forall>k. cl_upload (clients s k) = None \<and> cl_download (clients s k) = None)"

interpretation limits: client_frame no_limits
proof
  fix s t :: "'a bt_scheme"
  show "no_limits s = no_limits t" if "fs.more s = fs.more t"
    using more_eqD(3) [OF that] by (simp add: no_limits_def)
qed (auto simp: no_limits_def)

text \<open>The rate limits of the configuration never reach the client: in every state of an engine that
  was made with any configuration and run, setting a positive limit and reading one fail,
  setting another one is accepted without effect.\<close>

theorem rate_limits_dead:
  assumes "codec_laws c" "new_engine s" "no_limits s" "bt_reach c s t" "e_started (engine t)"
  shows "engine_GetUploadRateLimit t = (Inl (Msg ''Upload rate limiter is null''), t) \<and>
    engine_GetDownloadRateLimit t = (Inl (Msg ''Download rate limiter is null''), t) \<and>
    engine_SetUploadRateLimit n t =
      ((if n > 0 then Inl (Msg ''Upload rate limiter is null'') else Inr ()), t) \<and>
    engine_SetDownloadRateLimit n t =
      ((if n > 0 then Inl (Msg ''Download rate limiter is null'') else Inr ()), t)"
proof -
  have "bt_inv t" using bt_reach_inv [OF assms(1,4) new_engine_inv [OF assms(2)]] .
  then obtain k where k: "e_client (engine t) = Some k" using assms(5) by (auto simp: bt_inv_def)
  have "no_limits t" using limits.reach [OF assms(4,3)] .
  then show ?thesis
    using assms(5) k
    by (simp add: no_limits_def engine_GetUploadRateLimit_def engine_GetDownloadRateLimit_def engine_SetUploadRateLimit_def
        engine_SetDownloadRateLimit_def when_started_run engine_client_def run GetUploadRateLimit_def
        GetDownloadRateLimit_def SetUploadRateLimit_def SetDownloadRateLimit_def)
qed

text \<open>An engine over an empty root, run.\<close>

definition demo_empty :: bt where
  "demo_empty = demo_new\<lparr>tree := [([''root''], Dir), ([''root'', ''torrents''], Dir), ([''root'', ''data''], Dir)]\<rparr>"

lemma demo_empty_new: "new_engine demo_empty" "no_limits demo_empty"
  unfolding new_engine_def no_limits_def demo_empty_def demo_new_def by auto

lemma demo_empty_run:
  "\<exists>t. Run demo_torrents demo_empty = (Inr (), t) \<and> e_started (engine t) \<and> e_client (engine t) = Some 1"
proof -
  let ?E = "NewBtEngine ''root'' [''tr''] None"
  have e: "engine demo_empty = ?E" "faults demo_empty = []" "next_client demo_empty = 1"
    by (simp_all add: demo_empty_def demo_new_def)
  have cs: "comps (e_dataDir ?E) = [''root'', ''data'']" "comps (e_torrentDir ?E) = [''root'', ''torrents'']"
    unfolding NewBtEngine_def by code_simp+
  have nodes: "node_at demo_empty [''root''] = Some Dir" "node_at demo_empty [''root'', ''data''] = Some Dir"
    "node_at demo_empty [''root'', ''torrents''] = Some Dir"
    by (simp_all add: demo_empty_def node_at_def)
  have r: "resolve demo_empty [''root'', ''data''] = Inr Dir" "resolve demo_empty [''root'', ''torrents''] = Inr Dir"
    using nodes by (simp_all add: resolve_def)
  have m: "os_MkdirAll (e_dataDir ?E) demo_empty = (Inr (), demo_empty)"
    "os_MkdirAll (e_torrentDir ?E) demo_empty = (Inr (), demo_empty)"
    using r e by (simp_all add: os_MkdirAll_def cs syscall_def run tryE_def bindE_def)
  have p: "e_client ?E = None" "IncomingPort (e_config ?E) = 50007" by (simp_all add: NewBtEngine_def)
  define u where "u = snd (NewClient (torrent_config ?E) demo_empty)"
  have u: "NewClient (torrent_config ?E) demo_empty = (Inr 1, u)" "faults u = []" "tree u = tree demo_empty" "engine u = ?E"
    using e by (simp_all add: u_def NewClient_def run syscall_def)
  let ?v = "upd_engine (\<lambda>e. e\<lparr>e_client := Some 1, e_started := True\<rparr>) u"
  have v: "faults ?v = []" "tree ?v = tree demo_empty" using u by (simp_all add: upd_engine_def)
  have "node_at ?v = node_at demo_empty" using v by (intro node_at_cong)
  then have "resolve ?v [''root'', ''data''] = Inr Dir" using r by (simp add: resolve_def)
  moreover have "children ?v [''root'', ''data''] = []" using v by (simp add: children_def demo_empty_def)
  ultimately have "ioutil_ReadDir (e_dataDir ?E) ?v = (Inr [], ?v)"
    using v by (simp add: ioutil_ReadDir_def cs syscall_def)
  then have "Run demo_torrents demo_empty = (Inr (), ?v)"
    using m e p u by (simp add: Run_def run mkdir_failed_def)
  then show ?thesis by (simp add: upd_engine_def)
qed

theorem rate_limits_dead_witness:
  "engine_SetUploadRateLimit 100 (snd (Run demo_torrents demo_empty)) =
     (Inl (Msg ''Upload rate limiter is null''), snd (Run demo_torrents demo_empty))"
proof -
  have "e_started (engine (snd (Run demo_torrents demo_empty)))" using demo_empty_run by auto
  from rate_limits_dead [OF demo_torrents_laws demo_empty_new reach_step [OF reach_init run_step] this, of 100]
  show ?thesis by simp
qed

end
