(* ===== verification/Oci_Frames.thy ===== *)
theory Oci_Frames
  imports Oci_Layout
begin

text \<open>
  What opening an image does not make: \<open>none_at A\<close> says that nothing is at the paths of \<open>A\<close>.
  With \<open>initialize_preserved\<close> it follows that opening neither adds, changes nor removes a blob or
  a reference of the image, whatever fails.
\<close>

definition none_at :: "string list set \<Rightarrow> 'z fs_scheme \<Rightarrow> bool" where
  "none_at A s \<longleftrightarrow> wf_fs s \<and> (\<forall>k\<in>A. node_at s k = None)"

lemma none_at_look [keep]: "keeps (none_at A) (syscall (\<lambda>s. (f s, s)))"
  by (rule triple_syscall) (auto simp: none_at_def)

lemma none_at_stat [keep]: "keeps (none_at A) (os_Stat p)"
  unfolding os_Stat_def by (rule none_at_look)

lemma none_at_view: "none_at A s \<longleftrightarrow> wf_fs s \<and> (\<forall>k\<in>A. view s k = None)"
  by (simp add: none_at_def)

lemma none_at_k_mkdir: "ps \<notin> A \<Longrightarrow> keeps (none_at A) (syscall (k_mkdir ps))"
proof (rule triple_syscall)
  fix s :: "'a fs_scheme" and u t
  assume "ps \<notin> A" "none_at A s" "k_mkdir ps s = (Inr u, t)"
  then show "none_at A t" using k_mkdir_Inr(1,2) [of s ps u t] by (auto simp: none_at_view)
next
  fix s :: "'a fs_scheme" and e t
  assume "none_at A s" "k_mkdir ps s = (Inl e, t)"
  then show "none_at A t" by (auto dest: k_mkdir_Inl)
qed (auto simp: none_at_def)

lemma none_at_mkdir: "comps p \<notin> A \<Longrightarrow> keeps (none_at A) (os_Mkdir p)"
  unfolding os_Mkdir_def by (rule none_at_k_mkdir)

lemma none_at_create: "comps p \<notin> A \<Longrightarrow> keeps (none_at A) (os_Create p)"
  unfolding os_Create_def
proof (rule triple_syscall)
  fix s :: "'a fs_scheme" and u t
  assume A: "comps p \<notin> A" and s: "none_at A s" and k: "k_create (comps p) s = (Inr u, t)"
  have wf: "wf_fs s" using s by (simp add: none_at_def)
  from k obtain r where r: "resolve_new s (comps p) = Inr r" by (auto simp: k_create_def split: sum.splits)
  show "none_at A t"
  proof (cases r)
    case None
    have n: "node_at s (comps p) = None" "node_at s (butlast (comps p)) = Some Dir"
      using resolve_new_InrD [OF wf r] None by auto
    have "new_file (comps p) s = (Inr u, t)" using k r None by (simp add: k_create_def)
    from new_file_props(2,3) [OF wf n this] show ?thesis using s A by (auto simp: none_at_view)
  next
    case (Some n)
    then show ?thesis using k r s by (cases n) (auto simp: k_create_def none_at_def)
  qed
next
  fix s :: "'a fs_scheme" and e t
  assume "none_at A s" "k_create (comps p) s = (Inl e, t)"
  then show "none_at A t"
    by (auto simp: k_create_def new_file_def split: sum.splits option.splits node.splits)
qed (auto simp: none_at_def)

lemma none_at_write [keep]: "keeps (none_at A) (file_Write i bs)"
proof (rule tripleI)
  fix s :: "'a fs_scheme" assume "none_at A s"
  moreover have "none_at A (append_to i d u)" if "none_at A u" for d and u :: "'a fs_scheme"
    using that by (simp add: none_at_def append_to_def)
  moreover have "none_at A (s\<lparr>faults := fl\<rparr>) = none_at A s" for fl by (simp add: none_at_def)
  ultimately show "case file_Write i bs s of (Inl e, t) \<Rightarrow> none_at A t | (Inr x, t) \<Rightarrow> none_at A t"
    by (auto simp: file_Write_def split: list.splits option.splits)
qed

lemma none_at_mkdirAll:
  "(\<And>k. k \<in> A \<Longrightarrow> length cs < length k) \<Longrightarrow> keeps (none_at A :: 'z fs_scheme \<Rightarrow> bool) (mkdirAll cs)"
proof (induction cs)
  case (Cons c cs)
  have "keeps (none_at A :: 'z fs_scheme \<Rightarrow> bool) (mkdirAll cs)" by (intro Cons.IH) (use Cons.prems in fastforce)
  moreover have "rev (c # cs) \<notin> A" using Cons.prems [of "rev (c # cs)"] by auto
  ultimately show ?case
    by (auto intro!: keep none_at_k_mkdir split: node.splits)
qed (simp add: keeps_simple)

text \<open>The directory of a clean path is no longer than the path.\<close>

lemma clean_elems_length:
  "length (clean_elems r st cs) \<le> length st + length (filter (\<lambda>c. c \<noteq> [] \<and> c \<noteq> ''.'') cs)"
proof (induction cs arbitrary: st)
  case (Cons c cs)
  show ?case
  proof (cases "c = ''..''")
    case True
    define st' where "st' = (case st of [] \<Rightarrow> if r then [] else [''..''] | t # ts \<Rightarrow> if t = ''..'' then ''..'' # st else ts)"
    have "length st' \<le> Suc (length st)" by (simp add: st'_def split: list.split)
    moreover have "clean_elems r st (c # cs) = clean_elems r st' cs"
      using True by (simp add: st'_def split: list.split)
    ultimately show ?thesis using Cons [of st'] True by simp
  next
    case False
    then show ?thesis using Cons [of st] Cons [of "c # st"] by simp
  qed
qed simp

lemma length_comps_Dir: "length (comps (filepath_Dir p)) \<le> length (comps p)"
proof -
  define x where "x = rev (takeWhile (\<lambda>c. c \<noteq> slash) (rev p))"
  define q where "q = rev (dropWhile (\<lambda>c. c \<noteq> slash) (rev p))"
  have p: "p = q @ x" unfolding q_def x_def by (metis rev_append rev_rev_ident takeWhile_dropWhile_id)
  have D: "filepath_Dir p = Clean q" by (simp add: filepath_Dir_def q_def)
  show ?thesis
  proof (cases "q = []")
    case True
    then show ?thesis by (simp add: D Clean_def comps_def rooted_def)
  next
    case False
    then have "hd (dropWhile (\<lambda>c. c \<noteq> slash) (rev p)) = slash"
      using hd_dropWhile [of "\<lambda>c. c \<noteq> slash" "rev p"] by (simp add: q_def)
    then have "last q = slash" by (simp add: q_def last_rev)
    then obtain y where y: "q = y @ [slash]" using False append_butlast_last_id [OF False] by metis
    have r: "rooted q = rooted p" using False by (simp add: p)
    have "comps (Clean q) = (if rooted q then [[]] else []) @ clean_elems (rooted q) [] (split_on slash q)"
      using False by (rule comps_Clean)
    moreover have "length (clean_elems (rooted q) [] (split_on slash q))
        \<le> length (filter (\<lambda>c. c \<noteq> [] \<and> c \<noteq> ''.'') (split_on slash q))"
      using clean_elems_length [of "rooted q" "[]"] by simp
    moreover have "length (filter (\<lambda>c. c \<noteq> [] \<and> c \<noteq> ''.'') (split_on slash q))
        \<le> length (filter (\<lambda>c. c \<noteq> [] \<and> c \<noteq> ''.'') (split_on slash p))"
      by (simp add: p y split_on_append_sep)
    ultimately show ?thesis by (simp add: D comps_def [of p] r)
  qed
qed

section \<open>The keys of an image\<close>

definition image_keys :: "string \<Rightarrow> string list set" where
  "image_keys p =
     {k. (\<exists>h. k = comps p @ [blobDirectory, BlobAlgorithm, h]) \<or> (\<exists>n. k = comps p @ [refDirectory, n])}"

lemma image_keys_simps [simp]:
  "comps p @ [x] \<notin> image_keys p" "comps p @ [blobDirectory, BlobAlgorithm] \<notin> image_keys p"
  "l_path e = p \<Longrightarrow> blob_key e h \<in> image_keys p" "l_path e = p \<Longrightarrow> ref_key e n \<in> image_keys p"
  by (auto simp: image_keys_def blob_key_def ref_key_def blobDirectory_def refDirectory_def)

text \<open>What was at the keys is still there, and nothing else; the image is whole.\<close>

definition keys_kept :: "string \<Rightarrow> (string list \<Rightarrow> bytes option option) \<Rightarrow> 'z fs_scheme \<Rightarrow> bool" where
  "keys_kept p V s \<longleftrightarrow> wf_fs s \<and> whole_image (view s) p \<and> (\<forall>k\<in>image_keys p. view s k = V k)"

lemma initialize_none_at:
  assumes p: "image_paths (l_path e)" and A: "A \<subseteq> image_keys (l_path e)"
  shows "keeps (none_at A) (initialize e)"
proof -
  let ?p = "l_path e"
  have len: "length (comps ?p) < length k" if "k \<in> A" for k
    using that A by (auto simp: image_keys_def)
  have dir: "keeps (none_at A) (os_MkdirAll (filepath_Dir ?p))"
    unfolding os_MkdirAll_def
    by (rule none_at_mkdirAll) (use len length_comps_Dir [of ?p] in fastforce)
  have "comps ?p \<notin> A" using len by blast
  moreover have "comps ?p @ [x] \<notin> A" "comps ?p @ [blobDirectory, BlobAlgorithm] \<notin> A" for x
    using A image_keys_simps(1,2) by blast+
  ultimately show ?thesis
    unfolding initialize_def Let_def
    by (intro keep dir none_at_mkdir none_at_create) (simp_all add: image_join p)
qed

definition whole_at :: "string \<Rightarrow> 'z fs_scheme \<Rightarrow> bool" where
  "whole_at p s \<longleftrightarrow> wf_fs s \<and> whole_image (view s) p"

lemma none_whole: "none_at {comps p @ [layoutFile]} s \<Longrightarrow> whole_at p s"
  by (simp add: none_at_def whole_at_def whole_image_def)

lemma preserved_whole: "preserved V s \<Longrightarrow> V (comps p @ [blobDirectory]) \<noteq> None \<Longrightarrow> whole_at p s"
  unfolding preserved_def whole_at_def whole_image_def by metis

text \<open>The layout file is made after the directory of the blobs.\<close>

lemma make_whole:
  assumes p: "image_paths p"
  shows "triple (none_at {comps p @ [layoutFile]} :: 'z fs_scheme \<Rightarrow> bool)
     (thenE (os_Mkdir (Join [p, blobDirectory]))
       (thenE (os_Mkdir (Join [p, blobDirectory, BlobAlgorithm]))
       (thenE (os_Mkdir (Join [p, refDirectory]))
       (bindE (os_Create (Join [p, layoutFile])) (\<lambda>fh. file_Write fh layout_json)))))
     (\<lambda>_. whole_at p) (\<lambda>_. whole_at p)"
proof -
  let ?lf = "comps p @ [layoutFile]" and ?bl = "comps p @ [blobDirectory]"
  let ?M = "\<lambda>s :: 'z fs_scheme. none_at {?lf} s \<and> node_at s ?bl = Some Dir"
  have first: "triple (none_at {?lf}) (os_Mkdir (Join [p, blobDirectory])) (\<lambda>_. ?M) (\<lambda>_. whole_at p)"
  proof (rule tripleI)
    fix s :: "'z fs_scheme" assume s: "none_at {?lf} s"
    then have st: "fs_st False (view s) s" by (simp add: none_at_def fs_st_def)
    have keep: "keeps (none_at {?lf} :: 'z fs_scheme \<Rightarrow> bool) (os_Mkdir (Join [p, blobDirectory]))"
      by (rule none_at_mkdir) (simp add: image_join p)
    show "case os_Mkdir (Join [p, blobDirectory]) s of (Inl e, t) \<Rightarrow> whole_at p t | (Inr x, t) \<Rightarrow> ?M t"
    proof (cases "os_Mkdir (Join [p, blobDirectory]) s")
      case (Pair r t)
      have "none_at {?lf} t" using keepsD [OF keep s] Pair by simp
      moreover have "node_at t ?bl = Some Dir" if "r = Inr u" for u
      proof -
        have "fs_st False ((view s)(?bl \<mapsto> None)) t"
          using tripleD_Inr [OF os_Mkdir_triple [where p = "Join [p, blobDirectory]"] st] Pair that
          by (simp add: image_join p)
        then show ?thesis using fs_st_dir by fastforce
      qed
      ultimately show ?thesis using Pair by (cases r) (auto intro: none_whole)
    qed
  qed
  have rest: "triple ?M (thenE (os_Mkdir (Join [p, blobDirectory, BlobAlgorithm]))
       (thenE (os_Mkdir (Join [p, refDirectory]))
       (bindE (os_Create (Join [p, layoutFile])) (\<lambda>fh. file_Write fh layout_json))))
     (\<lambda>_. whole_at p) (\<lambda>_. whole_at p)"
  proof (rule keepsI2)
    fix s :: "'z fs_scheme" assume s: "?M s"
    let ?V = "view s" and ?m = "thenE (os_Mkdir (Join [p, blobDirectory, BlobAlgorithm]))
       (thenE (os_Mkdir (Join [p, refDirectory]))
       (bindE (os_Create (Join [p, layoutFile])) (\<lambda>fh. file_Write fh layout_json)))"
    have D: "dirs_ext ?V s" using s by (simp add: dirs_ext_def none_at_def)
    have lf: "?V (comps (Join [p, layoutFile])) = None" using s by (simp add: image_join p none_at_def)
    have k: "triple (dirs_ext ?V) (os_Mkdir q) (\<lambda>_. dirs_ext ?V) (\<lambda>_. preserved ?V)" for q
      by (rule triple_weaken [OF os_dirs_ext(1)]) (auto intro: dirs_ext_preserved)
    have tr: "triple (dirs_ext ?V) ?m (\<lambda>_. preserved ?V) (\<lambda>_. preserved ?V)"
      by (rule triple_then [OF k triple_then [OF k create_layout_preserved [where V = ?V, OF lf]]])
    have "whole_at p t" if "preserved ?V t" for t :: "'z fs_scheme"
      by (rule preserved_whole [OF that]) (use s in simp)
    then show "whole_at p (snd (?m s))" using triple_snd [OF tr D] .
  qed
  show ?thesis by (rule triple_then [OF first rest])
qed

lemma initialize_whole:
  assumes p: "image_paths (l_path e)"
  shows "keeps (whole_at (l_path e) :: 'z fs_scheme \<Rightarrow> bool) (initialize e)"
proof (rule keepsI)
  fix s :: "'z fs_scheme" assume s: "whole_at (l_path e) s"
  let ?p = "l_path e" and ?lf = "comps (l_path e) @ [layoutFile]"
  have D: "dirs_ext (view s) s" using s by (simp add: dirs_ext_def whole_at_def)
  have W: "whole_image (view s) ?p" using s by (simp add: whole_at_def)
  show "whole_at ?p (snd (initialize e s))"
  proof (cases "node_at s ?lf = None")
    case False
    then have "view s (comps ?p @ [blobDirectory]) \<noteq> None" using W by (simp add: whole_image_def)
    then show ?thesis by (rule preserved_whole [OF triple_snd [OF initialize_preserved [OF p W] D]])
  next
    case True
    let ?N = "none_at {?lf} :: 'z fs_scheme \<Rightarrow> bool"
    have N: "?N s" using True s by (simp add: none_at_def whole_at_def)
    have head: "triple ?N m (\<lambda>_. ?N) (\<lambda>_. whole_at ?p)" if "keeps ?N m" for m :: "('z fs_scheme, unit) call"
      by (rule triple_weaken [OF that]) (auto intro: none_whole)
    have "keeps ?N (os_MkdirAll (filepath_Dir ?p))"
      unfolding os_MkdirAll_def
      by (rule none_at_mkdirAll) (use length_comps_Dir [of ?p] in auto)
    then have 1: "keeps ?N (whenE b (unless_exists (os_MkdirAll (filepath_Dir ?p))))" for b by (intro keep)
    have 2: "keeps ?N (unless_exists (os_Mkdir ?p))" by (intro keep none_at_mkdir) simp
    have 3: "triple ?N (tryE (os_Stat (Join [?p, layoutFile]))) (\<lambda>_. ?N) (\<lambda>_. whole_at ?p)"
      by (rule triple_weaken [where P = ?N and Q = "\<lambda>_. ?N" and R = "\<lambda>_. ?N"], intro keep) (auto intro: none_whole)
    have "triple ?N (initialize e) (\<lambda>_. whole_at ?p) (\<lambda>_. whole_at ?p)"
      unfolding initialize_def Let_def
      by (rule triple_then [OF head [OF 1] triple_then [OF head [OF 2] triple_bind [OF 3]]])
        (auto intro!: triple_return make_whole [OF p] split: sum.splits dest: none_whole)
    then show ?thesis using N by (rule triple_snd)
  qed
qed

text \<open>Opening an image: the keys of the image are as they were, and it is whole.\<close>

lemma initialize_keys:
  assumes p: "image_paths (l_path e)"
  shows "keeps (keys_kept (l_path e) V :: 'z fs_scheme \<Rightarrow> bool) (initialize e)"
proof (rule keepsI)
  fix s :: "'z fs_scheme" assume s: "keys_kept (l_path e) V s"
  let ?p = "l_path e" and ?A = "{k \<in> image_keys (l_path e). view s k = None}"
  have D: "dirs_ext (view s) s" and W: "whole_image (view s) ?p" and w: "whole_at ?p s" and N: "none_at ?A s"
    using s by (auto simp: dirs_ext_def keys_kept_def whole_at_def none_at_def)
  have n: "keeps (none_at ?A :: 'z fs_scheme \<Rightarrow> bool) (initialize e)" by (rule initialize_none_at [OF p]) auto
  have "keys_kept ?p V t" if "preserved (view s) t" "whole_at ?p t" "none_at ?A t" for t :: "'z fs_scheme"
  proof -
    have "view t k = view s k" if k: "k \<in> image_keys ?p" for k
    proof (cases "view s k = None")
      case True
      then have "view t k = None" using \<open>none_at ?A t\<close> k by (simp add: none_at_def)
      with True show ?thesis by metis
    qed (use \<open>preserved (view s) t\<close> in \<open>auto simp: preserved_def\<close>)
    then show ?thesis using s that by (simp add: keys_kept_def whole_at_def)
  qed
  then show "keys_kept ?p V (snd (initialize e s))"
    using triple_snd [OF initialize_preserved [OF p W] D] keepsD [OF initialize_whole [OF p] w] keepsD [OF n N]
    by blast
qed

lemma newDirLayout_keys:
  assumes p: "image_paths p"
  shows "triple (keys_kept p V :: 'z fs_scheme \<Rightarrow> bool) (newDirLayout p)
     (\<lambda>e s. l_path e = p \<and> layout_ok e \<and> keys_kept p V s) (\<lambda>_. keys_kept p V)"
proof -
  have ini: "keeps (keys_kept p V :: 'z fs_scheme \<Rightarrow> bool) (initialize \<lparr>l_path = p, l_temp = []\<rparr>)"
    using initialize_keys [of "\<lparr>l_path = p, l_temp = []\<rparr>" V] p by simp
  have tmp: "triple (keys_kept p V :: 'z fs_scheme \<Rightarrow> bool) (ioutil_TempDir p ''tmp-'')
      (\<lambda>nm s. (\<exists>sfx. comps nm = comps p @ [''tmp-'' @ sfx]) \<and> Clean nm = nm \<and> keys_kept p V s)
      (\<lambda>_. keys_kept p V)"
  proof (rule tripleI)
    fix s :: "'z fs_scheme" assume s: "keys_kept p V s"
    have st: "fs_st False (view s) s" using s by (simp add: fs_st_def keys_kept_def)
    have "temp_prefix ''tmp-''" "p \<noteq> []" "Clean p = p" using p by (auto simp: temp_prefix_def image_paths_def)
    note tr = ioutil_TempDir_triple [OF this(1,2), where c = False and V = "view s", simplified, unfolded \<open>Clean p = p\<close>]
    have new: "keys_kept p V t"
      if "comps nm = comps p @ [''tmp-'' @ sfx]" "fs_st False ((view s)(comps nm \<mapsto> None)) t" for t :: "'z fs_scheme" and nm sfx
    proof -
      have "comps nm \<notin> image_keys p" using that(1) by simp
      then show ?thesis using s that
        by (auto simp: keys_kept_def fs_st_def whole_image_def layoutFile_def blobDirectory_def)
    qed
    have same: "keys_kept p V t" if "fs_st False (view s) t" for t :: "'z fs_scheme"
      using s that by (auto simp: keys_kept_def fs_st_def)
    show "case ioutil_TempDir p ''tmp-'' s of (Inl e, t) \<Rightarrow> keys_kept p V t
        | (Inr nm, t) \<Rightarrow> (\<exists>sfx. comps nm = comps p @ [''tmp-'' @ sfx]) \<and> Clean nm = nm \<and> keys_kept p V t"
      using tripleD_Inr [OF tr st] tripleD_Inl [OF tr st] by (fastforce split: prod.splits sum.splits intro: new same)
  qed
  show ?thesis
    unfolding newDirLayout_def Let_def dirLayout.select_convs
    by (intro triple_then [OF ini] triple_bind [OF tmp] triple_return)
      (use p in \<open>auto simp: layout_ok_def image_paths_def\<close>)
qed

end
