(* ===== verification/Regexp.thy ===== *)
theory Regexp
  imports Go_Lib
begin

text \<open>
  What the vendored docker/distribution uses of Go's regexp package: expressions over classes of
  bytes, the language of an expression, and a matcher with derivatives that decides it. An
  expression anchored at both ends matches a string when the string is in its language.
\<close>

section \<open>Expressions and their languages\<close>

datatype rexp = Never | Empty | Class "char \<Rightarrow> bool" | Seq rexp rexp | Or rexp rexp | Many rexp

inductive accepts :: "rexp \<Rightarrow> string \<Rightarrow> bool" where
  Empty: "accepts Empty []"
| Class: "P c \<Longrightarrow> accepts (Class P) [c]"
| Seq: "accepts r u \<Longrightarrow> accepts q v \<Longrightarrow> accepts (Seq r q) (u @ v)"
| Or1: "accepts r u \<Longrightarrow> accepts (Or r q) u"
| Or2: "accepts q u \<Longrightarrow> accepts (Or r q) u"
| Stop: "accepts (Many r) []"
| More: "accepts r u \<Longrightarrow> accepts (Many r) v \<Longrightarrow> accepts (Many r) (u @ v)"

inductive_simps accepts_simps [simp]:
  "accepts Never s" "accepts Empty s" "accepts (Class P) s" "accepts (Or r q) s"

inductive_simps accepts_Seq: "accepts (Seq r q) s"

inductive_cases accepts_ManyE: "accepts (Many r) s"

text \<open>A repetition is a sequence of matches, none of which need be empty.\<close>

lemma accepts_Many: "accepts (Many r) s \<longleftrightarrow> (\<exists>us. s = concat us \<and> (\<forall>u \<in> set us. accepts r u \<and> u \<noteq> []))"
proof
  assume "accepts (Many r) s"
  then show "\<exists>us. s = concat us \<and> (\<forall>u \<in> set us. accepts r u \<and> u \<noteq> [])"
  proof (induction "Many r" s rule: accepts.induct)
    case Stop
    show ?case by (intro exI [of _ "[]"]) simp
  next
    case (More u v)
    then obtain us where us: "v = concat us" "\<forall>u \<in> set us. accepts r u \<and> u \<noteq> []" by blast
    show ?case
    proof (cases "u = []")
      case True
      then show ?thesis using us by auto
    next
      case False
      then show ?thesis using us More by (intro exI [of _ "u # us"]) simp
    qed
  qed
next
  assume "\<exists>us. s = concat us \<and> (\<forall>u \<in> set us. accepts r u \<and> u \<noteq> [])"
  then obtain us where "s = concat us" "\<forall>u \<in> set us. accepts r u \<and> u \<noteq> []" by blast
  then show "accepts (Many r) s"
    by (induction us arbitrary: s) (auto intro: accepts.intros)
qed

text \<open>The bytes that can occur in a match.\<close>

primrec may :: "rexp \<Rightarrow> char \<Rightarrow> bool" where
  "may Never c = False"
| "may Empty c = False"
| "may (Class P) c = P c"
| "may (Seq r q) c = (may r c \<or> may q c)"
| "may (Or r q) c = (may r c \<or> may q c)"
| "may (Many r) c = may r c"

lemma accepts_may: "accepts r s \<Longrightarrow> c \<in> set s \<Longrightarrow> may r c"
  by (induction rule: accepts.induct) auto

section \<open>The matcher\<close>

primrec nullable :: "rexp \<Rightarrow> bool" where
  "nullable Never = False"
| "nullable Empty = True"
| "nullable (Class P) = False"
| "nullable (Seq r q) = (nullable r \<and> nullable q)"
| "nullable (Or r q) = (nullable r \<or> nullable q)"
| "nullable (Many r) = True"

fun seq :: "rexp \<Rightarrow> rexp \<Rightarrow> rexp" where
  "seq Never q = Never"
| "seq Empty q = q"
| "seq r q = Seq r q"

fun alt :: "rexp \<Rightarrow> rexp \<Rightarrow> rexp" where
  "alt Never q = q"
| "alt r Never = r"
| "alt r q = Or r q"

primrec deriv :: "char \<Rightarrow> rexp \<Rightarrow> rexp" where
  "deriv c Never = Never"
| "deriv c Empty = Never"
| "deriv c (Class P) = (if P c then Empty else Never)"
| "deriv c (Seq r q) =
     (if nullable r then alt (seq (deriv c r) q) (deriv c q) else seq (deriv c r) q)"
| "deriv c (Or r q) = alt (deriv c r) (deriv c q)"
| "deriv c (Many r) = seq (deriv c r) (Many r)"

definition matches :: "rexp \<Rightarrow> string \<Rightarrow> bool" where
  "matches r s = nullable (fold deriv s r)"

lemma nullable_iff: "nullable r \<longleftrightarrow> accepts r []"
  by (induction r) (auto simp: accepts_Seq intro: accepts.Stop)

text \<open>The bytes a match can start with.\<close>

primrec first :: "rexp \<Rightarrow> char \<Rightarrow> bool" where
  "first Never c = False"
| "first Empty c = False"
| "first (Class P) c = P c"
| "first (Seq r q) c = (first r c \<or> nullable r \<and> first q c)"
| "first (Or r q) c = (first r c \<or> first q c)"
| "first (Many r) c = first r c"

lemma accepts_first: "accepts r s \<Longrightarrow> s = c # t \<Longrightarrow> first r c"
  by (induction arbitrary: t rule: accepts.induct) (auto simp: Cons_eq_append_conv nullable_iff append_eq_Cons_conv)

lemma accepts_seq [simp]: "accepts (seq r q) s \<longleftrightarrow> accepts (Seq r q) s"
  by (cases r) (auto simp: accepts_Seq)

lemma accepts_alt [simp]: "accepts (alt r q) s \<longleftrightarrow> accepts r s \<or> accepts q s"
  by (cases r; cases q) auto

lemma accepts_deriv: "accepts (deriv c r) s \<longleftrightarrow> accepts r (c # s)"
proof (induction r arbitrary: s)
  case (Seq r q)
  then show ?case by (auto simp: nullable_iff accepts_Seq Cons_eq_append_conv)
next
  case (Many r)
  show ?case
  proof
    assume "accepts (deriv c (Many r)) s"
    then obtain u v where "s = u @ v" "accepts r (c # u)" "accepts (Many r) v"
      using Many by (auto simp: accepts_Seq)
    then show "accepts (Many r) (c # s)" using accepts.More [of r "c # u" v] by simp
  next
    assume "accepts (Many r) (c # s)"
    then obtain us where us: "c # s = concat us" "\<forall>u \<in> set us. accepts r u \<and> u \<noteq> []"
      unfolding accepts_Many by blast
    then obtain u vs where vs: "us = (c # u) # vs" "s = u @ concat vs"
      by (cases us; cases "hd us") auto
    then have "accepts (Many r) (concat vs)" using us(2) unfolding accepts_Many by auto
    then show "accepts (deriv c (Many r)) s" using us(2) vs Many by (auto simp: accepts_Seq)
  qed
qed auto

lemma matches_iff: "matches r s \<longleftrightarrow> accepts r s"
  unfolding matches_def by (induction s arbitrary: r) (simp_all add: nullable_iff accepts_deriv)

section \<open>The builders of docker/distribution/reference/regexp.go\<close>

definition literal :: "string \<Rightarrow> rexp" where
  "literal s = foldr (\<lambda>c r. Seq (Class (\<lambda>x. x = c)) r) s Empty"

definition expression :: "rexp list \<Rightarrow> rexp" where
  "expression res = foldr Seq res Empty"

definition optional :: "rexp list \<Rightarrow> rexp" where
  "optional res = Or (expression res) Empty"

definition repeated :: "rexp list \<Rightarrow> rexp" where
  "repeated res = Seq (expression res) (Many (expression res))"

text \<open>\<open>r{0,n}\<close> and \<open>r{n,}\<close>\<close>

primrec up_to :: "nat \<Rightarrow> rexp \<Rightarrow> rexp" where
  "up_to 0 r = Empty"
| "up_to (Suc n) r = Or (Seq r (up_to n r)) Empty"

primrec at_least :: "nat \<Rightarrow> rexp \<Rightarrow> rexp" where
  "at_least 0 r = Many r"
| "at_least (Suc n) r = Seq r (at_least n r)"

lemma accepts_literal [simp]: "accepts (literal s) u \<longleftrightarrow> u = s"
  by (induction s arbitrary: u) (auto simp: literal_def accepts_Seq)

lemma accepts_expression [simp]:
  "accepts (expression []) s \<longleftrightarrow> s = []"
  "accepts (expression (r # rs)) s \<longleftrightarrow> (\<exists>u v. s = u @ v \<and> accepts r u \<and> accepts (expression rs) v)"
  by (simp_all add: expression_def accepts_Seq)

lemma accepts_optional [simp]: "accepts (optional rs) s \<longleftrightarrow> s = [] \<or> accepts (expression rs) s"
  by (auto simp: optional_def)

lemma accepts_repeated:
  "accepts (repeated rs) s \<longleftrightarrow> (\<exists>us. s = concat us \<and> us \<noteq> [] \<and> (\<forall>u \<in> set us. accepts (expression rs) u))"
proof
  assume "accepts (repeated rs) s"
  then obtain u v vs where "s = u @ v" "accepts (expression rs) u" "v = concat vs"
      "\<forall>u \<in> set vs. accepts (expression rs) u"
    by (auto simp: repeated_def accepts_Seq accepts_Many)
  then show "\<exists>us. s = concat us \<and> us \<noteq> [] \<and> (\<forall>u \<in> set us. accepts (expression rs) u)"
    by (intro exI [of _ "u # vs"]) simp
next
  assume "\<exists>us. s = concat us \<and> us \<noteq> [] \<and> (\<forall>u \<in> set us. accepts (expression rs) u)"
  then obtain u vs where s: "s = concat (u # vs)" "\<forall>u \<in> set (u # vs). accepts (expression rs) u"
    by (metis list.exhaust)
  then have "accepts (Many (expression rs)) (concat vs)"
    by (induction vs arbitrary: s u) (auto intro: accepts.intros)
  with s show "accepts (repeated rs) s" by (auto simp: repeated_def accepts_Seq)
qed

lemma accepts_Seq_class [simp]:
  "accepts (Seq (Class P) q) s \<longleftrightarrow> (\<exists>c t. s = c # t \<and> P c \<and> accepts q t)"
  by (auto simp: accepts_Seq) (metis append_Cons append_Nil)

lemma accepts_up_to:
  "accepts (up_to n (Class P)) s \<longleftrightarrow> length s \<le> n \<and> (\<forall>c \<in> set s. P c)"
proof (induction n arbitrary: s)
  case (Suc n)
  then show ?case by (cases s) auto
qed auto

lemma accepts_many_class: "accepts (Many (Class P)) s \<longleftrightarrow> (\<forall>c \<in> set s. P c)"
proof -
  have "accepts (Many (Class P)) s" if "\<forall>c \<in> set s. P c"
    using that
  proof (induction s)
    case (Cons c s)
    then show ?case using accepts.More [of "Class P" "[c]" s] by simp
  qed (simp add: accepts.Stop)
  then show ?thesis using accepts_may [of "Many (Class P)" s] by auto
qed

lemma accepts_at_least:
  "accepts (at_least n (Class P)) s \<longleftrightarrow> n \<le> length s \<and> (\<forall>c \<in> set s. P c)"
proof (induction n arbitrary: s)
  case 0
  show ?case by (simp add: accepts_many_class)
next
  case (Suc n)
  then show ?case by (cases s) auto
qed

lemma may_builders [simp]:
  "may (literal s) c \<longleftrightarrow> c \<in> set s"
  "may (expression rs) c \<longleftrightarrow> (\<exists>r \<in> set rs. may r c)"
  "may (optional rs) c \<longleftrightarrow> (\<exists>r \<in> set rs. may r c)"
  "may (repeated rs) c \<longleftrightarrow> (\<exists>r \<in> set rs. may r c)"
  "may (up_to n r) c \<longleftrightarrow> n > 0 \<and> may r c"
  "may (at_least n r) c \<longleftrightarrow> may r c"
proof -
  show e: "may (expression rs) c \<longleftrightarrow> (\<exists>r \<in> set rs. may r c)" for rs
    by (induction rs) (auto simp: expression_def)
  show "may (literal s) c \<longleftrightarrow> c \<in> set s" by (induction s) (auto simp: literal_def)
  show "may (optional rs) c \<longleftrightarrow> (\<exists>r \<in> set rs. may r c)" by (auto simp: optional_def e)
  show "may (repeated rs) c \<longleftrightarrow> (\<exists>r \<in> set rs. may r c)" by (auto simp: repeated_def e)
  show "may (up_to n r) c \<longleftrightarrow> n > 0 \<and> may r c" by (induction n) auto
  show "may (at_least n r) c \<longleftrightarrow> may r c" by (induction n) auto
qed

end
