(* ===== verification/References.thy ===== *)
theory References
  imports Regexp
begin

text \<open>
  The names of images: the grammar of the vendored docker/distribution (reference/regexp.go and
  reference/reference.go, digest/digest.go) and the normalised names of the vendored
  containers/image (docker/reference/reference.go) on top of it. Texts that an error message
  quotes with \<open>%q\<close> are left out of the message.
\<close>

definition bindR :: "'a result \<Rightarrow> ('a \<Rightarrow> 'b result) \<Rightarrow> 'b result" where
  "bindR r f = (case r of Inl e \<Rightarrow> Inl e | Inr x \<Rightarrow> f x)"

lemma bindR_simps [simp]: "bindR (Inl e) f = Inl e" "bindR (Inr x) f = f x"
  by (simp_all add: bindR_def)

lemma bindR_Inr: "bindR r f = Inr y \<longleftrightarrow> (\<exists>x. r = Inr x \<and> f x = Inr y)"
  by (cases r) auto

section \<open>The grammar\<close>

definition a_z :: "char \<Rightarrow> bool" where "a_z c \<longleftrightarrow> CHR ''a'' \<le> c \<and> c \<le> CHR ''z''"
definition A_Z :: "char \<Rightarrow> bool" where "A_Z c \<longleftrightarrow> CHR ''A'' \<le> c \<and> c \<le> CHR ''Z''"
definition zero_9 :: "char \<Rightarrow> bool" where "zero_9 c \<longleftrightarrow> CHR ''0'' \<le> c \<and> c \<le> CHR ''9''"

definition a_z0_9 :: rexp where "a_z0_9 = Class (\<lambda>c. a_z c \<or> zero_9 c)"
definition a_zA_Z0_9 :: rexp where "a_zA_Z0_9 = Class (\<lambda>c. a_z c \<or> A_Z c \<or> zero_9 c)"

definition alphaNumericRegexp :: rexp where
  "alphaNumericRegexp = repeated [a_z0_9]"

definition separatorRegexp :: rexp where
  "separatorRegexp =
     Or (Class (\<lambda>c. c = CHR ''.'' \<or> c = CHR ''_'')) (Or (literal ''__'') (Many (Class (\<lambda>c. c = CHR ''-''))))"

definition nameComponentRegexp :: rexp where
  "nameComponentRegexp =
     expression [alphaNumericRegexp, optional [repeated [separatorRegexp, alphaNumericRegexp]]]"

definition hostnameComponentRegexp :: rexp where
  "hostnameComponentRegexp =
     Or a_zA_Z0_9
        (expression [a_zA_Z0_9, Many (Class (\<lambda>c. a_z c \<or> A_Z c \<or> zero_9 c \<or> c = CHR ''-'')), a_zA_Z0_9])"

definition hostnameRegexp :: rexp where
  "hostnameRegexp =
     expression [hostnameComponentRegexp, optional [repeated [literal ''.'', hostnameComponentRegexp]],
       optional [literal '':'', repeated [Class zero_9]]]"

definition TagRegexp :: rexp where
  "TagRegexp =
     expression [Class (\<lambda>c. a_z c \<or> A_Z c \<or> zero_9 c \<or> c = CHR ''_''),
       up_to 127 (Class (\<lambda>c. a_z c \<or> A_Z c \<or> zero_9 c \<or> c \<in> set ''_.-''))]"

definition xdigit :: "char \<Rightarrow> bool" where
  "xdigit c \<longleftrightarrow> zero_9 c \<or> CHR ''a'' \<le> c \<and> c \<le> CHR ''f'' \<or> CHR ''A'' \<le> c \<and> c \<le> CHR ''F''"

definition DigestRegexp :: rexp where
  "DigestRegexp =
     (let letter = Class (\<lambda>c. a_z c \<or> A_Z c); algorithm = expression [letter, Many a_zA_Z0_9] in
      expression [algorithm, Many (expression [Class (\<lambda>c. c \<in> set ''-_+.''), algorithm]), literal '':'',
        at_least 32 (Class xdigit)])"

definition NameRegexp :: rexp where
  "NameRegexp =
     expression [optional [hostnameRegexp, literal ''/''], nameComponentRegexp,
       optional [repeated [literal ''/'', nameComponentRegexp]]]"

text \<open>
  \<open>ReferenceRegexp.FindStringSubmatch(s)\<close>: a part is a prefix with its literal in front, or absent
  (the empty submatch); the submatches are the first of all the ways to read \<open>s\<close> to its end.
  \<open>one_reading\<close> shows that there is at most one.
\<close>

definition splits :: "string \<Rightarrow> (string \<times> string) list" where
  "splits s = map (\<lambda>n. (take n s, drop n s)) [0..<Suc (length s)]"

definition part :: "char \<Rightarrow> rexp \<Rightarrow> string \<Rightarrow> (string \<times> string) list" where
  "part c r s =
     (case s of
        x # s' \<Rightarrow> if x = c then filter (\<lambda>(u, v). matches r u) (splits s') else []
      | [] \<Rightarrow> []) @ [([], s)]"

definition ReferenceRegexp_submatches :: "string \<Rightarrow> (string \<times> string \<times> string) list" where
  "ReferenceRegexp_submatches s =
     [(name, tag, digest).
        (name, s1) \<leftarrow> splits s, matches NameRegexp name,
        (tag, s2) \<leftarrow> part CHR '':'' TagRegexp s1,
        (digest, s3) \<leftarrow> part CHR ''@'' DigestRegexp s2, s3 = []]"

section \<open>Digests\<close>

definition digest_DigestRegexp :: rexp where
  "digest_DigestRegexp =
     expression [repeated [Class (\<lambda>c. a_z c \<or> A_Z c \<or> zero_9 c \<or> c \<in> set ''-_+.'')], literal '':'',
       repeated [Class xdigit]]"

definition Algorithm_Size :: "string \<Rightarrow> nat option" where
  "Algorithm_Size algorithm =
     (if algorithm = ''sha256'' then Some 32 else if algorithm = ''sha384'' then Some 48
      else if algorithm = ''sha512'' then Some 64 else None)"

definition Digest_Validate :: "string \<Rightarrow> unit result" where
  "Digest_Validate d =
     (if \<not> matches digest_DigestRegexp d then Inl (Msg ''invalid checksum digest format'')
      else case cut '':'' d of
        None \<Rightarrow> Inl (Msg ''invalid checksum digest format'')
      | Some (algorithm, hex) \<Rightarrow>
          if hex = [] then Inl (Msg ''invalid checksum digest format'')
          else case Algorithm_Size algorithm of
            None \<Rightarrow> Inl (Msg ''unsupported digest algorithm'')
          | Some n \<Rightarrow> if n * 2 \<noteq> length hex then Inl (Msg ''invalid checksum digest length'') else Inr ())"

definition ParseDigest :: "string \<Rightarrow> string result" where
  "ParseDigest s = bindR (Digest_Validate s) (\<lambda>_. Inr s)"

section \<open>References of docker/distribution\<close>

definition NameTotalLengthMax :: nat where "NameTotalLengthMax = 255"

definition ErrReferenceInvalidFormat :: error where "ErrReferenceInvalidFormat = Msg ''invalid reference format''"
definition ErrTagInvalidFormat :: error where "ErrTagInvalidFormat = Msg ''invalid tag format''"
definition ErrDigestInvalidFormat :: error where "ErrDigestInvalidFormat = Msg ''invalid digest format''"
definition ErrNameEmpty :: error where "ErrNameEmpty = Msg ''repository name must have at least one component''"
definition ErrNameTooLong :: error where "ErrNameTooLong = Msg ''repository name must not be more than 255 characters''"

datatype Reference =
    reference string string string
  | repository string
  | taggedReference string string
  | canonicalReference string string
  | digestReference string

fun Reference_String :: "Reference \<Rightarrow> string" where
  "Reference_String (reference n t d) = n @ '':'' @ t @ ''@'' @ d"
| "Reference_String (repository n) = n"
| "Reference_String (taggedReference n t) = n @ '':'' @ t"
| "Reference_String (canonicalReference n d) = n @ ''@'' @ d"
| "Reference_String (digestReference d) = d"

text \<open>The assertions to the interfaces \<open>Named\<close>, \<open>NamedTagged\<close> and \<open>Canonical\<close>, with what their methods give.\<close>

fun Reference_Name :: "Reference \<Rightarrow> string option" where
  "Reference_Name (reference n t d) = Some n"
| "Reference_Name (repository n) = Some n"
| "Reference_Name (taggedReference n t) = Some n"
| "Reference_Name (canonicalReference n d) = Some n"
| "Reference_Name (digestReference d) = None"

fun Reference_Tag :: "Reference \<Rightarrow> string option" where
  "Reference_Tag (reference n t d) = Some t"
| "Reference_Tag (taggedReference n t) = Some t"
| "Reference_Tag _ = None"

fun Reference_Digest :: "Reference \<Rightarrow> string option" where
  "Reference_Digest (reference n t d) = Some d"
| "Reference_Digest (canonicalReference n d) = Some d"
| "Reference_Digest _ = None"

definition getBestReferenceType :: "string \<times> string \<times> string \<Rightarrow> Reference option" where
  "getBestReferenceType ref = (case ref of (name, tag, digest) \<Rightarrow>
     if name = [] then (if digest \<noteq> [] then Some (digestReference digest) else None)
     else if tag = [] then
       (if digest \<noteq> [] then Some (canonicalReference name digest) else Some (repository name))
     else if digest = [] then Some (taggedReference name tag)
     else Some (reference name tag digest))"

definition Parse :: "string \<Rightarrow> Reference result" where
  "Parse s =
     (case ReferenceRegexp_submatches s of
        [] \<Rightarrow> if s = [] then Inl ErrNameEmpty else Inl ErrReferenceInvalidFormat
      | (name, tag, digest) # _ \<Rightarrow>
          if length name > NameTotalLengthMax then Inl ErrNameTooLong
          else
            bindR (if digest \<noteq> [] then ParseDigest digest else Inr []) (\<lambda>dgst.
            case getBestReferenceType (name, tag, dgst) of
              None \<Rightarrow> Inl ErrNameEmpty
            | Some r \<Rightarrow> Inr r))"

definition distreference_ParseNamed :: "string \<Rightarrow> Reference result" where
  "distreference_ParseNamed s =
     bindR (Parse s) (\<lambda>ref.
     if Reference_Name ref = None
     then Inl (Msg (''reference '' @ Reference_String ref @ '' has no name'')) else Inr ref)"

definition distreference_WithName :: "string \<Rightarrow> string result" where
  "distreference_WithName name =
     (if length name > NameTotalLengthMax then Inl ErrNameTooLong
      else if \<not> matches NameRegexp name then Inl ErrReferenceInvalidFormat
      else Inr name)"

section \<open>References of containers/image\<close>

text \<open>
  The three implementations of \<open>reference.Named\<close>: a name only, a name with a tag, and a name
  with a digest (a canonical reference).
\<close>

datatype Named = NamedRef string | TaggedRef string string | CanonicalRef string string

definition DefaultTag :: string where "DefaultTag = ''latest''"
definition DefaultHostname :: string where "DefaultHostname = ''docker.io''"
definition LegacyDefaultHostname :: string where "LegacyDefaultHostname = ''index.docker.io''"
definition DefaultRepoPrefix :: string where "DefaultRepoPrefix = ''library/''"

fun Name :: "Named \<Rightarrow> string" where
  "Name (NamedRef n) = n"
| "Name (TaggedRef n t) = n"
| "Name (CanonicalRef n d) = n"

definition splitHostname :: "string \<Rightarrow> string \<times> string" where
  "splitHostname name =
     (let (hostname, remoteName) =
            (case cut ''/'' name of
               None \<Rightarrow> (DefaultHostname, name)
             | Some (host, rest) \<Rightarrow>
                 if dot \<notin> set host \<and> colon \<notin> set host \<and> host \<noteq> ''localhost'' then (DefaultHostname, name)
                 else (host, rest));
          hostname = (if hostname = LegacyDefaultHostname then DefaultHostname else hostname);
          remoteName = (if hostname = DefaultHostname \<and> slash \<notin> set remoteName
            then DefaultRepoPrefix @ remoteName else remoteName)
      in (hostname, remoteName))"

definition Hostname :: "Named \<Rightarrow> string" where
  "Hostname r = fst (splitHostname (Name r))"

definition RemoteName :: "Named \<Rightarrow> string" where
  "RemoteName r = snd (splitHostname (Name r))"

fun IsNameOnly :: "Named \<Rightarrow> bool" where
  "IsNameOnly (TaggedRef n t) = False"
| "IsNameOnly (CanonicalRef n d) = False"
| "IsNameOnly (NamedRef n) = True"

definition WithDefaultTag :: "Named \<Rightarrow> Named" where
  "WithDefaultTag r = (if IsNameOnly r then TaggedRef (Name r) DefaultTag else r)"

text \<open>\<open>ref.(reference.NamedTagged).Tag()\<close>: the assertion panics on the other two.\<close>

fun Tag :: "Named \<Rightarrow> string result" where
  "Tag (TaggedRef n t) = Inr t"
| "Tag _ = Inl (Panic ''interface conversion: missing method Tag'')"

text \<open>\<open>strings.ToLower(s)\<close>; the names it sees that are not ASCII are refused by the grammar after it.\<close>

definition ToLower :: "string \<Rightarrow> string" where
  "ToLower s = map (\<lambda>c. if A_Z c then char_of (of_char c + 32 :: nat) else c) s"

definition TrimPrefix :: "string \<Rightarrow> string \<Rightarrow> string" where
  "TrimPrefix s p = (if take (length p) s = p then drop (length p) s else s)"

definition normalize :: "string \<Rightarrow> string result" where
  "normalize name =
     (let (host, remoteName) = splitHostname name in
      if ToLower remoteName \<noteq> remoteName
      then Inl (Msg ''invalid reference format: repository name must be lowercase'')
      else if host = DefaultHostname
      then Inr (if take (length DefaultRepoPrefix) remoteName = DefaultRepoPrefix
             then TrimPrefix remoteName DefaultRepoPrefix else remoteName)
      else Inr name)"

definition validHex :: rexp where
  "validHex = expression (replicate 64 (Class (\<lambda>c. CHR ''a'' \<le> c \<and> c \<le> CHR ''f'' \<or> zero_9 c)))"

definition validateID :: "string \<Rightarrow> unit result" where
  "validateID s = (if matches validHex s then Inr () else Inl (Msg ''image ID is invalid''))"

definition validateName :: "string \<Rightarrow> unit result" where
  "validateName name =
     (case validateID name of
        Inr _ \<Rightarrow> Inl (Msg (''Invalid repository name ('' @ name @ ''), cannot specify 64-byte hexadecimal strings''))
      | Inl _ \<Rightarrow> Inr ())"

definition WithName :: "string \<Rightarrow> Named result" where
  "WithName name =
     bindR (normalize name) (\<lambda>name.
     bindR (validateName name) (\<lambda>_.
     bindR (distreference_WithName name) (\<lambda>r.
     Inr (NamedRef r))))"

definition WithTag :: "Named \<Rightarrow> string \<Rightarrow> Named result" where
  "WithTag r tag = (if \<not> matches TagRegexp tag then Inl ErrTagInvalidFormat else Inr (TaggedRef (Name r) tag))"

definition WithDigest :: "Named \<Rightarrow> string \<Rightarrow> Named result" where
  "WithDigest r digest =
     (if \<not> matches DigestRegexp digest then Inl ErrDigestInvalidFormat else Inr (CanonicalRef (Name r) digest))"

definition ParseNamed :: "string \<Rightarrow> Named result" where
  "ParseNamed s =
     (case distreference_ParseNamed s of
        Inl _ \<Rightarrow> Inl (Msg ''Error parsing reference: not a valid repository/tag'')
      | Inr named \<Rightarrow>
          bindR (WithName (the (Reference_Name named))) (\<lambda>r.
          case Reference_Digest named of
            Some digest \<Rightarrow> WithDigest r digest
          | None \<Rightarrow> (case Reference_Tag named of Some tag \<Rightarrow> WithTag r tag | None \<Rightarrow> Inr r)))"

end
