(* ===== verification/Daemon_Oci.thy ===== *)
theory Daemon_Oci
  imports Oci_Layout Torrent_Client References
begin

text \<open>
  daemon/oci.go: the image the daemon keeps of a reference (its directory and its tag), the
  conversion of a manifest to the OCI format, and the two operations on the image's manifest.
  The transports of image names and the media types are those of the vendored containers/image
  package. What the daemon only calls (the hash, JSON, registries, the peer) is the record \<open>libs\<close>
  of parameters.
\<close>

section \<open>The libraries the daemon calls\<close>

record BlobInfo =
  bi_Digest :: string
  bi_Size :: int

record SystemContext =
  RegistriesDirPath :: string
  DockerCertPath :: string
  DockerInsecureSkipTLSVerify :: bool
  DockerAuthConfig :: "(string \<times> string) option"

text \<open>\<open>types.Image\<close> and \<open>types.ImageSource\<close> as the answers of their methods.\<close>

record Image =
  LayerInfos :: "BlobInfo list"
  ConfigInfo :: BlobInfo
  ConfigBlob :: "bytes result"
  ImageManifest :: "bytes result"

record ImageReference =
  DockerReference :: "Named option"
  NewImage :: "SystemContext \<Rightarrow> Image result"
  NewImageSource :: "SystemContext \<Rightarrow> string list \<Rightarrow> (string \<Rightarrow> reader result) result"

record Manifest =
  m_SchemaVersion :: int
  m_MediaType :: string
  m_Config :: Descriptor
  m_Layers :: "Descriptor list"
  m_Annotations :: "(string \<times> string) list option"

text \<open>The fields of \<open>GuessMIMEType\<close>: the media type, the schema version, whether there are signatures.\<close>

type_synonym meta = "string \<times> int \<times> bool"

record libs =
  lib_sha :: "bytes \<Rightarrow> bytes"
  desc_enc :: "Descriptor \<Rightarrow> bytes"
  desc_dec :: "bytes \<Rightarrow> Descriptor result"
  man_enc :: "Manifest \<Rightarrow> bytes result"
  man_dec :: "bytes \<Rightarrow> Manifest result"
  meta_dec :: "bytes \<Rightarrow> meta result"
  sig_payload :: "bytes \<Rightarrow> bytes result"
  lib_torrent :: codec
  newImage :: "Named \<Rightarrow> SystemContext \<Rightarrow> Image result"
  newImageSource :: "Named \<Rightarrow> SystemContext \<Rightarrow> string list \<Rightarrow> (string \<Rightarrow> reader result) result"
  transports :: "string \<Rightarrow> (string \<Rightarrow> ImageReference result) option"
  grpc_Dial :: "string \<Rightarrow> unit result"
  peer_GetTorrent :: "string \<Rightarrow> string \<Rightarrow> string \<Rightarrow> bytes result"
  open_Stdout :: "string \<Rightarrow> unit result"

section \<open>Image names\<close>

text \<open>
  The docker transport of the vendored containers/image: \<open>NewReference\<close> (whose check for a tag next to a
  digest no implementation of \<open>Named\<close> meets), \<open>ParseReference\<close>, and \<open>ParseImageName\<close> over the known
  transports; the transports other than docker are the field \<open>transports\<close>.
\<close>

definition NewReference :: "libs \<Rightarrow> Named \<Rightarrow> ImageReference result" where
  "NewReference L ref =
     (if IsNameOnly ref then Inl (Msg (''Docker reference '' @ Name ref @ '' has neither a tag nor a digest''))
      else Inr \<lparr>DockerReference = Some ref, NewImage = newImage L ref, NewImageSource = newImageSource L ref\<rparr>)"

definition docker_ParseReference :: "libs \<Rightarrow> string \<Rightarrow> ImageReference result" where
  "docker_ParseReference L refString =
     (if take 2 refString \<noteq> ''//''
      then Inl (Msg (''docker: image reference '' @ refString @ '' does not start with //''))
      else bindR (ParseNamed (TrimPrefix refString ''//'')) (\<lambda>ref. NewReference L (WithDefaultTag ref)))"

definition ParseImageName :: "libs \<Rightarrow> string \<Rightarrow> ImageReference result" where
  "ParseImageName L imgName =
     (case SplitN2 imgName '':'' of
        [name, refString] \<Rightarrow>
          if name = ''docker'' then docker_ParseReference L refString
          else (case transports L name of
            None \<Rightarrow> Inl (Msg (''Invalid image name '' @ imgName @ '', unknown transport '' @ name))
          | Some parse \<Rightarrow> parse refString)
      | _ \<Rightarrow> Inl (Msg (''Invalid image name '' @ imgName @ '', expected colon-separated transport:reference'')))"

section \<open>Images of the daemon\<close>

record blobInfo =
  b_digest :: string
  b_size :: int

record OciImage =
  oi_path :: string
  oi_ref :: string
  oi_layout :: dirLayout

definition OciImage_Close :: "OciImage \<Rightarrow> ('z fs_scheme, unit) call" where
  "OciImage_Close i = Close (oi_layout i)"

definition ociRootDir :: "string \<Rightarrow> string" where
  "ociRootDir root = Join [root, ''oci'']"

definition buildOciDestFromReference :: "string \<Rightarrow> ImageReference \<Rightarrow> (string \<times> string) result" where
  "buildOciDestFromReference root ref =
     (case DockerReference ref of
        None \<Rightarrow> Inl (Panic ''nil pointer dereference'')
      | Some r \<Rightarrow>
          map_sum id (\<lambda>tag. (Join [ociRootDir root, RemoteName r], tag)) (Tag (WithDefaultTag r)))"

definition buildOciDestSimple :: "string \<Rightarrow> Named \<Rightarrow> (string \<times> string) result" where
  "buildOciDestSimple root r = map_sum id (\<lambda>tag. (Join [ociRootDir root, RemoteName r], tag)) (Tag r)"

definition newOciImage :: "string \<Rightarrow> ImageReference \<Rightarrow> ('z fs_scheme, OciImage) call" where
  "newOciImage root srcRef =
     bindE (liftE (buildOciDestFromReference root srcRef)) (\<lambda>(repoDir, refTag).
     bindE (Open repoDir) (\<lambda>layout.
     returnE \<lparr>oi_path = repoDir, oi_ref = refTag, oi_layout = layout\<rparr>))"

definition newOciImageSimple :: "string \<Rightarrow> Named \<Rightarrow> ('z fs_scheme, OciImage) call" where
  "newOciImageSimple root r =
     bindE (liftE (buildOciDestSimple root r)) (\<lambda>(repoDir, refTag).
     bindE (Open repoDir) (\<lambda>layout.
     returnE \<lparr>oi_path = repoDir, oi_ref = refTag, oi_layout = layout\<rparr>))"

section \<open>Manifests\<close>

definition DockerV2Schema1MediaType :: string where
  "DockerV2Schema1MediaType = ''application/vnd.docker.distribution.manifest.v1+json''"
definition DockerV2Schema1SignedMediaType :: string where
  "DockerV2Schema1SignedMediaType = ''application/vnd.docker.distribution.manifest.v1+prettyjws''"
definition DockerV2Schema2MediaType :: string where
  "DockerV2Schema2MediaType = ''application/vnd.docker.distribution.manifest.v2+json''"
definition DockerV2ListMediaType :: string where
  "DockerV2ListMediaType = ''application/vnd.docker.distribution.manifest.list.v2+json''"
definition MediaTypeImageManifest :: string where
  "MediaTypeImageManifest = ''application/vnd.oci.image.manifest.v1+json''"
definition MediaTypeImageManifestList :: string where
  "MediaTypeImageManifestList = ''application/vnd.oci.image.manifest.list.v1+json''"
definition MediaTypeImageLayer :: string where
  "MediaTypeImageLayer = ''application/vnd.oci.image.layer.v1.tar+gzip''"
definition MediaTypeImageConfig :: string where
  "MediaTypeImageConfig = ''application/vnd.oci.image.config.v1+json''"

definition ociSupportedManifestMIMETypes :: "string list" where
  "ociSupportedManifestMIMETypes = [MediaTypeImageManifest, DockerV2Schema2MediaType]"

definition GuessMIMEType :: "libs \<Rightarrow> bytes \<Rightarrow> string" where
  "GuessMIMEType L manifest =
     (case meta_dec L manifest of
        Inl _ \<Rightarrow> []
      | Inr (mediaType, schemaVersion, signatures) \<Rightarrow>
          if mediaType \<in> {DockerV2Schema2MediaType, DockerV2ListMediaType, MediaTypeImageManifest, MediaTypeImageManifestList}
          then mediaType
          else if schemaVersion = 1 then
            (if signatures then DockerV2Schema1SignedMediaType else DockerV2Schema1MediaType)
          else if schemaVersion = 2 then DockerV2Schema2MediaType
          else [])"

definition manifest_Digest :: "libs \<Rightarrow> bytes \<Rightarrow> string result" where
  "manifest_Digest L manifest =
     (let digest = (\<lambda>m. ''sha256:'' @ hex_encode (lib_sha L m)) in
      if GuessMIMEType L manifest = DockerV2Schema1SignedMediaType
      then map_sum id digest (sig_payload L manifest)
      else Inr (digest manifest))"

definition createOciManifest :: "libs \<Rightarrow> bytes \<Rightarrow> (bytes \<times> string) result" where
  "createOciManifest L m =
     (let mt = GuessMIMEType L m in
      if mt = DockerV2Schema1MediaType \<or> mt = DockerV2Schema1SignedMediaType then
        Inl (Msg ''can't create an OCI manifest from Docker V2 schema 1 manifest'')
      else if mt = DockerV2Schema2MediaType then
        (case man_dec L m of
           Inl err \<Rightarrow> Inl err
         | Inr om \<Rightarrow>
             let om = om\<lparr>m_MediaType := MediaTypeImageManifest,
                       m_Layers := map (\<lambda>l. l\<lparr>desc_MediaType := MediaTypeImageLayer\<rparr>) (m_Layers om),
                       m_Config := (m_Config om)\<lparr>desc_MediaType := MediaTypeImageConfig\<rparr>\<rparr> in
             (case man_enc L om of Inl err \<Rightarrow> Inl err | Inr b \<Rightarrow> Inr (b, m_MediaType om)))
      else if mt = DockerV2ListMediaType then
        Inl (Msg ''can't create an OCI manifest from Docker V2 schema 2 manifest list'')
      else if mt = MediaTypeImageManifestList then
        Inl (Msg ''can't create an OCI manifest from OCI manifest list'')
      else if mt = MediaTypeImageManifest then Inr (m, mt)
      else Inl (Msg (''unrecognized manifest media type '' @ mt)))"

definition putManifest :: "libs \<Rightarrow> OciImage \<Rightarrow> bytes \<Rightarrow> ('z fs_scheme, unit) call" where
  "putManifest L i raw =
     bindE (liftE (createOciManifest L raw)) (\<lambda>(ociMan, mt).
     bindE (liftE (manifest_Digest L ociMan)) (\<lambda>digest.
     bindE (PutBlob (lib_sha L) (oi_layout i) (ociMan, None)) (\<lambda>(d, n).
     if d \<noteq> digest then throwE (Msg (''Error mismatch digest, exp: '' @ digest @ '', act: '' @ d))
     else PutReference (desc_enc L) (desc_dec L) (oi_layout i) (oi_ref i)
       \<lparr>desc_MediaType = mt, desc_Digest = digest, desc_Size = int (length ociMan)\<rparr>)))"

text \<open>
  The copy goes through a \<open>bufio.Writer\<close> that is never flushed: an empty one hands the whole copy
  to the \<open>ReadFrom\<close> of the \<open>bytes.Buffer\<close> under it, so nothing stays behind.
\<close>

definition getOciImageLayers :: "libs \<Rightarrow> OciImage \<Rightarrow> ('z fs_scheme, blobInfo list) call" where
  "getOciImageLayers L i =
     bindE (GetReference (desc_dec L) (oi_layout i) (oi_ref i)) (\<lambda>desc.
     bindE (GetBlob (oi_layout i) (desc_Digest desc)) (\<lambda>r.
     bindE (read_all r) (\<lambda>data.
     bindE (liftE (man_dec L data)) (\<lambda>om.
     returnE (map (\<lambda>l. \<lparr>b_digest = desc_Digest l, b_size = desc_Size l\<rparr>) (m_Layers om))))))"

text \<open>\<open>digest.Digest(d).Hex()\<close> panics on a string without a colon.\<close>

definition Digest_Hex :: "string \<Rightarrow> string result" where
  "Digest_Hex d =
     (case cut '':'' d of
        None \<Rightarrow> Inl (Panic ''could not find ':' in digest'')
      | Some (algorithm, h) \<Rightarrow> Inr h)"

end
