(* ===== verification/Daemon.thy ===== *)
theory Daemon
  imports Daemon_Oci Bt_Frames
begin

text \<open>
  The daemon, daemon/daemon.go, daemon/config.go and daemon/remote.go: every handler of the API,
  over one state, the file system with the BitTorrent engine. A handler is one call; while it
  waits for a download the environment (peers, goroutines, other handlers) moves the state by a
  function of its own, \<open>env\<close>. A handler that may wait returns False when it is still waiting after
  \<open>fuel\<close> polls. Reports to the client's FIFO and log lines have no effect here.
\<close>

section \<open>Configuration and requests\<close>

record Config =
  c_Pidfile :: string
  c_Root :: string
  c_ConnTimeout :: int
  c_UseHardlink :: bool
  c_BtEnable :: bool
  c_BtSeeder :: bool
  c_BtTrackers :: "string list"
  c_BtSeederServer :: "string list"
  c_UploadRateLimit :: int
  c_DownloadRateLimit :: int

record StartDownloadRequest =
  sd_Source :: string
  sd_Stdout :: string
  sd_Stderr :: string
  sd_Username :: string
  sd_Password :: string

record LayerDownState =
  ls_Id :: string
  ls_State :: string
  ls_Completed :: int
  ls_Size :: int
  ls_Seeding :: bool

text \<open>A context as the string values it holds; \<open>WithValue\<close> makes a new one.\<close>

type_synonym go_context = "string \<Rightarrow> string option"

definition WithValue :: "go_context \<Rightarrow> string \<Rightarrow> string \<Rightarrow> go_context" where
  "WithValue ctx k v = ctx(k \<mapsto> v)"

definition usernameKey :: string where "usernameKey = ''username''"
definition passwordKey :: string where "passwordKey = ''password''"

definition getSystemContext :: "go_context \<Rightarrow> SystemContext" where
  "getSystemContext ctx =
     (let sysCtx = \<lparr>RegistriesDirPath = [], DockerCertPath = [], DockerInsecureSkipTLSVerify = True,
                    DockerAuthConfig = None\<rparr> in
      case ctx usernameKey of
        None \<Rightarrow> sysCtx
      | Some username \<Rightarrow>
          (case ctx passwordKey of
             None \<Rightarrow> sysCtx
           | Some password \<Rightarrow> sysCtx\<lparr>DockerAuthConfig := Some (username, password)\<rparr>))"

section \<open>Starting the daemon\<close>

definition btRootDir :: "Config \<Rightarrow> string" where
  "btRootDir cfg = Join [c_Root cfg, ''bt'']"

definition daemon_bt_config :: "Config \<Rightarrow> Bt_Config" where
  "daemon_bt_config cfg =
     \<lparr>DisableEncryption = True, EnableUpload = True, EnableSeeding = True, IncomingPort = 50007,
      UploadRateLimit = c_UploadRateLimit cfg, DownloadRateLimit = c_DownloadRateLimit cfg\<rparr>"

definition NewDaemon :: "libs \<Rightarrow> Config \<Rightarrow> ('z bt_scheme, unit) call" where
  "NewDaemon L cfg =
     (let btRoot = Join [c_Root cfg, ''bt''] in
      bindE (unless_exists (os_MkdirAll btRoot)) (\<lambda>_.
      let ociRoot = Join [c_Root cfg, ''oci''] in
      bindE (unless_exists (os_MkdirAll ociRoot)) (\<lambda>_.
      bindE (modifyE (\<lambda>s. s\<lparr>engine := NewBtEngine btRoot (c_BtTrackers cfg) (Some (daemon_bt_config cfg))\<rparr>)) (\<lambda>_.
      whenE (c_BtEnable cfg) (wrapE ''Start bt engine failed'' (Run (lib_torrent L)))))))"

section \<open>Copying files\<close>

text \<open>
  The bytes an open file yields to a reader that runs to its end, and the error it ends with: a
  fault may come after a part of them. \<open>io.Copy\<close> writes what it has read before it returns an error.
\<close>

definition file_reader :: "node \<Rightarrow> ('z fs_scheme, reader) call" where
  "file_reader n s =
     (case n of
        Dir \<Rightarrow> (Inr ([], Some (Errno EISDIR)), s)
      | File i \<Rightarrow>
          (case faults s of
             [] \<Rightarrow> (Inr (inodes s i, None), s)
           | None # fl \<Rightarrow> (Inr (inodes s i, None), s\<lparr>faults := fl\<rparr>)
           | Some (h, k) # fl \<Rightarrow> (Inr (take k (inodes s i), Some (Errno (EHW h))), s\<lparr>faults := fl\<rparr>)))"

definition io_Copy :: "nat \<Rightarrow> reader \<Rightarrow> ('z fs_scheme, unit) call" where
  "io_Copy fh rd =
     thenE (file_Write fh (fst rd)) (case snd rd of None \<Rightarrow> returnE () | Some err \<Rightarrow> throwE err)"

section \<open>The seeder\<close>

definition copyLayer ::
  "libs \<Rightarrow> OciImage \<Rightarrow> (string \<Rightarrow> reader result) \<Rightarrow> BlobInfo \<Rightarrow> ('z fs_scheme, unit) call" where
  "copyLayer L ociImg src srcInfo =
     bindE (liftE (src (bi_Digest srcInfo))) (\<lambda>srcStream.
     bindE (wrapE ''Error writing blob'' (PutBlob (lib_sha L) (oi_layout ociImg) srcStream)) (\<lambda>(digest, n).
     if digest \<noteq> bi_Digest srcInfo
     then throwE (Msg (''Digest not match, src: '' @ bi_Digest srcInfo @ '', dest: '' @ digest))
     else returnE ()))"

definition startSeedingLayer ::
  "Config \<Rightarrow> libs \<Rightarrow> OciImage \<Rightarrow> string \<Rightarrow> ('z bt_scheme, unit) call" where
  "startSeedingLayer cfg L ociImg digest =
     bindE (liftE (Digest_Hex digest)) (\<lambda>idn.
     bindE (getE (\<lambda>s. GetFilePath (engine s) idn)) (\<lambda>fn.
     bindE
       (if c_UseHardlink cfg then
          bindE (wrapE ''Get oci blob path error'' (GetBlobPath (oi_layout ociImg) digest)) (\<lambda>src.
          wrapE ''Create hardlink error'' (os_Link src fn))
        else
          bindE (wrapE (''Create layer file '' @ fn @ '' failed'') (os_Create fn)) (\<lambda>layerFile.
          bindE (wrapE (''Open oci layer '' @ digest @ '' error'') (GetBlob (oi_layout ociImg) digest)) (\<lambda>srcFile.
          bindE (file_reader srcFile) (\<lambda>rd.
          wrapE (''Copy oci layer '' @ digest @ '' error'') (io_Copy layerFile rd))))) (\<lambda>_.
     catchE (StartSeed (lib_torrent L) idn) (\<lambda>_. returnE ()))))"

definition seed_layer ::
  "Config \<Rightarrow> libs \<Rightarrow> OciImage \<Rightarrow> (string \<Rightarrow> reader result) \<Rightarrow> BlobInfo \<Rightarrow> ('z bt_scheme, unit) call" where
  "seed_layer cfg L ociImg src layer =
     bindE (wrapE ''Error check OCI dest blob exist'' (Exist (oi_layout ociImg) (bi_Digest layer))) (\<lambda>ok.
     if ok then returnE ()
     else
       bindE (copyLayer L ociImg src layer) (\<lambda>_.
       startSeedingLayer cfg L ociImg (bi_Digest layer)))"

definition startSeederDownload ::
  "Config \<Rightarrow> libs \<Rightarrow> go_context \<Rightarrow> string \<Rightarrow> ('z bt_scheme, unit) call" where
  "startSeederDownload cfg L ctx source =
     (let sysCtx = getSystemContext ctx in
      if source = [] then throwE (Msg ''Image source can't be nil'')
      else
        bindE (wrapE (''Invalid source name '' @ source) (liftE (ParseImageName L source))) (\<lambda>srcRef.
        bindE (wrapE ''Error new image'' (liftE (NewImage srcRef sysCtx))) (\<lambda>img.
        let layerInfos = LayerInfos img in
        bindE (wrapE (''Error initializing source '' @ source)
          (liftE (NewImageSource srcRef sysCtx ociSupportedManifestMIMETypes))) (\<lambda>src.
        bindE (newOciImage (c_Root cfg) srcRef) (\<lambda>ociImg.
        deferE (OciImage_Close ociImg) (forE layerInfos (seed_layer cfg L ociImg src)))))))"

section \<open>The leecher\<close>

text \<open>
  \<open>getRemotePeer\<close>: None is the nil client of a failed dial; a client is the parts of its address,
  which its dialer indexes at the first call.
\<close>

definition getRemotePeer :: "libs \<Rightarrow> string \<Rightarrow> string list option" where
  "getRemotePeer L address =
     (let bindParts = SplitN2 address ''://'' in
      case grpc_Dial L address of Inl _ \<Rightarrow> None | Inr _ \<Rightarrow> Some bindParts)"

definition client_GetTorrent :: "libs \<Rightarrow> string list option \<Rightarrow> string \<Rightarrow> bytes result" where
  "client_GetTorrent L cli idn =
     (case cli of
        None \<Rightarrow> Inl (Panic ''nil pointer dereference'')
      | Some bindParts \<Rightarrow>
          if length bindParts < 2 then Inl (Panic ''index out of range'')
          else peer_GetTorrent L (bindParts ! 0) (bindParts ! 1) idn)"

definition getTorrentFromSeeder :: "Config \<Rightarrow> libs \<Rightarrow> string \<Rightarrow> bytes result" where
  "getTorrentFromSeeder cfg L idn =
     (case c_BtSeederServer cfg of
        [] \<Rightarrow> Inl (Msg ''Seeder server cannot be empty'')
      | server # _ \<Rightarrow> client_GetTorrent L (getRemotePeer L server) idn)"

definition startLeechingLayer ::
  "Config \<Rightarrow> libs \<Rightarrow> ('z bt_scheme \<Rightarrow> 'z bt_scheme) \<Rightarrow> nat \<Rightarrow> bool \<Rightarrow> OciImage \<Rightarrow> BlobInfo \<Rightarrow> ('z bt_scheme, bool) call"
where
  "startLeechingLayer cfg L env fuel reporting ociImg layer =
     bindE (liftE (Digest_Hex (bi_Digest layer))) (\<lambda>idn.
     bindE (liftE (getTorrentFromSeeder cfg L idn)) (\<lambda>t.
     bindE (StartLeecher (lib_torrent L) env fuel idn t reporting) (\<lambda>returned.
     if \<not> returned then returnE False
     else
       bindE (getE (\<lambda>s. GetFilePath (engine s) idn)) (\<lambda>fn.
       if c_UseHardlink cfg then
         bindE (wrapE ''Get oci blob path error'' (GetBlobPath (oi_layout ociImg) (bi_Digest layer))) (\<lambda>dst.
         bindE (wrapE ''Create hardlink error'' (os_Link fn dst)) (\<lambda>_. returnE True))
       else
         bindE (wrapE (''Open layer file '' @ fn @ '' failed'') (os_Open fn)) (\<lambda>layerFile.
         bindE (file_reader layerFile) (\<lambda>rd.
         bindE (wrapE (''Error to put blob '' @ bi_Digest layer) (PutBlob (lib_sha L) (oi_layout ociImg) rd)) (\<lambda>(digest, n).
         if digest \<noteq> bi_Digest layer
         then throwE (Msg (''Digest not match, src: '' @ bi_Digest layer @ '', dest: '' @ digest))
         else returnE True)))))))"

text \<open>The loop over the layers; it stops at the first error and where a layer still waits.\<close>

fun leech_layers ::
  "Config \<Rightarrow> libs \<Rightarrow> ('z bt_scheme \<Rightarrow> 'z bt_scheme) \<Rightarrow> nat \<Rightarrow> bool \<Rightarrow> OciImage \<Rightarrow> BlobInfo list \<Rightarrow>
   ('z bt_scheme, bool) call"
where
  "leech_layers cfg L env fuel reporting ociImg [] = returnE True"
| "leech_layers cfg L env fuel reporting ociImg (layer # layers) =
     bindE (wrapE ''Error check OCI dest blob exist'' (Exist (oi_layout ociImg) (bi_Digest layer))) (\<lambda>ok.
     if ok then leech_layers cfg L env fuel reporting ociImg layers
     else
       bindE (startLeechingLayer cfg L env fuel reporting ociImg layer) (\<lambda>returned.
       if returned then leech_layers cfg L env fuel reporting ociImg layers else returnE False))"

definition pull_config :: "libs \<Rightarrow> OciImage \<Rightarrow> Image \<Rightarrow> ('z fs_scheme, unit) call" where
  "pull_config L ociImg img =
     (let srcInfo = ConfigInfo img in
      if bi_Digest srcInfo \<noteq> [] then
        bindE (liftE (ConfigBlob img)) (\<lambda>configBlob.
        bindE (PutBlob (lib_sha L) (oi_layout ociImg) (configBlob, None)) (\<lambda>(digest, n).
        if digest \<noteq> bi_Digest srcInfo
        then throwE (Msg (''Error config blob '' @ bi_Digest srcInfo @ '' changed to '' @ digest))
        else returnE ()))
      else returnE ())"

text \<open>\<open>defer\<close> in a handler that may not have returned.\<close>

definition deferB :: "('s, unit) call \<Rightarrow> ('s, bool) call \<Rightarrow> ('s, bool) call" where
  "deferB fin m s =
     (case m s of (Inr False, t) \<Rightarrow> (Inr False, t) | (r, t) \<Rightarrow> (r, snd (fin t)))"

definition startLeecherDownload ::
  "Config \<Rightarrow> libs \<Rightarrow> ('z bt_scheme \<Rightarrow> 'z bt_scheme) \<Rightarrow> nat \<Rightarrow> bool \<Rightarrow> go_context \<Rightarrow> string \<Rightarrow> ('z bt_scheme, bool) call"
where
  "startLeecherDownload cfg L env fuel reporting ctx source =
     (let sysCtx = getSystemContext ctx in
      if source = [] then throwE (Msg ''Image source cannot be empty'')
      else
        bindE (wrapE (''Invalid source name '' @ source) (liftE (ParseImageName L source))) (\<lambda>srcRef.
        bindE (wrapE ''Error new image'' (liftE (NewImage srcRef sysCtx))) (\<lambda>img.
        let layerInfos = LayerInfos img in
        bindE (newOciImage (c_Root cfg) srcRef) (\<lambda>ociImg.
        deferB (OciImage_Close ociImg)
          (bindE (leech_layers cfg L env fuel reporting ociImg layerInfos) (\<lambda>returned.
           if \<not> returned then returnE False
           else
             bindE (pull_config L ociImg img) (\<lambda>_.
             bindE (wrapE ''Error reading manifest'' (liftE (ImageManifest img))) (\<lambda>manifest.
             bindE (wrapE ''Error writing manifest'' (putManifest L ociImg manifest)) (\<lambda>_.
             returnE True)))))))))"

section \<open>The API\<close>

text \<open>
  The two contexts that \<open>context.WithValue\<close> returns are dropped: Go's contexts are immutable, so
  \<open>ctx\<close> itself goes on.
\<close>

definition StartDownload ::
  "Config \<Rightarrow> libs \<Rightarrow> ('z bt_scheme \<Rightarrow> 'z bt_scheme) \<Rightarrow> nat \<Rightarrow> go_context \<Rightarrow> StartDownloadRequest \<Rightarrow> ('z bt_scheme, bool) call"
where
  "StartDownload cfg L env fuel ctx r =
     (let dropped = (if sd_Username r \<noteq> [] \<and> sd_Password r \<noteq> []
            then [WithValue ctx usernameKey (sd_Username r), WithValue ctx passwordKey (sd_Password r)]
            else []);
          reporting = (sd_Stdout r \<noteq> []) in
      bindE (whenE reporting (liftE (open_Stdout L (sd_Stdout r)))) (\<lambda>_.
      if c_BtSeeder cfg
      then bindE (startSeederDownload cfg L ctx (sd_Source r)) (\<lambda>_. returnE True)
      else startLeecherDownload cfg L env fuel reporting ctx (sd_Source r)))"

definition buildNamedTagged :: "string \<Rightarrow> Named result" where
  "buildNamedTagged source = map_sum id WithDefaultTag (ParseNamed source)"

fun stop_layers :: "bool \<Rightarrow> blobInfo list \<Rightarrow> ('z bt_scheme, string list) call" where
  "stop_layers clean [] = returnE []"
| "stop_layers clean (layer # layers) =
     bindE (liftE (Digest_Hex (b_digest layer))) (\<lambda>idn.
     bindE (StopTorrent idn) (\<lambda>_.
     bindE (whenE clean (catchE (DeleteTorrent idn) (\<lambda>_. returnE ()))) (\<lambda>_.
     bindE (stop_layers clean layers) (\<lambda>ids.
     returnE (idn # ids)))))"

definition with_image ::
  "Config \<Rightarrow> string \<Rightarrow> (OciImage \<Rightarrow> ('z bt_scheme, 'a) call) \<Rightarrow> ('z bt_scheme, 'a) call" where
  "with_image cfg source body =
     (if source = [] then throwE (Msg ''Image source cannot be empty'')
      else
        bindE (liftE (buildNamedTagged source)) (\<lambda>r.
        bindE (newOciImageSimple (c_Root cfg) r) (\<lambda>ociImg.
        deferE (OciImage_Close ociImg) (body ociImg))))"

definition StopDownload :: "Config \<Rightarrow> libs \<Rightarrow> string \<Rightarrow> bool \<Rightarrow> ('z bt_scheme, string list) call" where
  "StopDownload cfg L source clean =
     with_image cfg source (\<lambda>ociImg.
       bindE (getOciImageLayers L ociImg) (\<lambda>layers. stop_layers clean layers))"

definition layer_status :: "blobInfo \<Rightarrow> ('z bt_scheme, LayerDownState) call" where
  "layer_status layer =
     bindE (liftE (Digest_Hex (b_digest layer))) (\<lambda>idn.
     bindE (tryE (GetStatus idn)) (\<lambda>r. case r of
       Inl err \<Rightarrow>
         if err \<noteq> ErrIdNotExist then throwE err
         else returnE \<lparr>ls_Id = idn, ls_State = State_String Dropped, ls_Completed = b_size layer,
                       ls_Size = b_size layer, ls_Seeding = False\<rparr>
     | Inr st \<Rightarrow>
         returnE \<lparr>ls_Id = idn, ls_State = st_State st, ls_Completed = st_Completed st,
                  ls_Size = st_TotalLen st, ls_Seeding = st_Seeding st\<rparr>))"

definition daemon_Status :: "Config \<Rightarrow> libs \<Rightarrow> string \<Rightarrow> ('z bt_scheme, LayerDownState list) call" where
  "daemon_Status cfg L source =
     with_image cfg source (\<lambda>ociImg.
       bindE (getOciImageLayers L ociImg) (\<lambda>layers. mapE layer_status layers))"

definition daemon_GetTorrent :: "libs \<Rightarrow> string \<Rightarrow> ('z bt_scheme, bytes) call" where
  "daemon_GetTorrent L idn = engine_GetTorrent (lib_torrent L) idn"

end
