(* ===== verification/Daemon_Image.thy ===== *)
theory Daemon_Image
  imports Oci_Frames Daemon
begin

text \<open>
  The invariant of an image's directory the daemon's handlers keep: no blob and no reference is a
  directory, every blob hashes to its name, the image is whole, and the blobs and references of a
  set of pins are there. The operations of the layout and the torrent engine keep it under every schedule of
  faults; it does not speak of one session, so it carries from one request to the next.
\<close>

section \<open>The invariant\<close>

definition blob_file :: "string \<Rightarrow> string \<Rightarrow> string list" where
  "blob_file p h = comps p @ [blobDirectory, BlobAlgorithm, h]"

definition ref_file :: "string \<Rightarrow> string \<Rightarrow> string list" where
  "ref_file p n = comps p @ [refDirectory, n]"

text \<open>What is there already and has to stay: a blob, a reference with its content.\<close>

datatype pin = Blob string | Bound string bytes

definition image_at :: "(bytes \<Rightarrow> bytes) \<Rightarrow> string \<Rightarrow> pin set \<Rightarrow> 'z fs_scheme \<Rightarrow> bool" where
  "image_at sha p K s \<longleftrightarrow>
     wf_fs s \<and> whole_image (view s) p \<and>
     (\<forall>h. name_ok h \<longrightarrow> view s (blob_file p h) \<noteq> Some None) \<and>
     (\<forall>n. name_ok n \<longrightarrow> view s (ref_file p n) \<noteq> Some None) \<and>
     (\<forall>h d. name_ok h \<longrightarrow> view s (blob_file p h) = Some (Some d) \<longrightarrow> h = hex_encode (sha d)) \<and>
     (\<forall>h. Blob h \<in> K \<longrightarrow> view s (blob_file p h) \<noteq> None) \<and>
     (\<forall>n c. Bound n c \<in> K \<longrightarrow> view s (ref_file p n) = Some (Some c))"

definition session :: "(bytes \<Rightarrow> bytes) \<Rightarrow> string \<Rightarrow> dirLayout \<Rightarrow> bool" where
  "session sha p e \<longleftrightarrow> l_path e = p \<and> layout_ok e \<and> sha_ok sha"

text \<open>The environment leaves the image alone.\<close>

definition untouched :: "string \<Rightarrow> ('z fs_scheme \<Rightarrow> 'z fs_scheme) \<Rightarrow> bool" where
  "untouched p env \<longleftrightarrow>
     (\<forall>s. wf_fs s \<longrightarrow> wf_fs (env s) \<and> (\<forall>k. prefix (comps p) k \<longrightarrow> view (env s) k = view s k))"

lemma key_files [simp]:
  "l_path e = p \<Longrightarrow> blob_key e h = blob_file p h" "l_path e = p \<Longrightarrow> ref_key e n = ref_file p n"
  "blob_file p h \<in> image_keys p" "ref_file p n \<in> image_keys p"
  by (auto simp: blob_key_def ref_key_def blob_file_def ref_file_def image_keys_def)

lemma file_names [simp]:
  "blob_file p h = blob_file p h' \<longleftrightarrow> h = h'" "ref_file p n = ref_file p n' \<longleftrightarrow> n = n'"
  "blob_file p h \<noteq> ref_file p n" "ref_file p n \<noteq> blob_file p h"
  "comps p @ [x] \<noteq> blob_file p h" "comps p @ [x] \<noteq> ref_file p h"
  by (auto simp: blob_file_def ref_file_def)

lemma image_at_mono: "image_at sha p K s \<Longrightarrow> J \<subseteq> K \<Longrightarrow> image_at sha p J s"
  by (auto simp: image_at_def)

lemma image_at_pins:
  "image_at sha p J s \<Longrightarrow> (\<And>h. Blob h \<in> K \<Longrightarrow> view s (blob_file p h) \<noteq> None) \<Longrightarrow>
   (\<And>n c. Bound n c \<in> K \<Longrightarrow> view s (ref_file p n) = Some (Some c)) \<Longrightarrow> image_at sha p K s"
  by (simp add: image_at_def)

lemma image_at_wf: "image_at sha p K s \<Longrightarrow> wf_fs s"
  by (simp add: image_at_def)

lemma image_at_same:
  assumes "image_at sha p K s" "wf_fs t" "\<And>k. prefix (comps p) k \<Longrightarrow> view t k = view s k"
  shows "image_at sha p K t"
proof -
  have "view t (blob_file p h) = view s (blob_file p h)" "view t (ref_file p h) = view s (ref_file p h)"
    "view t (comps p @ [x]) = view s (comps p @ [x])" for h x
    by (simp_all add: assms(3) blob_file_def ref_file_def del: view_simps)
  then show ?thesis using assms(1,2) unfolding image_at_def whole_image_def by metis
qed

lemma image_at_keys: "image_at sha p K s \<Longrightarrow> keys_kept p (view s) t \<Longrightarrow> image_at sha p K t"
  unfolding image_at_def keys_kept_def by (metis key_files(3,4))

lemma untouched_image: "untouched p env \<Longrightarrow> image_at sha p K s \<Longrightarrow> image_at sha p K (env s)"
  using image_at_same [of sha p K s "env s"] by (auto simp: untouched_def dest: image_at_wf)

text \<open>From the rules over views: a call that leaves the view alone, or changes it below the
  session's temporary directory only.\<close>

lemma agree_keys:
  assumes "session sha p e" "keys_kept p V s" "agree (comps (l_temp e)) (view s) t"
  shows "keys_kept p V t"
proof -
  obtain sfx where T: "comps (l_temp e) = comps p @ [''tmp-'' @ sfx]"
    using assms(1) by (auto simp: session_def layout_ok_def)
  have "\<not> prefix (comps (l_temp e)) k" if "k \<in> image_keys p \<or> k = comps p @ [layoutFile] \<or> k = comps p @ [blobDirectory]" for k
    using that by (auto simp: T image_keys_def blobDirectory_def refDirectory_def layoutFile_def)
  then show ?thesis
    using assms(2,3) unfolding keys_kept_def agree_def whole_image_def by metis
qed

lemma image_at_self: "image_at sha p K s \<Longrightarrow> keys_kept p (view s) s"
  by (simp add: keys_kept_def image_at_def)

lemma image_at_temp:
  "session sha p e \<Longrightarrow> image_at sha p K s \<Longrightarrow> agree (comps (l_temp e)) (view s) t \<Longrightarrow> image_at sha p K t"
  using agree_keys [OF _ image_at_self] image_at_keys by metis

lemma image_at_view: "image_at sha p K s \<Longrightarrow> fs_st False (view s) t \<Longrightarrow> image_at sha p K t"
  by (simp add: fs_st_def image_at_def)

lemma image_keeps_view:
  assumes "\<And>V. triple (fs_st False V) m (\<lambda>_. fs_st False V) (\<lambda>_. fs_st False V)"
  shows "keeps (image_at sha p K :: 'z fs_scheme \<Rightarrow> bool) m"
proof (rule keepsI)
  fix s :: "'z fs_scheme" assume s: "image_at sha p K s"
  then have "fs_st False (view s) s" by (simp add: fs_st_def image_at_wf)
  then show "image_at sha p K (snd (m s))"
    by (rule image_at_view [OF s triple_snd [OF assms]])
qed

section \<open>The layout's operations\<close>

lemma image_reads [keep]:
  "keeps (image_at sha p K) (os_Stat f)" "keeps (image_at sha p K) (os_Open f)"
  "keeps (image_at sha p K) (ioutil_ReadFile f)"
  by (rule image_keeps_view, rule triple_weaken [OF os_Stat_triple], auto)
    (rule image_keeps_view, rule triple_weaken [OF os_Open_triple], auto,
     rule image_keeps_view, rule triple_weaken [OF ioutil_ReadFile_triple], auto)

lemma image_read_all [keep]: "keeps (image_at sha p K) (read_all n)"
  unfolding read_all_def
  by (rule triple_syscall) (auto simp: image_at_def split: node.splits)

lemma image_file_reader [keep]: "keeps (image_at sha p K) (file_reader n)"
  by (rule keepsI) (auto simp: image_at_def file_reader_def split: node.splits list.splits option.splits)

lemma image_Exist [keep]: "keeps (image_at sha p K) (Exist e d)"
  unfolding Exist_def by (intro keep)

lemma image_GetBlob [keep]: "keeps (image_at sha p K) (GetBlob e d)"
  unfolding GetBlob_def by (intro keep)

lemma image_GetBlobPath [keep]: "keeps (image_at sha p K) (GetBlobPath e d)"
  unfolding GetBlobPath_def by (intro keep)

lemma image_GetReference [keep]: "keeps (image_at sha p K) (GetReference dec e n)"
  unfolding GetReference_def by (intro keep)

lemma image_Close [keep]:
  assumes "session sha p e"
  shows "keeps (image_at sha p K :: 'z fs_scheme \<Rightarrow> bool) (Close e)"
proof (rule keepsI)
  fix s :: "'z fs_scheme" assume s: "image_at sha p K s"
  have path: "is_path (comps (l_temp e))" using assms by (intro layout_paths) (simp add: session_def)
  have "agree (comps (l_temp e)) (view s) s" using s by (simp add: agree_def image_at_wf)
  moreover have "triple (agree (comps (l_temp e)) (view s)) (Close e)
      (\<lambda>_. agree (comps (l_temp e)) (view s)) (\<lambda>_. agree (comps (l_temp e)) (view s))"
    unfolding Close_def by (rule triple_weaken [OF os_RemoveAll_triple [OF path]]) auto
  ultimately have "agree (comps (l_temp e)) (view s) (snd (Close e s))" by (rule triple_snd [rotated])
  then show "image_at sha p K (snd (Close e s))" by (rule image_at_temp [OF assms s])
qed

text \<open>\<open>PutBlob\<close> adds the blob of the hash it returns.\<close>

lemma image_PutBlob:
  assumes e: "session sha p e"
  shows "triple (image_at sha p K :: 'z fs_scheme \<Rightarrow> bool) (PutBlob sha e rd)
     (\<lambda>(dg, n) s. \<exists>d. dg = blob_digest sha d \<and> d = fst rd \<and> image_at sha p (insert (Blob (hex_encode (sha d))) K) s \<and>
         view s (blob_file p (hex_encode (sha d))) = Some (Some d))
     (\<lambda>_. image_at sha p K)"
proof (rule tripleI)
  fix s :: "'z fs_scheme" assume s: "image_at sha p K s"
  let ?h = "hex_encode (sha (fst rd))"
  have le: "layout_ok e" "sha_ok sha" "l_path e = p" using e by (auto simp: session_def)
  have st: "fs_st False (view s) s" using s by (simp add: fs_st_def image_at_wf)
  note tr = PutBlob_triple [OF le(1,2), where c = False and V = "view s" and d = "fst rd" and err = "snd rd", simplified]
  have ok: "name_ok ?h" by (rule name_ok_sha [OF le(2)])
  have new: "image_at sha p (insert (Blob ?h) K) t \<and> view t (blob_file p ?h) = Some (Some (fst rd))"
    if "fs_st False ((view s)(blob_file p ?h \<mapsto> Some (fst rd))) t" for t :: "'z fs_scheme"
    using s that ok unfolding image_at_def fs_st_def whole_image_def by (auto simp del: view_simps)
  show "case PutBlob sha e rd s of (Inl x, t) \<Rightarrow> image_at sha p K t
      | (Inr r, t) \<Rightarrow> (case r of (dg, n) \<Rightarrow> \<lambda>s. \<exists>d. dg = blob_digest sha d \<and> d = fst rd \<and>
          image_at sha p (insert (Blob (hex_encode (sha d))) K) s \<and> view s (blob_file p (hex_encode (sha d))) = Some (Some d)) t"
  proof (cases "PutBlob sha e rd s")
    case (Pair r t)
    show ?thesis
    proof (cases r)
      case (Inl x)
      then show ?thesis using tripleD_Inl [OF tr st] Pair by (auto intro: image_at_temp [OF e s])
    next
      case (Inr q)
      then show ?thesis using tripleD_Inr [OF tr st] Pair new le(3) by (cases q) fastforce
    qed
  qed
qed

lemma image_PutBlob_keeps [keep]:
  assumes "session sha p e"
  shows "keeps (image_at sha p K) (PutBlob sha e rd)"
  by (rule triple_weaken [OF image_PutBlob [OF assms]]) (auto elim: image_at_mono split: prod.splits)

text \<open>\<open>PutReference\<close> leaves the blobs alone and binds its name.\<close>

definition ref_bound :: "(bytes \<Rightarrow> Descriptor result) \<Rightarrow> string \<Rightarrow> string \<Rightarrow> Descriptor \<Rightarrow> 'z fs_scheme \<Rightarrow> bool" where
  "ref_bound dec p n d s \<longleftrightarrow> (\<exists>b. view s (ref_file p n) = Some (Some b) \<and> dec b = Inr d)"

lemma image_PutReference:
  assumes e: "session sha p e" and n: "name_ok n" and c: "codec_ok enc dec"
  shows "triple (\<lambda>s :: 'z fs_scheme. image_at sha p K s \<and> (\<forall>h\<in>H. view s (blob_file p h) = B h)) (PutReference enc dec e n v)
     (\<lambda>_ s. image_at sha p K s \<and> (\<forall>h\<in>H. view s (blob_file p h) = B h) \<and> ref_bound dec p n v s)
     (\<lambda>_. image_at sha p K)"
proof (rule tripleI)
  fix s :: "'z fs_scheme" assume pre: "image_at sha p K s \<and> (\<forall>h\<in>H. view s (blob_file p h) = B h)"
  then have s: "image_at sha p K s" and B: "\<forall>h\<in>H. view s (blob_file p h) = B h" by auto
  have le: "layout_ok e" "l_path e = p" using e by (auto simp: session_def)
  have st: "fs_st False (view s) s" using s by (simp add: fs_st_def image_at_wf)
  have dec: "dec_ok dec" "dec (enc v) = Inr v" using c by (auto simp: codec_ok_def)
  note tr = PutReference_triple [OF le(1) n dec(1), where c = False and V = "view s" and enc = enc and d = v, simplified]
  have new: "image_at sha p K t \<and> (\<forall>h\<in>H. view t (blob_file p h) = B h) \<and> ref_bound dec p n v t"
    if "fs_st False ((view s)(ref_file p n \<mapsto> Some (enc v))) t" "view s (ref_file p n) = None" for t :: "'z fs_scheme"
    using s B that dec(2) unfolding image_at_def fs_st_def whole_image_def ref_bound_def
    by (auto simp del: view_simps)
  have old: "image_at sha p K t \<and> (\<forall>h\<in>H. view t (blob_file p h) = B h) \<and> ref_bound dec p n v t"
    if "ref_stored dec e (view s) n v" "fs_st False (view s) t" for t :: "'z fs_scheme"
    using s B that le(2) by (auto simp: image_at_def fs_st_def ref_bound_def ref_stored_def simp del: view_simps)
  show "case PutReference enc dec e n v s of (Inl x, t) \<Rightarrow> image_at sha p K t
      | (Inr u, t) \<Rightarrow> image_at sha p K t \<and> (\<forall>h\<in>H. view t (blob_file p h) = B h) \<and> ref_bound dec p n v t"
  proof (cases "PutReference enc dec e n v s")
    case (Pair r t)
    show ?thesis
    proof (cases r)
      case (Inl x)
      then show ?thesis using tripleD_Inl [OF tr st] Pair by (auto intro: image_at_temp [OF e s])
    next
      case (Inr u)
      then show ?thesis using tripleD_Inr [OF tr st] Pair new old le(2) by simp blast
    qed
  qed
qed

lemma Close_keys:
  assumes "session sha p e"
  shows "keeps (keys_kept p V :: 'z fs_scheme \<Rightarrow> bool) (Close e)"
proof (rule keepsI)
  fix s :: "'z fs_scheme" assume s: "keys_kept p V s"
  have path: "is_path (comps (l_temp e))" using assms by (intro layout_paths) (simp add: session_def)
  have "agree (comps (l_temp e)) (view s) s" using s by (simp add: agree_def keys_kept_def)
  moreover have "triple (agree (comps (l_temp e)) (view s)) (Close e)
      (\<lambda>_. agree (comps (l_temp e)) (view s)) (\<lambda>_. agree (comps (l_temp e)) (view s))"
    unfolding Close_def by (rule triple_weaken [OF os_RemoveAll_triple [OF path]]) auto
  ultimately have "agree (comps (l_temp e)) (view s) (snd (Close e s))" by (rule triple_snd [rotated])
  then show "keys_kept p V (snd (Close e s))" by (rule agree_keys [OF assms s])
qed

end
