(* ===== verification/Daemon_Rules.thy ===== *)
theory Daemon_Rules
  imports Daemon_Image
begin

text \<open>
  Rules for the daemon's handlers over \<open>image_at\<close>: the calls of the engine that touch no file, by
  an interpretation of the engine's frame; opening and closing an image; the leecher's layers,
  configuration and manifest; the calls that stop and report.
\<close>

section \<open>The engine\<close>

lemma image_at_disk:
  assumes "tree t = tree s" "inodes t = inodes s" "next_ino t = next_ino s" "rnd t = rnd s"
  shows "image_at sha p K s \<Longrightarrow> image_at sha p K t"
proof -
  have n: "node_at t = node_at s" by (rule node_at_cong [OF assms(1)])
  have "view t = view s" by (rule ext) (simp add: view_def n assms(2) cong: node.case_cong)
  moreover have "wf_fs t = wf_fs s" by (simp add: wf_fs_def n assms)
  ultimately show "image_at sha p K s \<Longrightarrow> image_at sha p K t" by (simp add: image_at_def n)
qed

interpretation images: net_frame "image_at sha p K" for sha p K
  by unfold_locales (erule image_at_disk [rotated 4];
      simp add: upd_engine_def upd_handle_def upd_client_def)+

lemma image_waitComplete:
  assumes "untouched p env"
  shows "keeps (image_at sha p K) (waitComplete env n tt)"
proof (induction n)
  case (Suc n)
  then show ?case unfolding waitComplete.simps
    by (intro keeps_bind keeps_simple keeps_cases keeps_modify) (rule untouched_image [OF assms])
qed (simp add: keeps_simple)

lemma image_StartLeecher:
  assumes "untouched p env"
  shows "keeps (image_at sha p K) (StartLeecher c env n idn d reporting)"
  unfolding StartLeecher_def
  by (intro images.guard keeps_bind keeps_simple keeps_cases keeps_modify images.set_simps keeps_wrap
      images.registering image_waitComplete assms)

text \<open>A file of the engine has a name with its extension, whatever the ID.\<close>

lemma split_on_last: "slash \<notin> set y \<Longrightarrow> \<exists>us z. slash \<notin> set z \<and> split_on slash (x @ y) = us @ [z @ y]"
proof -
  assume y: "slash \<notin> set y"
  show ?thesis
  proof (cases "slash \<in> set x")
    case True
    then obtain a b where "x = a @ slash # b" "slash \<notin> set b" by (metis split_list_last)
    moreover then have "split_on slash (x @ y) = split_on slash a @ [b @ y]"
      using y by (simp add: split_on_append_sep split_on_no_sep)
    ultimately show ?thesis by blast
  next
    case False
    then show ?thesis using y by (auto simp: split_on_no_sep)
  qed
qed

lemma comps_last:
  assumes "slash \<notin> set y" "\<And>z. slash \<notin> set z \<Longrightarrow> name_ok (z @ y)"
  shows "\<exists>us z. comps (Clean (x @ y)) = us @ [z @ y]"
proof -
  obtain us z where z: "slash \<notin> set z" and s: "split_on slash (x @ y) = us @ [z @ y]" using split_on_last [OF assms(1)] by blast
  have "y \<noteq> []" using assms(2) [of "[]"] by (simp add: name_ok_def)
  then have "comps (Clean (x @ y)) = (if rooted (x @ y) then [[]] else []) @ clean_elems (rooted (x @ y)) [] (us @ [z @ y])"
    by (subst comps_Clean) (simp_all add: s)
  moreover have "clean_elems r st [z @ y] = rev st @ [z @ y]" for r st
    using assms(2) [OF z] by (simp add: name_ok_def)
  ultimately show ?thesis by (auto simp: clean_elems_append)
qed

lemma engine_file_ext:
  "\<exists>us z. comps (GetFilePath e idn) = us @ [z @ ''.layer'']"
  "\<exists>us z. comps (GetTorrentFilePath e idn) = us @ [z @ ''.torrent'']"
proof -
  have J: "\<exists>u. Join [r, d, idn @ y] = Clean (u @ y)" if "d \<noteq> []" for r d y
  proof (cases "r = []")
    case True
    then have "Join [r, d, idn @ y] = Clean ((d @ slash # idn) @ y)" using that by (simp add: Join_def)
    then show ?thesis ..
  next
    case False
    then have "Join [r, d, idn @ y] = Clean ((r @ slash # d @ slash # idn) @ y)" by (simp add: Join_def)
    then show ?thesis ..
  qed
  obtain u where u: "GetFilePath e idn = Clean (u @ ''.layer'')"
    using J [of "''data''"] by (auto simp: GetFilePath_def)
  show "\<exists>us z. comps (GetFilePath e idn) = us @ [z @ ''.layer'']"
    unfolding u by (rule comps_last) (auto simp: name_ok_def append_eq_Cons_conv)
  obtain v where v: "GetTorrentFilePath e idn = Clean (v @ ''.torrent'')"
    using J [of "''torrents''"] by (auto simp: GetTorrentFilePath_def)
  show "\<exists>us z. comps (GetTorrentFilePath e idn) = us @ [z @ ''.torrent'']"
    unfolding v by (rule comps_last) (auto simp: name_ok_def append_eq_Cons_conv)
qed

section \<open>Opening and closing\<close>

lemma ociRootDir_paths: "image_paths (Join [ociRootDir root, x])"
proof -
  have "ociRootDir root \<noteq> []"
    by (cases "root = []") (simp_all add: ociRootDir_def Join_def)
  then show ?thesis by (simp add: image_paths_def Join_Clean)
qed

lemma dest_paths:
  "buildOciDestFromReference root r = Inr (p, tag) \<Longrightarrow> image_paths p"
  "buildOciDestSimple root q = Inr (p, tag) \<Longrightarrow> image_paths p"
proof -
  have m: "p = Join [ociRootDir root, x]" if "map_sum id (\<lambda>tag. (Join [ociRootDir root, x], tag)) w = (Inr (p, tag) :: (string \<times> string) result)" for x w
    using that by (cases w) auto
  show "buildOciDestFromReference root r = Inr (p, tag) \<Longrightarrow> image_paths p"
    by (auto simp: buildOciDestFromReference_def ociRootDir_paths split: option.splits dest!: m)
  show "buildOciDestSimple root q = Inr (p, tag) \<Longrightarrow> image_paths p"
    by (auto simp: buildOciDestSimple_def ociRootDir_paths dest!: m)
qed

lemma Open_image:
  assumes "image_paths p" "sha_ok sha"
  shows "triple (image_at sha p K :: 'z fs_scheme \<Rightarrow> bool) (Open p)
     (\<lambda>e s. session sha p e \<and> image_at sha p K s) (\<lambda>_. image_at sha p K)"
proof (rule tripleI)
  fix s :: "'z fs_scheme" assume s: "image_at sha p K s"
  have k: "keys_kept p (view s) s" using s by (simp add: keys_kept_def image_at_def)
  note tr = newDirLayout_keys [OF assms(1), where V = "view s"]
  show "case Open p s of (Inl x, t) \<Rightarrow> image_at sha p K t | (Inr e, t) \<Rightarrow> session sha p e \<and> image_at sha p K t"
  proof (cases "newDirLayout p s")
    case (Pair r t)
    then show ?thesis
      using tripleD_Inr [OF tr k] tripleD_Inl [OF tr k] image_at_keys [OF s] assms(2)
      by (cases r) (auto simp: Open_def session_def)
  qed
qed

definition oci_session :: "(bytes \<Rightarrow> bytes) \<Rightarrow> string \<Rightarrow> string \<Rightarrow> OciImage \<Rightarrow> bool" where
  "oci_session sha p tag i \<longleftrightarrow> oi_path i = p \<and> oi_ref i = tag \<and> session sha p (oi_layout i)"

lemma newOciImage_triple:
  assumes "buildOciDestFromReference root r = Inr (p, tag)" "sha_ok sha"
  shows "triple (image_at sha p K) (newOciImage root r)
     (\<lambda>i s. oci_session sha p tag i \<and> image_at sha p K s) (\<lambda>_. image_at sha p K)"
proof -
  have *: "newOciImage root r = bindE (Open p) (\<lambda>layout. returnE \<lparr>oi_path = p, oi_ref = tag, oi_layout = layout\<rparr>)"
    by (simp add: newOciImage_def assms(1))
  show ?thesis unfolding *
    by (rule triple_bind [OF Open_image [OF dest_paths(1) [OF assms(1)] assms(2)]])
      (auto intro!: triple_return simp: oci_session_def)
qed

lemma newOciImageSimple_triple:
  assumes "buildOciDestSimple root r = Inr (p, tag)" "sha_ok sha"
  shows "triple (image_at sha p K) (newOciImageSimple root r)
     (\<lambda>i s. oci_session sha p tag i \<and> image_at sha p K s) (\<lambda>_. image_at sha p K)"
proof -
  have *: "newOciImageSimple root r = bindE (Open p) (\<lambda>layout. returnE \<lparr>oi_path = p, oi_ref = tag, oi_layout = layout\<rparr>)"
    by (simp add: newOciImageSimple_def assms(1))
  show ?thesis unfolding *
    by (rule triple_bind [OF Open_image [OF dest_paths(2) [OF assms(1)] assms(2)]])
      (auto intro!: triple_return simp: oci_session_def)
qed

lemma image_OciImage_Close [keep]:
  "oci_session sha p tag i \<Longrightarrow> keeps (image_at sha p K) (OciImage_Close i)"
  unfolding OciImage_Close_def oci_session_def by (intro image_Close) simp

section \<open>The leecher\<close>

text \<open>The blobs a list of digests asks for.\<close>

definition hashes :: "string list \<Rightarrow> pin set" where
  "hashes ds = {k. \<exists>h. k = Blob h \<and> name_ok h \<and> digest_of h \<in> set ds}"

lemma hashes_Nil [simp]: "hashes [] = {}"
  by (simp add: hashes_def)

lemma hashes_Cons: "hashes (d # ds) = hashes [d] \<union> hashes ds"
  by (auto simp: hashes_def)

lemma hashes_digest: "hashes [blob_digest sha d] \<subseteq> {Blob (hex_encode (sha d))}"
  by (auto simp: hashes_def blob_digest_def)

lemma image_Exist_true:
  assumes e: "session sha p e"
  shows "triple (image_at sha p K :: 'z fs_scheme \<Rightarrow> bool) (Exist e d)
     (\<lambda>b. image_at sha p (if b then K \<union> hashes [d] else K)) (\<lambda>_. image_at sha p K)"
proof (cases "\<exists>h. name_ok h \<and> d = digest_of h")
  case False
  then have "hashes [d] = {}" by (auto simp: hashes_def)
  then have "(if b then K \<union> hashes [d] else K) = K" for b by simp
  then show ?thesis by (simp only: image_Exist)
next
  case True
  then obtain h where h: "name_ok h" "d = digest_of h" by blast
  have le: "layout_ok e" "l_path e = p" using e by (auto simp: session_def)
  show ?thesis
  proof (rule tripleI)
    fix s :: "'z fs_scheme" assume s: "image_at sha p K s"
    have st: "fs_st False (view s) s" using s by (simp add: fs_st_def image_at_wf)
    note tr = Exist_triple [OF le(1) h(1), where c = False and V = "view s", folded h(2)]
    have new: "image_at sha p (K \<union> hashes [d]) t"
      if "fs_st False (view s) t" "view s (blob_file p h) \<noteq> None" for t :: "'z fs_scheme"
      using s that h(2) by (auto simp: image_at_def fs_st_def hashes_def simp del: view_simps)
    show "case Exist e d s of (Inl x, t) \<Rightarrow> image_at sha p K t
        | (Inr b, t) \<Rightarrow> image_at sha p (if b then K \<union> hashes [d] else K) t"
    proof (cases "Exist e d s")
      case (Pair r t)
      then show ?thesis
        using tripleD_Inr [OF tr st] tripleD_Inl [OF tr st] new [of t] image_at_view [OF s, of t] le(2)
        by (cases r) (auto simp del: view_simps)
    qed
  qed
qed

lemma image_leech_put:
  assumes e: "session sha p e"
  shows "triple (image_at sha p K) (bindE (wrapE msg (PutBlob sha e rd)) (\<lambda>(digest, n).
      if digest \<noteq> d then throwE (err digest) else returnE x))
    (\<lambda>y s. y = x \<and> image_at sha p (K \<union> hashes [d]) s) (\<lambda>_. image_at sha p K)"
proof (rule triple_bind [OF triple_wrap [OF image_PutBlob [OF e]]], goal_cases)
  case (1 q)
  obtain dg n where q: "q = (dg, n)" by (cases q)
  have sub: "hashes [blob_digest sha c] \<subseteq> {Blob (hex_encode (sha c))}" for c by (rule hashes_digest)
  show ?case unfolding q prod.case
    by (intro triple_if triple_throw triple_return)
      (use sub [of "fst rd"] in \<open>auto elim: image_at_mono\<close>)
qed

lemma image_leeching_layer:
  assumes e: "session (lib_sha L) p (oi_layout i)" and env: "untouched p env" and cfg: "\<not> c_UseHardlink cfg"
  shows "triple (image_at (lib_sha L) p K) (startLeechingLayer cfg L env fuel reporting i layer)
     (\<lambda>b. image_at (lib_sha L) p (if b then K \<union> hashes [bi_Digest layer] else K)) (\<lambda>_. image_at (lib_sha L) p K)"
proof -
  let ?I = "image_at (lib_sha L) p K"
  note put = image_leech_put [OF e]
  have lift: "triple ?I (liftE r) (\<lambda>_. ?I) (\<lambda>_. ?I)" for r :: "'b result" by (rule keeps_simple)
  have opn: "triple ?I (wrapE w (os_Open f)) (\<lambda>_. ?I) (\<lambda>_. ?I)" for w f by (intro keep)
  show ?thesis
    unfolding startLeechingLayer_def cfg [THEN eq_False [THEN iffD2]] if_False
    by (rule triple_bind [OF keeps_simple(3)], rule triple_bind [OF keeps_simple(3)],
        rule triple_bind [OF image_StartLeecher [OF env]], rule triple_if, rule triple_return, simp,
        rule triple_bind [OF keeps_simple(4)], rule triple_bind [OF opn],
        rule triple_bind [OF image_file_reader], rule triple_weaken [OF put]) auto
qed

lemma image_leech_layers:
  assumes e: "session (lib_sha L) p (oi_layout i)" and env: "untouched p env" and cfg: "\<not> c_UseHardlink cfg"
  shows "triple (image_at (lib_sha L) p K) (leech_layers cfg L env fuel reporting i layers)
     (\<lambda>b. image_at (lib_sha L) p (if b then K \<union> hashes (map bi_Digest layers) else K))
     (\<lambda>_. image_at (lib_sha L) p K)"
proof (induction layers arbitrary: K)
  case Nil
  show ?case by (auto intro: triple_return)
next
  case (Cons l ls)
  let ?I = "image_at (lib_sha L) p" and ?h = "hashes [bi_Digest l]"
  have U: "hashes (bi_Digest l # map bi_Digest ls) = ?h \<union> hashes (map bi_Digest ls)" by (rule hashes_Cons)
  have rest: "triple (?I (K \<union> ?h)) (leech_layers cfg L env fuel reporting i ls)
      (\<lambda>b. ?I (if b then K \<union> hashes (map bi_Digest (l # ls)) else K)) (\<lambda>_. ?I K)"
    by (rule triple_weaken [OF Cons.IH [of "K \<union> ?h"]]) (auto simp: U Un_assoc elim: image_at_mono split: if_splits)
  show ?case unfolding leech_layers.simps
  proof (rule triple_bind [OF triple_wrap [OF image_Exist_true [OF e]]], goal_cases)
    case (1 ok)
    show ?case
    proof (cases ok)
      case True
      then show ?thesis using rest by simp
    next
      case False
      have "triple (?I K) (bindE (startLeechingLayer cfg L env fuel reporting i l) (\<lambda>returned.
          if returned then leech_layers cfg L env fuel reporting i ls else returnE False))
        (\<lambda>b. ?I (if b then K \<union> hashes (map bi_Digest (l # ls)) else K)) (\<lambda>_. ?I K)"
      proof (rule triple_bind [OF image_leeching_layer [OF e env cfg]], goal_cases)
        case (1 returned)
        show ?case using rest by (cases returned) (auto intro: triple_return)
      qed
      then show ?thesis using False by simp
    qed
  qed
qed

lemma image_pull_config:
  assumes e: "session (lib_sha L) p (oi_layout i)"
  shows "triple (image_at (lib_sha L) p K) (pull_config L i img)
     (\<lambda>_. image_at (lib_sha L) p (K \<union> hashes [bi_Digest (ConfigInfo img)])) (\<lambda>_. image_at (lib_sha L) p K)"
proof (cases "bi_Digest (ConfigInfo img) = []")
  case True
  then show ?thesis by (simp add: pull_config_def hashes_def triple_return)
next
  case False
  have "triple (image_at (lib_sha L) p K) (bindE (PutBlob (lib_sha L) (oi_layout i) rd) (\<lambda>(digest, n).
      if digest \<noteq> d then throwE (err digest) else returnE ()))
    (\<lambda>_. image_at (lib_sha L) p (K \<union> hashes [d])) (\<lambda>_. image_at (lib_sha L) p K)" for rd d err
  proof (rule triple_bind [OF image_PutBlob [OF e]], goal_cases)
    case (1 q)
    show ?case
      by (cases q, simp only: prod.case, intro triple_if triple_throw triple_return)
        (use hashes_digest [of "lib_sha L" "fst rd"] in \<open>auto elim: image_at_mono\<close>)
  qed
  then show ?thesis using False
    by (simp add: pull_config_def Let_def) (rule triple_bind [OF keeps_simple(3)])
qed

text \<open>The manifest is stored as an OCI manifest, and the tag bound to its blob.\<close>

definition manifest_stored :: "libs \<Rightarrow> string \<Rightarrow> string \<Rightarrow> bytes \<Rightarrow> 'z fs_scheme \<Rightarrow> bool" where
  "manifest_stored L p tag raw s \<longleftrightarrow>
     (\<exists>m mt. createOciManifest L raw = Inr (m, mt) \<and>
        view s (blob_file p (hex_encode (lib_sha L m))) = Some (Some m) \<and>
        ref_bound (desc_dec L) p tag
          \<lparr>desc_MediaType = mt, desc_Digest = blob_digest (lib_sha L) m, desc_Size = int (length m)\<rparr> s)"

lemma manifest_stored_keys:
  "manifest_stored L p tag raw s \<Longrightarrow> keys_kept p (view s) t \<Longrightarrow> manifest_stored L p tag raw t"
  unfolding manifest_stored_def ref_bound_def keys_kept_def by (metis key_files(3,4))

lemma image_putManifest:
  assumes i: "oci_session (lib_sha L) p tag i" and tag: "name_ok tag" and c: "codec_ok (desc_enc L) (desc_dec L)"
  shows "triple (image_at (lib_sha L) p K) (putManifest L i raw)
     (\<lambda>_ s. image_at (lib_sha L) p K s \<and> manifest_stored L p tag raw s) (\<lambda>_. image_at (lib_sha L) p K)"
proof -
  let ?I = "image_at (lib_sha L) p K"
  have e: "session (lib_sha L) p (oi_layout i)" and r: "oi_ref i = tag" using i by (auto simp: oci_session_def)
  show ?thesis
  proof (cases "createOciManifest L raw")
    case (Inl x)
    then show ?thesis by (simp add: putManifest_def triple_throw)
  next
    case (Inr q)
    obtain m mt where q: "q = (m, mt)" by (cases q)
    let ?h = "hex_encode (lib_sha L m)"
    let ?M = "\<lambda>s. ?I s \<and> (\<forall>h\<in>{?h}. view s (blob_file p h) = Some (Some m))"
    show ?thesis
    proof (cases "manifest_Digest L m")
      case (Inl x)
      then show ?thesis using Inr q by (simp add: putManifest_def triple_throw)
    next
      case dg: (Inr dg)
      have put: "triple ?I (PutBlob (lib_sha L) (oi_layout i) (m, None))
          (\<lambda>(d, n) s. d = blob_digest (lib_sha L) m \<and> ?M s) (\<lambda>_. ?I)"
        by (rule triple_weaken [OF image_PutBlob [OF e]]) (auto elim: image_at_mono)
      have ref: "triple ?M (PutReference (desc_enc L) (desc_dec L) (oi_layout i) tag v)
          (\<lambda>_ s. ?M s \<and> ref_bound (desc_dec L) p tag v s) (\<lambda>_. ?I)" for v
        by (rule triple_weaken [OF image_PutReference [OF e tag c, where H = "{?h}" and B = "\<lambda>_. Some (Some m)"]]) auto
      have step: "triple (\<lambda>s. d = blob_digest (lib_sha L) m \<and> ?M s)
          (if d \<noteq> dg then throwE (err d) else PutReference (desc_enc L) (desc_dec L) (oi_layout i) tag
             \<lparr>desc_MediaType = mt, desc_Digest = dg, desc_Size = int (length m)\<rparr>)
          (\<lambda>_ s. ?I s \<and> manifest_stored L p tag raw s) (\<lambda>_. ?I)" for d err
      proof (cases "d = dg")
        case True
        then show ?thesis
          by (intro triple_assume, simp)
            (rule triple_weaken [OF ref], auto simp: manifest_stored_def Inr q)
      qed (auto intro: triple_throw)
      show ?thesis
        unfolding putManifest_def Inr q dg r bindE_lift prod.case
        by (rule triple_bind [OF put], rule triple_case_prod) (simp only: prod.case, rule step)
    qed
  qed
qed

end
