(* ===== verification/Daemon_Handlers.thy ===== *)
theory Daemon_Handlers
  imports Daemon_Rules
begin

text \<open>
  The handlers of the daemon and the image's invariant: a whole leecher download, the calls that
  stop and report, and their frames for the engine's invariant.
\<close>

section \<open>A download\<close>

lemma triple_deferB:
  "triple P m Q' R' \<Longrightarrow> (\<And>s. Q' False s \<Longrightarrow> Q False s) \<Longrightarrow> (\<And>s. Q' True s \<Longrightarrow> Q True (snd (fin s))) \<Longrightarrow>
   (\<And>e s. R' e s \<Longrightarrow> R e (snd (fin s))) \<Longrightarrow> triple P (deferB fin m) Q R"
  by (fastforce simp: triple_def deferB_def split: prod.splits sum.splits bool.splits)

definition leeched :: "libs \<Rightarrow> string \<Rightarrow> string \<Rightarrow> Image \<Rightarrow> 'z fs_scheme \<Rightarrow> bool" where
  "leeched L p tag img s \<longleftrightarrow>
     image_at (lib_sha L) p (hashes (bi_Digest (ConfigInfo img) # map bi_Digest (LayerInfos img))) s \<and>
     (\<exists>raw. ImageManifest img = Inr raw \<and> manifest_stored L p tag raw s)"

lemma leeched_Close:
  assumes "oci_session (lib_sha L) p tag i" "leeched L p tag img s"
  shows "leeched L p tag img (snd (OciImage_Close i s))"
proof -
  have e: "session (lib_sha L) p (oi_layout i)" using assms(1) by (simp add: oci_session_def)
  have "keys_kept p (view s) s" using assms(2) by (auto simp: leeched_def intro: image_at_self)
  then have "keys_kept p (view s) (snd (OciImage_Close i s))"
    unfolding OciImage_Close_def by (rule keepsD [OF Close_keys [OF e]])
  then show ?thesis
    using assms(2) unfolding leeched_def by (meson image_at_keys manifest_stored_keys)
qed

lemma leech_download_triple:
  assumes "ParseImageName L source = Inr ref" "NewImage ref (getSystemContext ctx) = Inr img"
    and dst: "buildOciDestFromReference (c_Root cfg) ref = Inr (p, tag)"
    and sha: "sha_ok (lib_sha L)" and codec: "codec_ok (desc_enc L) (desc_dec L)" and tag: "name_ok tag"
    and env: "untouched p env" and cfg: "\<not> c_UseHardlink cfg"
  shows "triple (image_at (lib_sha L) p K) (startLeecherDownload cfg L env fuel reporting ctx source)
     (\<lambda>b s. image_at (lib_sha L) p K s \<and> (b \<longrightarrow> leeched L p tag img s)) (\<lambda>_. image_at (lib_sha L) p K)"
proof (cases "source = []")
  case True
  then show ?thesis by (simp add: startLeecherDownload_def triple_throw)
next
  case False
  let ?I = "image_at (lib_sha L) p" and ?H = "hashes (map bi_Digest (LayerInfos img))"
  let ?c = "hashes [bi_Digest (ConfigInfo img)]"
  define body where "body i = bindE (leech_layers cfg L env fuel reporting i (LayerInfos img)) (\<lambda>returned.
           if \<not> returned then returnE False
           else
             bindE (pull_config L i img) (\<lambda>_.
             bindE (wrapE ''Error reading manifest'' (liftE (ImageManifest img))) (\<lambda>manifest.
             bindE (wrapE ''Error writing manifest'' (putManifest L i manifest)) (\<lambda>_.
             returnE True))))" for i
  have weak: "?I (K \<union> ?H \<union> ?c) s \<Longrightarrow> ?I K s" "?I (K \<union> ?H) s \<Longrightarrow> ?I K s" for s
    by (auto elim: image_at_mono)
  have full: "leeched L p tag img s" if "?I (K \<union> ?H \<union> ?c) s" "manifest_stored L p tag raw s" "ImageManifest img = Inr raw" for s raw
    using that by (auto simp: leeched_def hashes_Cons [of _ "map bi_Digest (LayerInfos img)"] elim: image_at_mono)
  have man: "triple (?I J) (wrapE w (liftE (ImageManifest img)))
      (\<lambda>raw s. ImageManifest img = Inr raw \<and> ?I J s) (\<lambda>_. ?I J)" for w J
    by (rule triple_wrap, rule triple_lift) auto
  have rest: "triple (?I (K \<union> ?H)) (bindE (pull_config L i img) (\<lambda>_.
             bindE (wrapE ''Error reading manifest'' (liftE (ImageManifest img))) (\<lambda>manifest.
             bindE (wrapE ''Error writing manifest'' (putManifest L i manifest)) (\<lambda>_.
             returnE True))))
      (\<lambda>b s. ?I K s \<and> (b \<longrightarrow> leeched L p tag img s)) (\<lambda>_. ?I K)"
    if i: "oci_session (lib_sha L) p tag i" for i
  proof -
    have e: "session (lib_sha L) p (oi_layout i)" using i by (simp add: oci_session_def)
    have put: "triple (\<lambda>s. ImageManifest img = Inr m \<and> ?I (K \<union> ?H \<union> ?c) s)
        (bindE (wrapE w (putManifest L i m)) (\<lambda>_. returnE True))
        (\<lambda>b s. ?I K s \<and> (b \<longrightarrow> leeched L p tag img s)) (\<lambda>_. ?I K)" for m w
    proof (rule triple_assume)
      assume m: "ImageManifest img = Inr m"
      show "triple (?I (K \<union> ?H \<union> ?c)) (bindE (wrapE w (putManifest L i m)) (\<lambda>_. returnE True))
        (\<lambda>b s. ?I K s \<and> (b \<longrightarrow> leeched L p tag img s)) (\<lambda>_. ?I K)"
        by (rule triple_bind [where M = "\<lambda>_ s. ?I (K \<union> ?H \<union> ?c) s \<and> manifest_stored L p tag m s"],
            rule triple_wrap, rule triple_weaken [OF image_putManifest [OF i tag codec, where K = "K \<union> ?H \<union> ?c"]])
          (auto intro!: triple_return intro: weak full m)
    qed
    show ?thesis
      by (rule triple_bind [where M = "\<lambda>_. ?I (K \<union> ?H \<union> ?c)"], rule triple_weaken [OF image_pull_config [OF e, where K = "K \<union> ?H"]])
        (auto intro: weak triple_bind [OF triple_weaken [OF man] put])
  qed
  have body: "triple (?I K) (body i) (\<lambda>b s. ?I K s \<and> (b \<longrightarrow> leeched L p tag img s)) (\<lambda>_. ?I K)"
    if i: "oci_session (lib_sha L) p tag i" for i
    unfolding body_def
  proof (rule triple_bind [OF image_leech_layers [OF _ env cfg]], goal_cases)
    case 1
    show ?case using i by (simp add: oci_session_def)
  next
    case (2 b)
    show ?case using rest [OF i] by (cases b) (auto intro: triple_return)
  qed
  have "startLeecherDownload cfg L env fuel reporting ctx source =
      bindE (newOciImage (c_Root cfg) ref) (\<lambda>i. deferB (OciImage_Close i) (body i))"
    using False assms(1,2) by (simp add: startLeecherDownload_def Let_def body_def fun_eq_iff bindE_def wrapE_def catchE_def tryE_def run)
  moreover have "triple (\<lambda>s. oci_session (lib_sha L) p tag i \<and> ?I K s) (deferB (OciImage_Close i) (body i))
      (\<lambda>b s. ?I K s \<and> (b \<longrightarrow> leeched L p tag img s)) (\<lambda>_. ?I K)" for i
  proof (rule triple_assume)
    assume i: "oci_session (lib_sha L) p tag i"
    show "triple (?I K) (deferB (OciImage_Close i) (body i)) (\<lambda>b s. ?I K s \<and> (b \<longrightarrow> leeched L p tag img s)) (\<lambda>_. ?I K)"
      by (rule triple_deferB [OF body [OF i]])
        (auto intro: leeched_Close [OF i] keepsD [OF image_OciImage_Close [OF i]])
  qed
  ultimately show ?thesis
    by (simp only:) (rule triple_bind [OF newOciImage_triple [OF dst sha]])
qed

section \<open>The image under the other calls\<close>

text \<open>The pins that no removal of an engine's file hits: the engine's files end in \<open>.layer\<close> or \<open>.torrent\<close>.\<close>

definition lasting :: "pin set \<Rightarrow> bool" where
  "lasting K \<longleftrightarrow> (\<forall>h. Blob h \<in> K \<longrightarrow> name_ok h) \<and>
     (\<forall>n c. Bound n c \<in> K \<longrightarrow> \<not> suffix ''.layer'' n \<and> \<not> suffix ''.torrent'' n)"

lemma hex_no_ext: "z @ dot # x \<noteq> hex_encode d"
proof
  assume "z @ dot # x = hex_encode d"
  then have "dot \<in> set (hex_encode d)" by (metis in_set_conv_decomp)
  then show False using hex_encode_chars by blast
qed

definition engine_file :: "string list \<Rightarrow> bool" where
  "engine_file k \<longleftrightarrow> (\<exists>us z. k = us @ [z @ ''.layer''] \<or> k = us @ [z @ ''.torrent''])"

lemma engine_file_apart:
  assumes "engine_file k"
  shows "k \<noteq> comps p @ [blobDirectory]" "k \<noteq> comps p @ [layoutFile]" "k \<noteq> blob_file p (hex_encode d)"
    "k = ref_file p n \<Longrightarrow> suffix ''.layer'' n \<or> suffix ''.torrent'' n"
proof -
  obtain us z x where k: "k = us @ [z @ dot # x]" "dot # x = ''.layer'' \<or> dot # x = ''.torrent''"
    using assms by (auto simp: engine_file_def)
  then show "k \<noteq> comps p @ [blobDirectory]" "k \<noteq> comps p @ [layoutFile]"
    by (auto simp: blobDirectory_def layoutFile_def append_eq_Cons_conv)
  show "k \<noteq> blob_file p (hex_encode d)"
    using hex_no_ext [of z x d] by (simp add: k blob_file_def)
  show "suffix ''.layer'' n \<or> suffix ''.torrent'' n" if "k = ref_file p n"
    using that k(2) by (auto simp: k(1) ref_file_def suffix_def)
qed

lemma image_Remove:
  assumes f: "engine_file (comps f)" and K: "lasting K"
  shows "keeps (image_at sha p K :: 'z fs_scheme \<Rightarrow> bool) (os_Remove f)"
proof (rule keepsI)
  fix s :: "'z fs_scheme" assume s: "image_at sha p K s"
  have st: "fs_st False (view s) s" using s by (simp add: fs_st_def image_at_wf)
  have bl: "comps f \<noteq> blob_file p h" if "Blob h \<in> K" for h
  proof -
    have "name_ok h" "view s (blob_file p h) \<noteq> None" using K s that by (auto simp: lasting_def image_at_def)
    then obtain d where "h = hex_encode (sha d)" using s unfolding image_at_def by (metis not_Some_eq)
    then show ?thesis using engine_file_apart(3) [OF f] by simp
  qed
  have rf: "comps f \<noteq> ref_file p n" if "Bound n c \<in> K" for n c
    using engine_file_apart(4) [OF f, of p n] K that unfolding lasting_def by blast
  have new: "image_at sha p K t" if "fs_st False ((view s)(comps f := None)) t" for t :: "'z fs_scheme"
    using s that bl [THEN not_sym] rf [THEN not_sym] engine_file_apart(1) [OF f, THEN not_sym] unfolding image_at_def fs_st_def whole_image_def
    by (auto simp del: view_simps)
  note tr = os_Remove_triple [where c = False and V = "view s" and p = f]
  show "image_at sha p K (snd (os_Remove f s))"
  proof (cases "os_Remove f s")
    case (Pair r t)
    then show ?thesis
      using tripleD_Inr [OF tr st] tripleD_Inl [OF tr st] by (cases r) (auto intro: new image_at_view [OF s])
  qed
qed

lemma engine_file_paths: "engine_file (comps (GetFilePath e idn))" "engine_file (comps (GetTorrentFilePath e idn))"
  unfolding engine_file_def using engine_file_ext by metis+

lemma keeps_get_bind:
  assumes "\<And>s. keeps I (f (g s))"
  shows "keeps I (bindE (getE g) f)"
proof (rule keepsI)
  fix s assume "I s"
  then have "I (snd (f (g s) s))" by (rule keepsD [OF assms])
  then show "I (snd (bindE (getE g) f s))" by (simp add: bindE_def run)
qed

lemma image_remove_quiet: "engine_file (comps f) \<Longrightarrow> lasting K \<Longrightarrow> keeps (image_at sha p K) (remove_quiet w f)"
  unfolding remove_quiet_def by (intro keeps_catch image_Remove keeps_cases keeps_simple)

lemma image_DeleteTorrent: "lasting K \<Longrightarrow> keeps (image_at sha p K) (DeleteTorrent idn)"
  unfolding DeleteTorrent_def
  by (intro images.guard keeps_bind [OF keeps_simple(4)] keeps_cases keeps_simple)
    (intro keeps_bind [OF keeps_wrap [OF images.uncaching]] keeps_bind [OF keeps_modify] images.engine keeps_get_bind
      keeps_bind image_remove_quiet engine_file_paths)

lemma image_stop_layers: "lasting K \<Longrightarrow> keeps (image_at sha p K) (stop_layers clean layers)"
  by (induction layers)
    (simp_all add: keeps_simple keeps_bind images.stopping keeps_when keeps_catch image_DeleteTorrent)

lemma image_layer_status: "keeps (image_at sha p K) (layer_status layer)"
  unfolding layer_status_def by (intro keeps_bind keeps_simple keeps_try images.reporting keeps_cases)

lemma image_getOciImageLayers [keep]: "keeps (image_at sha p K) (getOciImageLayers L i)"
  unfolding getOciImageLayers_def by (intro keep)

text \<open>A request about the image \<open>p\<close>.\<close>

definition about :: "Config \<Rightarrow> libs \<Rightarrow> string \<Rightarrow> string \<Rightarrow> bool" where
  "about cfg L p source \<longleftrightarrow>
     (\<forall>r q tag. ParseImageName L source = Inr r \<longrightarrow> buildOciDestFromReference (c_Root cfg) r = Inr (q, tag) \<longrightarrow>
        q = p \<and> name_ok tag) \<and>
     (\<forall>r q tag. buildNamedTagged source = Inr r \<longrightarrow> buildOciDestSimple (c_Root cfg) r = Inr (q, tag) \<longrightarrow>
        q = p \<and> name_ok tag)"

lemma image_with_image:
  assumes "about cfg L p source" "sha_ok sha" and body: "\<And>i. keeps (image_at sha p K) (body i)"
  shows "keeps (image_at sha p K) (with_image cfg source body)"
proof -
  have "keeps (image_at sha p K) (bindE (newOciImageSimple (c_Root cfg) r) (\<lambda>i. deferE (OciImage_Close i) (body i)))"
    if r: "buildNamedTagged source = Inr r" for r
  proof (cases "buildOciDestSimple (c_Root cfg) r")
    case (Inl x)
    then show ?thesis by (simp add: newOciImageSimple_def keeps_simple)
  next
    case (Inr q)
    then obtain tag where q: "buildOciDestSimple (c_Root cfg) r = Inr (p, tag)"
      using assms(1) r by (cases q) (auto simp: about_def)
    show ?thesis
    proof (rule triple_bind [OF newOciImageSimple_triple [OF q assms(2)]], goal_cases)
      case (1 i)
      show ?case by (rule triple_assume) (intro keeps_defer body image_OciImage_Close)
    qed
  qed
  then show ?thesis
    unfolding with_image_def by (cases "buildNamedTagged source") (auto intro: keeps_simple)
qed

lemma image_StopDownload:
  "about cfg L p source \<Longrightarrow> sha_ok sha \<Longrightarrow> lasting K \<Longrightarrow> keeps (image_at sha p K) (StopDownload cfg L source clean)"
  unfolding StopDownload_def by (intro image_with_image keeps_bind image_getOciImageLayers image_stop_layers)

lemma image_Status:
  "about cfg L p source \<Longrightarrow> sha_ok sha \<Longrightarrow> keeps (image_at sha p K) (daemon_Status cfg L source)"
  unfolding daemon_Status_def
  by (intro image_with_image keeps_bind image_getOciImageLayers keeps_map image_layer_status)

lemma image_GetTorrent: "keeps (image_at sha p K) (daemon_GetTorrent L idn)"
  unfolding daemon_GetTorrent_def engine_GetTorrent_def
  by (intro images.guard keeps_bind keeps_simple keeps_cases keeps_wrap images.lookup)

lemma image_StartDownload:
  assumes "about cfg L p (sd_Source r)" "sha_ok (lib_sha L)" "codec_ok (desc_enc L) (desc_dec L)" "untouched p env"
    "\<not> c_UseHardlink cfg" "\<not> c_BtSeeder cfg"
  shows "keeps (image_at (lib_sha L) p K) (StartDownload cfg L env fuel ctx r)"
proof -
  let ?I = "image_at (lib_sha L) p K"
  have "keeps ?I (startLeecherDownload cfg L env fuel reporting ctx (sd_Source r))" for reporting
  proof (cases "\<exists>ref img q. ParseImageName L (sd_Source r) = Inr ref \<and> NewImage ref (getSystemContext ctx) = Inr img \<and>
      buildOciDestFromReference (c_Root cfg) ref = Inr q")
    case True
    then obtain ref img p' tag where r: "ParseImageName L (sd_Source r) = Inr ref" "NewImage ref (getSystemContext ctx) = Inr img"
      "buildOciDestFromReference (c_Root cfg) ref = Inr (p', tag)" by fastforce
    then have "p' = p" "name_ok tag" using assms(1) by (auto simp: about_def)
    then have d: "buildOciDestFromReference (c_Root cfg) ref = Inr (p, tag)" using r(3) by simp
    show ?thesis
      by (rule triple_weaken [OF leech_download_triple [OF r(1,2) d assms(2,3) \<open>name_ok tag\<close> assms(4,5)]]) auto
  next
    case False
    then show ?thesis
      unfolding startLeecherDownload_def Let_def newOciImage_def
      by (cases "ParseImageName L (sd_Source r)"; cases "NewImage (projr (ParseImageName L (sd_Source r))) (getSystemContext ctx)";
          cases "buildOciDestFromReference (c_Root cfg) (projr (ParseImageName L (sd_Source r)))")
        (auto simp: triple_def run wrapE_def catchE_def tryE_def bindE_def)
  qed
  then show ?thesis unfolding StartDownload_def Let_def using assms(6)
    by (simp add: keeps_bind keeps_when keeps_simple)
qed

section \<open>The engine's invariant under every handler\<close>

lemma layout_more [keep]:
  "keeps (\<lambda>s. fs.more s = M) (PutBlob sha e rd)" "keeps (\<lambda>s. fs.more s = M) (Exist e d)"
  "keeps (\<lambda>s. fs.more s = M) (GetBlob e d)" "keeps (\<lambda>s. fs.more s = M) (GetBlobPath e d)"
  "keeps (\<lambda>s. fs.more s = M) (GetReference dec e n)" "keeps (\<lambda>s. fs.more s = M) (PutReference enc dec e n v)"
  "keeps (\<lambda>s. fs.more s = M) (Close e)"
  unfolding PutBlob_def Exist_def GetBlob_def GetBlobPath_def GetReference_def PutReference_def Close_def Let_def
  by (intro keep)+

lemma file_reader_more [keep]: "keeps (\<lambda>s. fs.more s = M) (file_reader n)"
  by (rule keepsI) (auto simp: file_reader_def split: node.splits list.splits option.splits)

lemma Open_more [keep]: "keeps (\<lambda>s. fs.more s = M) (Open p)"
  unfolding Open_def newDirLayout_def initialize_def Let_def by (intro keep)

lemma io_Copy_more [keep]: "keeps (\<lambda>s. fs.more s = M) (io_Copy fh rd)"
  unfolding io_Copy_def by (intro keep)

lemma oci_more [keep]:
  "keeps (\<lambda>s. fs.more s = M) (newOciImage root r)" "keeps (\<lambda>s. fs.more s = M) (newOciImageSimple root q)"
  "keeps (\<lambda>s. fs.more s = M) (OciImage_Close i)" "keeps (\<lambda>s. fs.more s = M) (putManifest L i raw)"
  "keeps (\<lambda>s. fs.more s = M) (getOciImageLayers L i)" "keeps (\<lambda>s. fs.more s = M) (copyLayer L i src l)"
  "keeps (\<lambda>s. fs.more s = M) (pull_config L i img)"
  unfolding newOciImage_def newOciImageSimple_def OciImage_Close_def putManifest_def getOciImageLayers_def
    copyLayer_def pull_config_def Let_def
  by (intro keep)+

lemma bt_inv_oci [keep]:
  "keeps bt_inv (PutBlob sha e rd)" "keeps bt_inv (Exist e d)" "keeps bt_inv (GetBlob e d)"
  "keeps bt_inv (GetBlobPath e d)" "keeps bt_inv (file_reader n)" "keeps bt_inv (io_Copy fh rd)"
  "keeps bt_inv (os_Open f)" "keeps bt_inv (os_Link f g)"
  "keeps bt_inv (newOciImage root r)" "keeps bt_inv (newOciImageSimple root q)" "keeps bt_inv (OciImage_Close i)"
  "keeps bt_inv (putManifest L i raw)" "keeps bt_inv (getOciImageLayers L i)" "keeps bt_inv (copyLayer L i src l)"
  "keeps bt_inv (pull_config L i img)"
  by (intro keeps_bt_inv_fs keep)+

lemma keeps_deferB [keep]: "keeps I m \<Longrightarrow> keeps I fin \<Longrightarrow> keeps I (deferB fin m)"
  by (erule triple_deferB) (auto dest: keepsD)

lemma bt_inv_seed_layer: "codec_laws (lib_torrent L) \<Longrightarrow> keeps bt_inv (seed_layer cfg L i src l)"
  unfolding seed_layer_def startSeedingLayer_def by (intro keep)

lemma bt_inv_leech_layers:
  assumes laws: "codec_laws (lib_torrent L)" and env: "\<And>s. bt_inv s \<Longrightarrow> bt_inv (env s)"
  shows "keeps bt_inv (leech_layers cfg L env fuel reporting i layers)"
proof -
  have "keeps bt_inv (startLeechingLayer cfg L env fuel reporting i l)" for l
    unfolding startLeechingLayer_def by (intro keep StartLeecher_inv env laws)
  then show ?thesis by (induction layers) (auto intro!: keep)
qed

lemma bt_inv_StartDownload:
  assumes laws: "codec_laws (lib_torrent L)" and env: "\<And>s. bt_inv s \<Longrightarrow> bt_inv (env s)"
  shows "keeps bt_inv (StartDownload cfg L env fuel ctx r)"
  unfolding StartDownload_def startSeederDownload_def startLeecherDownload_def Let_def
  by (intro keep bt_inv_leech_layers bt_inv_seed_layer env laws)

lemma bt_inv_with_image: "(\<And>i. keeps bt_inv (body i)) \<Longrightarrow> keeps bt_inv (with_image cfg source body)"
  unfolding with_image_def by (intro keep)

lemma bt_inv_StopDownload: "keeps bt_inv (StopDownload cfg L source clean)"
proof -
  have "keeps bt_inv (stop_layers clean layers)" for layers
    by (induction layers) (auto intro!: keep StopTorrent_inv)
  then show ?thesis unfolding StopDownload_def by (intro bt_inv_with_image keep)
qed

lemma bt_inv_Status: "keeps bt_inv (daemon_Status cfg L source)"
proof -
  have "keeps bt_inv (layer_status layer)" for layer
    unfolding layer_status_def by (intro keep GetStatus_inv)
  then show ?thesis unfolding daemon_Status_def by (intro bt_inv_with_image keep)
qed

lemma bt_inv_GetTorrent: "keeps bt_inv (daemon_GetTorrent L idn)"
proof (rule keepsI)
  fix s :: "'a bt_scheme" assume s: "bt_inv s"
  have "snd (daemon_GetTorrent L idn s) = s"
    by (auto simp: daemon_GetTorrent_def engine_GetTorrent_def when_started_def getTorrent_def bindE_def wrapE_def
        catchE_def tryE_def run split: option.splits sum.splits prod.splits)
  then show "bt_inv (snd (daemon_GetTorrent L idn s))" using s by simp
qed

end
