(* ===== verification/Api_Server.thy ===== *)
theory Api_Server
  imports Daemon_Handlers
begin

text \<open>
  The API, api/grpc/server/server.go with version/version.go: the five methods of the service as
  one dispatch over requests, each handed to the daemon as it is, and the runs of a server that
  handles one request after the other. \<open>commit\<close> is the revision the linker fills in.
\<close>

definition VersionMajor :: int where "VersionMajor = 0"
definition VersionMinor :: int where "VersionMinor = 2"
definition VersionPatch :: int where "VersionPatch = 2"

definition Version :: string where
  "Version = Itoa VersionMajor @ ''.'' @ Itoa VersionMinor @ ''.'' @ Itoa VersionPatch"

datatype api_request =
    GetServerVersionRequest
  | StartRequest go_context StartDownloadRequest
  | StopRequest string bool
  | GetTorrentRequest string
  | StatusRequest string

datatype api_response =
    GetServerVersionResponse int int int string
  | StartResponse bool
  | StopResponse "string list"
  | GetTorrentResponse bytes
  | StatusResponse "LayerDownState list"

definition apiServer ::
  "Config \<Rightarrow> libs \<Rightarrow> string \<Rightarrow> ('z bt_scheme \<Rightarrow> 'z bt_scheme) \<Rightarrow> nat \<Rightarrow> api_request \<Rightarrow> ('z bt_scheme, api_response) call"
where
  "apiServer cfg L commit env fuel q =
     (case q of
        GetServerVersionRequest \<Rightarrow>
          returnE (GetServerVersionResponse VersionMajor VersionMinor VersionPatch commit)
      | StartRequest ctx r \<Rightarrow> bindE (StartDownload cfg L env fuel ctx r) (\<lambda>b. returnE (StartResponse b))
      | StopRequest source clean \<Rightarrow> bindE (StopDownload cfg L source clean) (\<lambda>ids. returnE (StopResponse ids))
      | GetTorrentRequest idn \<Rightarrow> bindE (daemon_GetTorrent L idn) (\<lambda>t. returnE (GetTorrentResponse t))
      | StatusRequest source \<Rightarrow> bindE (daemon_Status cfg L source) (\<lambda>ss. returnE (StatusResponse ss)))"

text \<open>The states of a server: requests and, between them, steps of the environment.\<close>

inductive served ::
  "Config \<Rightarrow> libs \<Rightarrow> string \<Rightarrow> ('z bt_scheme \<Rightarrow> 'z bt_scheme) \<Rightarrow> 'z bt_scheme \<Rightarrow> api_request list \<Rightarrow> 'z bt_scheme \<Rightarrow> bool"
  for cfg L commit env s
where
  start: "served cfg L commit env s [] s"
| request: "served cfg L commit env s qs t \<Longrightarrow> apiServer cfg L commit env fuel q t = (r, u) \<Longrightarrow>
    served cfg L commit env s (qs @ [q]) u"
| between: "served cfg L commit env s qs t \<Longrightarrow> served cfg L commit env s qs (env t)"

fun source_of :: "api_request \<Rightarrow> string option" where
  "source_of (StartRequest ctx r) = Some (sd_Source r)"
| "source_of (StopRequest source clean) = Some source"
| "source_of (StatusRequest source) = Some source"
| "source_of _ = None"

text \<open>A leecher that copies: the mode in which no file of the image has a second name.\<close>

definition leecher_mode :: "Config \<Rightarrow> bool" where
  "leecher_mode cfg \<longleftrightarrow> \<not> c_UseHardlink cfg \<and> \<not> c_BtSeeder cfg"

definition libs_ok :: "libs \<Rightarrow> bool" where
  "libs_ok L \<longleftrightarrow> sha_ok (lib_sha L) \<and> codec_ok (desc_enc L) (desc_dec L) \<and> codec_laws (lib_torrent L)"

lemma bt_inv_apiServer:
  assumes "libs_ok L" "\<And>s. bt_inv s \<Longrightarrow> bt_inv (env s)"
  shows "keeps bt_inv (apiServer cfg L commit env fuel q)"
proof -
  have "codec_laws (lib_torrent L)" using assms(1) by (simp add: libs_ok_def)
  from bt_inv_StartDownload [OF this assms(2)] show ?thesis
    unfolding apiServer_def
    by (cases q) (auto intro!: keeps_bind keeps_simple bt_inv_StopDownload bt_inv_Status bt_inv_GetTorrent)
qed

end
