(* ===== verification/Daemon_Runs.thy ===== *)
theory Daemon_Runs
  imports Api_Server
begin

text \<open>
  Runs of the daemon's calls without faults: opening an image, finding its layers, storing a
  manifest. They are what the examples of the development are made of.
\<close>

lemma Open_total:
  assumes "image_paths p" "has_parent V p" "V (comps p) = Some None" "V (comps p @ [layoutFile]) \<noteq> None"
    and "fs_st True V s" "names_left p V s"
  obtains e t where "Open p s = (Inr e, t)" "opens p V e t"
proof -
  have ini: "triple (fs_st True V) (initialize \<lparr>l_path = p, l_temp = []\<rparr>) (\<lambda>_. fs_st True V) (\<lambda>_ _. False)"
    using assms(1-4) by (intro initialize_existing) simp_all
  have tr: "triple (\<lambda>s. fs_st True V s \<and> names_left p V s) (newDirLayout p) (\<lambda>e. opens p V e) (\<lambda>_ _. False)"
    by (rule newDirLayout_triple [OF assms(1,3) refl ini])
  have pre: "fs_st True V s \<and> names_left p V s" using assms(5,6) by simp
  show ?thesis
  proof (cases "newDirLayout p s")
    case (Pair r t)
    then show ?thesis
      using tripleD_Inr [OF tr pre] tripleD_Inl [OF tr pre] that by (cases r) (auto simp: Open_def)
  qed
qed

text \<open>An image that opens: no faults, its directory and layout file in place, a name for the temporary directory left.\<close>

definition openable :: "string \<Rightarrow> 'z fs_scheme \<Rightarrow> bool" where
  "openable p s \<longleftrightarrow> faults s = [] \<and> has_parent (view s) p \<and> view s (comps p) = Some None \<and>
     view s (comps p @ [layoutFile]) \<noteq> None \<and> names_left p (view s) s"

text \<open>A session whose temporary directory is empty, over a view \<open>V\<close> with the image's directories.\<close>

definition ready :: "string \<Rightarrow> dirLayout \<Rightarrow> (string list \<Rightarrow> bytes option option) \<Rightarrow> bool" where
  "ready p e V \<longleftrightarrow> l_path e = p \<and> layout_ok e \<and> layout_dirs e V \<and> (\<forall>x. V (comps (l_temp e) @ [x]) = None)"

lemma opens_ready:
  assumes "opens p V e t" "wf_fs s" "V = view s" "V (comps p @ [blobDirectory, BlobAlgorithm]) = Some None"
    "V (comps p @ [refDirectory]) = Some None"
  shows "ready p e (V(comps (l_temp e) \<mapsto> None))"
proof -
  have "node_at s (comps (l_temp e) @ [x]) = None" for x
    using wf_fs_no_child [OF assms(2), of "comps (l_temp e)" "[x]"] assms(1,3) by (auto simp: opens_def)
  then show ?thesis using assms by (auto simp: ready_def opens_def layout_dirs_def)
qed

lemma ready_upd:
  assumes "ready p e V" "k \<in> image_keys p" "layout_dirs e (V(k := v))"
  shows "ready p e (V(k := v))"
proof -
  obtain sfx where "comps (l_temp e) = comps p @ [''tmp-'' @ sfx]" using assms(1) by (auto simp: ready_def layout_ok_def)
  then have "comps (l_temp e) @ [x] \<noteq> k" for x
    using assms(2) by (auto simp: image_keys_def blobDirectory_def refDirectory_def)
  then show ?thesis using assms by (auto simp: ready_def)
qed

lemma putManifest_total:
  assumes r: "ready p (oi_layout i) V" and L: "libs_ok L" and tag: "name_ok (oi_ref i)"
    and m: "createOciManifest L raw = Inr (m, mt)" "manifest_Digest L m = Inr (blob_digest (lib_sha L) m)"
    and s: "fs_st True V s" and V: "V (blob_file p (hex_encode (lib_sha L m))) \<noteq> Some None" "V (ref_file p (oi_ref i)) = None"
  shows "\<exists>t. putManifest L i raw s = (Inr (), t)"
proof -
  let ?e = "oi_layout i" and ?b = "blob_file p (hex_encode (lib_sha L m))"
  have e: "layout_ok ?e" "l_path ?e = p" "layout_dirs ?e V" and free: "\<And>x. V (comps (l_temp ?e) @ [x]) = None"
    using r by (auto simp: ready_def)
  have sha: "sha_ok (lib_sha L)" and dec: "dec_ok (desc_dec L)" using L by (auto simp: libs_ok_def codec_ok_def)
  note tr = PutBlob_triple [OF e(1) sha, where c = True and V = V and d = m and err = None, simplified]
  have pre: "fs_st True V s \<and> layout_dirs ?e V \<and> temp_free ?e ''blob-'' V s \<and> V (blob_file (l_path ?e) (hex_encode (lib_sha L m))) \<noteq> Some None"
    using s e V free by (auto simp: temp_free_def intro: exI [of _ 0])
  obtain q u where q: "PutBlob (lib_sha L) ?e (m, None) s = (q, u)" by fastforce
  have "\<exists>d n. q = Inr (d, n)"
  proof (cases q)
    case (Inl x)
    then have "PutBlob (lib_sha L) ?e (m, None) s = (Inl x, u)" using q by simp
    from tripleD_Inl [OF tr pre this] show ?thesis by simp
  qed auto
  then obtain d n where "PutBlob (lib_sha L) ?e (m, None) s = (Inr (d, n), u)" using q by auto
  from tripleD_Inr [OF tr pre this] this e(2)
  have put: "PutBlob (lib_sha L) ?e (m, None) s = (Inr (blob_digest (lib_sha L) m, length m), u)"
    and u: "fs_st True (V(?b \<mapsto> Some m)) u" by simp_all
  have dirs: "layout_dirs ?e (V(?b \<mapsto> Some m))"
    using e(3) layout_paths(5) [OF e(1), of "hex_encode (lib_sha L m)"] e(2)
    by (auto simp: layout_dirs_def blob_file_def blobDirectory_def refDirectory_def)
  have r1: "ready p ?e (V(?b \<mapsto> Some m))" by (rule ready_upd [OF r _ dirs]) simp
  let ?W = "V(?b \<mapsto> Some m)"
  note tr2 = PutReference_triple [OF e(1) tag dec, where c = True and V = ?W and enc = "desc_enc L", simplified]
  have pre2: "fs_st True ?W u \<and> layout_dirs ?e ?W \<and> temp_free ?e (''ref.'' @ oi_ref i @ ''-'') ?W u"
    using u dirs r1 by (auto simp: temp_free_def ready_def intro: exI [of _ 0])
  have none: "?W (ref_key ?e (oi_ref i)) = None" using V(2) e(2) by simp
  have ref: "\<exists>t. PutReference (desc_enc L) (desc_dec L) ?e (oi_ref i) d u = (Inr (), t)" for d
  proof (cases "PutReference (desc_enc L) (desc_dec L) ?e (oi_ref i) d u")
    case (Pair z t)
    then show ?thesis using tripleD_Inl [OF tr2, of u] pre2 none by (cases z) fastforce+
  qed
  show ?thesis using ref put m by (simp add: putManifest_def)
qed

lemma Exist_present:
  assumes e: "layout_ok e" "l_path e = p" and dirs: "layout_dirs e V" and h: "name_ok h" "V (blob_file p h) \<noteq> None"
    and s: "fs_st True V s"
  shows "\<exists>u. Exist e (digest_of h) s = (Inr True, u) \<and> fs_st True V u \<and> fs.more u = fs.more s"
proof -
  note tr = Exist_triple [OF e(1) h(1), where c = True and V = V]
  obtain r u where x: "Exist e (digest_of h) s = (r, u)" by fastforce
  show ?thesis
  proof (cases r)
    case (Inl y)
    then have "Exist e (digest_of h) s = (Inl y, u)" using x by simp
    from tripleD_Inl [OF tr s this] dirs show ?thesis by simp
  next
    case (Inr b)
    then have "Exist e (digest_of h) s = (Inr b, u)" using x by simp
    moreover from this have "fs.more u = fs.more s"
      using keepsD [OF layout_more(2) [where M = "fs.more s" and e = e and d = "digest_of h"], of s] by simp
    ultimately show ?thesis using tripleD_Inr [OF tr s, of b u] h(2) e(2) by simp
  qed
qed

lemma leech_layers_present:
  assumes e: "session (lib_sha L) p (oi_layout i)" and dirs: "layout_dirs (oi_layout i) V"
    and l: "\<And>l. l \<in> set layers \<Longrightarrow> \<exists>h. name_ok h \<and> bi_Digest l = digest_of h \<and> V (blob_file p h) \<noteq> None"
    and s: "fs_st True V s"
  shows "\<exists>t. leech_layers cfg L env fuel reporting i layers s = (Inr True, t) \<and> fs_st True V t \<and> fs.more t = fs.more s"
  using l s
proof (induction layers arbitrary: s)
  case (Cons l ls)
  obtain h where h: "name_ok h" "bi_Digest l = digest_of h" "V (blob_file p h) \<noteq> None" using Cons.prems(1) by fastforce
  have le: "layout_ok (oi_layout i)" "l_path (oi_layout i) = p" using e by (auto simp: session_def)
  obtain u where ok: "Exist (oi_layout i) (digest_of h) s = (Inr True, u)" and u: "fs_st True V u" and m: "fs.more u = fs.more s"
    using Exist_present [OF le dirs h(1,3) Cons.prems(2)] by blast
  from Cons.IH [OF _ u] Cons.prems(1) obtain t where "leech_layers cfg L env fuel reporting i ls u = (Inr True, t)" "fs_st True V t" "fs.more t = fs.more u"
    by auto
  then show ?case using ok h(2) m by simp
qed (simp add: run)

end
