(* ===== verification/Daemon_Demo.thy ===== *)
theory Daemon_Demo
  imports Daemon_Runs Oci_Properties Bt_Status Bt_Registry Bt_Files
begin

text \<open>
  A small daemon on which the properties of the daemon are instantiated: the running engine of
  \<open>Bt_Demo\<close> next to the directory of one image, a registry that serves one layer, codecs with
  the laws the code relies on.
\<close>

definition demo_digest :: string where
  "demo_digest = blob_digest demo_sha ''abc''"

definition demo_manifest :: Manifest where
  "demo_manifest =
     \<lparr>m_SchemaVersion = 2, m_MediaType = MediaTypeImageManifest,
      m_Config = \<lparr>desc_MediaType = MediaTypeImageConfig, desc_Digest = demo_digest, desc_Size = 3\<rparr>,
      m_Layers = [\<lparr>desc_MediaType = MediaTypeImageLayer, desc_Digest = demo_digest, desc_Size = 3\<rparr>],
      m_Annotations = None\<rparr>"

definition demo_img :: Image where
  "demo_img =
     \<lparr>LayerInfos = [\<lparr>bi_Digest = demo_digest, bi_Size = 3\<rparr>], ConfigInfo = \<lparr>bi_Digest = [], bi_Size = 0\<rparr>,
      ConfigBlob = Inr [], ImageManifest = Inr ''m''\<rparr>"

definition demo_ref :: "string \<Rightarrow> ImageReference" where
  "demo_ref x =
     \<lparr>DockerReference = Some (TaggedRef x ''v1''), NewImage = (\<lambda>_. Inr demo_img),
      NewImageSource = (\<lambda>_ _. Inr (\<lambda>_. Inr (''abc'', None)))\<rparr>"

definition demo_libs :: libs where
  "demo_libs =
     \<lparr>lib_sha = demo_sha, desc_enc = demo_enc, desc_dec = demo_dec,
      man_enc = (\<lambda>om. if om = demo_manifest then Inr ''m'' else Inl (Msg ''json'')),
      man_dec = (\<lambda>b. if b = ''m'' then Inr demo_manifest else Inl (Msg ''json'')),
      meta_dec = (\<lambda>b. Inr (MediaTypeImageManifest, 2, False)), sig_payload = (\<lambda>b. Inr b),
      lib_torrent = demo_torrents, newImage = (\<lambda>_ _. Inr demo_img),
      newImageSource = (\<lambda>_ _ _. Inr (\<lambda>_. Inr (''abc'', None))), transports = (\<lambda>_. None), grpc_Dial = (\<lambda>_. Inr ()),
      peer_GetTorrent = (\<lambda>_ _ _. Inr (put_metainfo demo_mi)), open_Stdout = (\<lambda>_. Inr ())\<rparr>"

definition demo_cfg :: Config where
  "demo_cfg =
     \<lparr>c_Pidfile = [], c_Root = ''root'', c_ConnTimeout = 1, c_UseHardlink = False, c_BtEnable = True,
      c_BtSeeder = False, c_BtTrackers = [''tr''], c_BtSeederServer = [''tcp://seeder''], c_UploadRateLimit = 0,
      c_DownloadRateLimit = 0\<rparr>"

definition demo_path :: string where "demo_path = ''root/oci/library/x''"

definition demo_daemon :: bt where
  "demo_daemon =
     demo_bt\<lparr>tree := tree demo_bt @
        [([''root'', ''oci''], Dir), ([''root'', ''oci'', ''library''], Dir), ([''root'', ''oci'', ''library'', ''x''], Dir),
         ([''root'', ''oci'', ''library'', ''x'', ''blobs''], Dir),
         ([''root'', ''oci'', ''library'', ''x'', ''blobs'', ''sha256''], Dir),
         ([''root'', ''oci'', ''library'', ''x'', ''refs''], Dir),
         ([''root'', ''oci'', ''library'', ''x'', ''oci-layout''], File 3)],
       inodes := (inodes demo_bt)(3 := layout_json), next_ino := 4\<rparr>"

lemma demo_dest:
  "buildOciDestFromReference ''root'' (demo_ref ''x'') = Inr (demo_path, ''v1'')"
  "buildOciDestSimple ''root'' (TaggedRef ''x'' ''v1'') = Inr (demo_path, ''v1'')"
  "buildNamedTagged ''x:v1'' = Inr (TaggedRef ''x'' ''v1'')"
proof -
  have r: "RemoteName (TaggedRef ''x'' ''v1'') = ''library/x''" by code_simp
  have p: "Join [ociRootDir ''root'', ''library/x''] = demo_path" by code_simp
  show "buildOciDestFromReference ''root'' (demo_ref ''x'') = Inr (demo_path, ''v1'')"
    by (simp add: buildOciDestFromReference_def demo_ref_def WithDefaultTag_def r p)
  show "buildOciDestSimple ''root'' (TaggedRef ''x'' ''v1'') = Inr (demo_path, ''v1'')"
    by (simp add: buildOciDestSimple_def r p)
  have "ParseNamed ''x:v1'' = Inr (TaggedRef ''x'' ''v1'')" by code_simp
  then show "buildNamedTagged ''x:v1'' = Inr (TaggedRef ''x'' ''v1'')"
    by (simp add: buildNamedTagged_def WithDefaultTag_def)
qed

text \<open>The names of the image: that of its registry for a download, that without a transport afterwards.\<close>

lemma demo_names:
  "ParseImageName demo_libs ''docker://x:v1'' = Inr (demo_ref ''x'')"
  "\<exists>e. ParseImageName demo_libs ''x:v1'' = Inl e" "\<exists>e. buildNamedTagged ''docker://x:v1'' = Inl e"
proof -
  have "ParseNamed ''x:v1'' = Inr (TaggedRef ''x'' ''v1'')" by code_simp
  then show "ParseImageName demo_libs ''docker://x:v1'' = Inr (demo_ref ''x'')"
    by (simp add: ParseImageName_def SplitN2_def docker_ParseReference_def TrimPrefix_def NewReference_def WithDefaultTag_def
        demo_ref_def demo_libs_def)
  show "\<exists>e. ParseImageName demo_libs ''x:v1'' = Inl e"
    by (simp add: ParseImageName_def SplitN2_def demo_libs_def)
  have "ParseNamed ''docker://x:v1'' = Inl (Msg ''Error parsing reference: not a valid repository/tag'')" by code_simp
  then show "\<exists>e. buildNamedTagged ''docker://x:v1'' = Inl e" by (simp add: buildNamedTagged_def)
qed

lemma demo_about: "about demo_cfg demo_libs demo_path ''docker://x:v1''" "about demo_cfg demo_libs demo_path ''x:v1''"
  using demo_dest demo_names by (auto simp: about_def demo_cfg_def name_ok_def)

lemma demo_libs_laws: "libs_ok demo_libs"
  by (simp add: libs_ok_def demo_libs_def demo_sha_ok demo_codec demo_torrents_laws)

lemma demo_comps_path: "comps demo_path = [''root'', ''oci'', ''library'', ''x'']"
  by code_simp

lemma demo_daemon_tree:
  "tree demo_daemon =
     [([''root''], Dir), ([''root'', ''torrents''], Dir), ([''root'', ''data''], Dir),
      ([''root'', ''torrents'', ''a.torrent''], File 0), ([''root'', ''data'', ''a.layer''], File 1),
      ([''root'', ''data'', ''b.layer''], File 2),
      ([''root'', ''oci''], Dir), ([''root'', ''oci'', ''library''], Dir), ([''root'', ''oci'', ''library'', ''x''], Dir),
      ([''root'', ''oci'', ''library'', ''x'', ''blobs''], Dir),
      ([''root'', ''oci'', ''library'', ''x'', ''blobs'', ''sha256''], Dir),
      ([''root'', ''oci'', ''library'', ''x'', ''refs''], Dir),
      ([''root'', ''oci'', ''library'', ''x'', ''oci-layout''], File 3)]"
  by (simp add: demo_daemon_def demo_bt_def demo_new_def upd_engine_def)

lemma demo_daemon_simps [simp]:
  "engine demo_daemon = engine demo_bt" "faults demo_daemon = []" "gos demo_daemon = []"
  "rnd demo_daemon = (\<lambda>n. replicate n CHR ''0'')" "next_ino demo_daemon = 4" "handles demo_daemon = handles demo_bt"
  by (simp_all add: demo_daemon_def demo_bt_def demo_new_def upd_engine_def)

lemma demo_daemon_wf: "wf_fs demo_daemon"
  unfolding wf_fs_def demo_daemon_tree
  by (auto simp: demo_daemon_tree is_path_def node_at_def split: if_splits)

lemma demo_daemon_inv: "bt_inv demo_daemon"
  by (simp add: bt_inv_def handles_ok_def client_Torrent_def demo_daemon_def demo_bt_def demo_new_def upd_engine_def NewBtEngine_def)

lemma demo_files:
  "blob_file demo_path h = [''root'', ''oci'', ''library'', ''x'', ''blobs'', ''sha256'', h]"
  "ref_file demo_path n = [''root'', ''oci'', ''library'', ''x'', ''refs'', n]"
  by (simp_all add: blob_file_def ref_file_def demo_comps_path blobDirectory_def BlobAlgorithm_def refDirectory_def)

lemma demo_daemon_nodes:
  "node_at demo_daemon (blob_file demo_path h) = None" "node_at demo_daemon (ref_file demo_path n) = None"
  "node_at demo_daemon (comps demo_path @ [blobDirectory]) = Some Dir"
  "node_at demo_daemon (comps demo_path @ [blobDirectory, BlobAlgorithm]) = Some Dir"
  "node_at demo_daemon (comps demo_path @ [refDirectory]) = Some Dir"
  "node_at demo_daemon (comps demo_path) = Some Dir"
  "node_at demo_daemon (comps demo_path @ [layoutFile]) = Some (File 3)"
  by (simp_all add: demo_files node_at_def demo_daemon_tree demo_comps_path blobDirectory_def BlobAlgorithm_def
      refDirectory_def layoutFile_def)

lemma demo_daemon_image: "image_at demo_sha demo_path {} demo_daemon"
  by (simp add: image_at_def demo_daemon_wf whole_image_def demo_daemon_nodes)

lemma demo_untouched: "untouched p (\<lambda>s. s)"
  by (simp add: untouched_def)

text \<open>The same daemon with the layer stored in the image.\<close>

definition demo_stored :: bt where
  "demo_stored = append_to 4 ''abc'' (snd (new_file (blob_file demo_path (hex_encode (demo_sha ''abc''))) demo_daemon))"

lemma demo_stored_simps [simp]:
  "engine demo_stored = engine demo_bt" "faults demo_stored = []" "gos demo_stored = []"
  "rnd demo_stored = (\<lambda>n. replicate n CHR ''0'')" "inodes demo_stored 4 = ''abc''"
  "handles demo_stored = handles demo_bt"
  by (simp_all add: demo_stored_def new_file_def append_to_def set_node_def)

lemma demo_stored_node:
  "node_at demo_stored k = (if k = blob_file demo_path (hex_encode (demo_sha ''abc'')) then Some (File 4) else node_at demo_daemon k)"
proof -
  have "is_path (blob_file demo_path h)" for h by (simp add: demo_files is_path_def)
  then show ?thesis by (simp add: demo_stored_def new_file_def append_to_def)
qed

lemma demo_stored_nodes:
  "node_at demo_stored (blob_file demo_path h) = (if h = hex_encode (demo_sha ''abc'') then Some (File 4) else None)"
  "node_at demo_stored (ref_file demo_path n) = None"
  "node_at demo_stored (comps demo_path @ [blobDirectory]) = Some Dir"
  "node_at demo_stored (comps demo_path @ [blobDirectory, BlobAlgorithm]) = Some Dir"
  "node_at demo_stored (comps demo_path @ [refDirectory]) = Some Dir"
  "node_at demo_stored (comps demo_path) = Some Dir"
  "node_at demo_stored (comps demo_path @ [layoutFile]) = Some (File 3)"
proof -
  have "comps demo_path @ [blobDirectory, BlobAlgorithm] \<noteq> blob_file demo_path h" "comps demo_path \<noteq> blob_file demo_path h" for h
    by (simp_all add: blob_file_def)
  then show "node_at demo_stored (blob_file demo_path h) = (if h = hex_encode (demo_sha ''abc'') then Some (File 4) else None)"
    "node_at demo_stored (ref_file demo_path n) = None"
    "node_at demo_stored (comps demo_path @ [blobDirectory]) = Some Dir"
    "node_at demo_stored (comps demo_path @ [blobDirectory, BlobAlgorithm]) = Some Dir"
    "node_at demo_stored (comps demo_path @ [refDirectory]) = Some Dir"
    "node_at demo_stored (comps demo_path) = Some Dir"
    "node_at demo_stored (comps demo_path @ [layoutFile]) = Some (File 3)"
    by (simp_all add: demo_stored_node demo_daemon_nodes)
qed

lemma demo_stored_wf: "wf_fs demo_stored"
proof -
  let ?k = "blob_file demo_path (hex_encode (demo_sha ''abc''))"
  have "butlast ?k = comps demo_path @ [blobDirectory, BlobAlgorithm]" by (simp add: blob_file_def butlast_append)
  then have "wf_fs (snd (new_file ?k demo_daemon))"
    by (intro new_file_props(2) [OF demo_daemon_wf, where r = "Inr (next_ino demo_daemon)"])
      (simp_all add: demo_daemon_nodes new_file_def)
  then show ?thesis by (simp add: demo_stored_def append_to_def)
qed

lemma demo_stored_inv: "bt_inv demo_stored"
  using demo_daemon_inv by (simp add: bt_inv_def handles_ok_def client_Torrent_def demo_stored_def new_file_def append_to_def set_node_def)

lemma demo_stored_view: "view demo_stored (blob_file demo_path h) = (if h = hex_encode (demo_sha ''abc'') then Some (Some ''abc'') else None)"
  by (simp add: view_def demo_stored_nodes)

lemma demo_stored_image: "image_at demo_sha demo_path {} demo_stored"
proof -
  have "view demo_stored (ref_file demo_path n) = None" "view demo_stored (comps demo_path @ [blobDirectory]) = Some None" for n
    by (simp_all add: demo_stored_nodes)
  then show ?thesis
    by (auto simp: image_at_def demo_stored_wf whole_image_def demo_stored_view simp del: view_simps split: if_splits)
qed

lemma demo_stored_open:
  obtains e t where "Open demo_path demo_stored = (Inr e, t)" "opens demo_path (view demo_stored) e t"
    "ready demo_path e ((view demo_stored)(comps (l_temp e) \<mapsto> None))"
    "fs_st True ((view demo_stored)(comps (l_temp e) \<mapsto> None)) t"
proof -
  have p: "image_paths demo_path" unfolding image_paths_def by code_simp
  have d: "comps (filepath_Dir demo_path) = [''root'', ''oci'', ''library'']" by code_simp
  have "node_at demo_stored [''root'', ''oci'', ''library''] = Some Dir"
    by (simp add: demo_stored_node demo_files) (simp add: node_at_def demo_daemon_tree)
  then have par: "has_parent (view demo_stored) demo_path" by (simp add: has_parent_def d demo_comps_path)
  have "node_at demo_stored (comps demo_path @ [''tmp-'']) = None"
    by (simp add: demo_stored_node demo_comps_path demo_files) (simp add: node_at_def demo_daemon_tree)
  then have free: "names_left demo_path (view demo_stored) demo_stored"
    by (auto simp: names_left_def intro: exI [of _ 0])
  have st: "fs_st True (view demo_stored) demo_stored" by (simp add: fs_st_def demo_stored_wf)
  obtain e t where o: "Open demo_path demo_stored = (Inr e, t)" "opens demo_path (view demo_stored) e t"
    by (rule Open_total [OF p par _ _ st free]) (simp_all add: demo_stored_nodes)
  have "ready demo_path e ((view demo_stored)(comps (l_temp e) \<mapsto> None))"
    by (rule opens_ready [OF o(2) demo_stored_wf refl]) (simp_all add: demo_stored_nodes)
  then show ?thesis using that o by (simp add: opens_def)
qed

text \<open>The image of the daemon, opened: what is at its keys is what was.\<close>

lemma demo_open_keys:
  assumes "ready demo_path e ((view demo_stored)(comps (l_temp e) \<mapsto> None))"
  shows "((view demo_stored)(comps (l_temp e) \<mapsto> None)) (blob_file demo_path h) =
      (if h = hex_encode (demo_sha ''abc'') then Some (Some ''abc'') else None)"
    "((view demo_stored)(comps (l_temp e) \<mapsto> None)) (ref_file demo_path n) = None"
proof -
  have ne: "comps (l_temp e) \<notin> image_keys demo_path"
    using assms by (auto simp: ready_def layout_ok_def)
  have "((view demo_stored)(comps (l_temp e) \<mapsto> None)) (blob_file demo_path h) = view demo_stored (blob_file demo_path h)"
    using ne by (metis fun_upd_other key_files(3))
  then show "((view demo_stored)(comps (l_temp e) \<mapsto> None)) (blob_file demo_path h) =
      (if h = hex_encode (demo_sha ''abc'') then Some (Some ''abc'') else None)"
    unfolding demo_stored_view .
  have "((view demo_stored)(comps (l_temp e) \<mapsto> None)) (ref_file demo_path n) = view demo_stored (ref_file demo_path n)"
    using ne by (metis fun_upd_other key_files(4))
  then show "((view demo_stored)(comps (l_temp e) \<mapsto> None)) (ref_file demo_path n) = None"
    by (simp add: demo_stored_nodes)
qed

lemma demo_open_image:
  assumes rd: "ready demo_path e ((view demo_stored)(comps (l_temp e) \<mapsto> None))"
    and st: "fs_st True ((view demo_stored)(comps (l_temp e) \<mapsto> None)) t"
  shows "image_at demo_sha demo_path {} t"
proof -
  have v: "view t = (view demo_stored)(comps (l_temp e) \<mapsto> None)" and wf: "wf_fs t" using st by (auto simp: fs_st_def)
  have bl: "view t (comps demo_path @ [blobDirectory]) = Some None"
    unfolding v by (simp add: demo_stored_nodes)
  show ?thesis
    unfolding image_at_def whole_image_def
    using demo_open_keys [OF rd, folded v] bl wf by (auto simp del: view_simps split: if_splits)
qed

lemma demo_oci_manifest:
  "createOciManifest demo_libs ''m'' = Inr (''m'', MediaTypeImageManifest)"
  "manifest_Digest demo_libs ''m'' = Inr (blob_digest (lib_sha demo_libs) ''m'')"
  by (simp_all add: createOciManifest_def manifest_Digest_def GuessMIMEType_def demo_libs_def blob_digest_def BlobAlgorithm_def)
    (simp_all add: MediaTypeImageManifest_def DockerV2Schema1MediaType_def DockerV2Schema1SignedMediaType_def
      DockerV2Schema2MediaType_def DockerV2ListMediaType_def MediaTypeImageManifestList_def)

end
