(* ===== verification/Daemon_Properties.thy ===== *)
theory Daemon_Properties
  imports Daemon_Demo
begin

text \<open>
  What the daemon promises of an image: what a leecher's download leaves behind (Daemon_Copying has the promise for
  the environments there are), and the way of a manifest into the image and back. The statements are instantiated on the daemon of Daemon_Demo.
\<close>

section \<open>A leecher's download\<close>

text \<open>With an environment that leaves the image alone in every state.\<close>

lemma leech_untouched:
  assumes "libs_ok L" "leecher_mode cfg" "untouched p env"
    and "ParseImageName L source = Inr ref" "NewImage ref (getSystemContext ctx) = Inr img"
    and "buildOciDestFromReference (c_Root cfg) ref = Inr (p, tag)" "name_ok tag"
    and "image_at (lib_sha L) p K s"
    and "startLeecherDownload cfg L env fuel reporting ctx source s = (r, t)"
  shows "image_at (lib_sha L) p K t \<and>
    (r = Inr True \<longrightarrow>
       (\<forall>d \<in> set (bi_Digest (ConfigInfo img) # map bi_Digest (LayerInfos img)). \<forall>h. name_ok h \<and> d = digest_of h \<longrightarrow>
          (\<exists>c. view t (blob_file p h) = Some (Some c) \<and> d = blob_digest (lib_sha L) c)) \<and>
       (\<exists>raw. ImageManifest img = Inr raw \<and> manifest_stored L p tag raw t))"
proof -
  have l: "sha_ok (lib_sha L)" "codec_ok (desc_enc L) (desc_dec L)" "\<not> c_UseHardlink cfg"
    using assms(1,2) by (auto simp: libs_ok_def leecher_mode_def)
  note tr = leech_download_triple [OF assms(4,5,6) l(1,2) assms(7,3) l(3)]
  have blob: "\<exists>c. view t (blob_file p h) = Some (Some c) \<and> digest_of h = blob_digest (lib_sha L) c"
    if t: "image_at (lib_sha L) p (hashes ds) t" and h: "name_ok h" "digest_of h \<in> set ds" for h ds
  proof -
    have "Blob h \<in> hashes ds" using h by (simp add: hashes_def)
    then have "view t (blob_file p h) \<noteq> None" "view t (blob_file p h) \<noteq> Some None" using t h by (auto simp: image_at_def)
    then obtain c where c: "view t (blob_file p h) = Some (Some c)" by (cases "view t (blob_file p h)") auto
    then have "h = hex_encode (lib_sha L c)" using t h(1) unfolding image_at_def by blast
    then show ?thesis using c by (auto simp: blob_digest_def)
  qed
  show ?thesis
  proof (cases r)
    case (Inl x)
    then show ?thesis using tripleD_Inl [OF tr assms(8)] assms(9) by simp
  next
    case (Inr b)
    have 1: "startLeecherDownload cfg L env fuel reporting ctx source s = (Inr b, t)" using assms(9) Inr by simp
    have I: "image_at (lib_sha L) p K t" and D: "b \<Longrightarrow> leeched L p tag img t"
      using tripleD_Inr [OF tr assms(8) 1] by simp_all
    show ?thesis
    proof (intro conjI I impI)
      assume "r = Inr True"
      then have "leeched L p tag img t" using D Inr by simp
      then have t: "image_at (lib_sha L) p (hashes (bi_Digest (ConfigInfo img) # map bi_Digest (LayerInfos img))) t"
        and m: "\<exists>raw. ImageManifest img = Inr raw \<and> manifest_stored L p tag raw t" by (simp_all add: leeched_def)
      show "\<forall>d \<in> set (bi_Digest (ConfigInfo img) # map bi_Digest (LayerInfos img)). \<forall>h. name_ok h \<and> d = digest_of h \<longrightarrow>
          (\<exists>c. view t (blob_file p h) = Some (Some c) \<and> d = blob_digest (lib_sha L) c)"
        using blob [OF t] by blast
      show "\<exists>raw. ImageManifest img = Inr raw \<and> manifest_stored L p tag raw t" by (rule m)
    qed
  qed
qed

text \<open>A download of the layer the image has: the manifest is new.\<close>

lemma demo_leech_run:
  "\<exists>t. startLeecherDownload demo_cfg demo_libs env n reporting (\<lambda>_. None) ''docker://x:v1'' demo_stored = (Inr True, t) \<and>
     fs.more t = fs.more demo_stored"
proof -
  let ?h = "hex_encode (demo_sha ''abc'')"
  obtain e t where o: "Open demo_path demo_stored = (Inr e, t)" "opens demo_path (view demo_stored) e t"
    and rd: "ready demo_path e ((view demo_stored)(comps (l_temp e) \<mapsto> None))"
    and st: "fs_st True ((view demo_stored)(comps (l_temp e) \<mapsto> None)) t"
    by (rule demo_stored_open)
  let ?V = "(view demo_stored)(comps (l_temp e) \<mapsto> None)"
  define i where "i = \<lparr>oi_path = demo_path, oi_ref = ''v1'', oi_layout = e\<rparr>"
  note blobV = demo_open_keys(1) [OF rd] and refV = demo_open_keys(2) [OF rd]
  have h: "name_ok ?h" by (rule name_ok_sha [OF demo_sha_ok])
  have ses: "session demo_sha demo_path e" using rd by (simp add: session_def ready_def demo_sha_ok)
  have "\<exists>u. leech_layers demo_cfg demo_libs env n reporting i (LayerInfos demo_img) t = (Inr True, u) \<and> fs_st True ?V u \<and> fs.more u = fs.more t"
  proof (rule leech_layers_present [OF _ _ _ st])
    show "session (lib_sha demo_libs) demo_path (oi_layout i)" using ses by (simp add: i_def demo_libs_def)
    show "layout_dirs (oi_layout i) ?V" using rd by (simp add: ready_def i_def)
    fix l assume "l \<in> set (LayerInfos demo_img)"
    then have "bi_Digest l = digest_of ?h" by (simp add: demo_img_def demo_digest_def blob_digest_def)
    then show "\<exists>h. name_ok h \<and> bi_Digest l = digest_of h \<and> ?V (blob_file demo_path h) \<noteq> None"
      using h blobV [of ?h] by auto
  qed
  then obtain u where u: "leech_layers demo_cfg demo_libs env n reporting i (LayerInfos demo_img) t = (Inr True, u)"
    and su: "fs_st True ?V u" and mu: "fs.more u = fs.more t" by blast
  have "\<exists>w. putManifest demo_libs i ''m'' u = (Inr (), w)"
    by (rule putManifest_total [where p = demo_path, OF _ demo_libs_laws _ demo_oci_manifest su])
      (use rd refV blobV [of "hex_encode (demo_sha ''m'')"] in \<open>simp_all add: i_def name_ok_def demo_libs_def split: if_splits\<close>)
  then obtain w where w: "putManifest demo_libs i ''m'' u = (Inr (), w)" ..
  have L: "ParseImageName demo_libs ''docker://x:v1'' = Inr (demo_ref ''x'')" "NewImage (demo_ref ''x'') c = Inr demo_img" for c
    by (simp_all add: demo_names demo_ref_def)
  have run: "startLeecherDownload demo_cfg demo_libs env n reporting (\<lambda>_. None) ''docker://x:v1'' demo_stored = (Inr True, snd (OciImage_Close i w))"
  proof -
    have img: "newOciImage (c_Root demo_cfg) (demo_ref ''x'') demo_stored = (Inr i, t)"
      using o(1) by (simp add: newOciImage_def demo_cfg_def demo_dest i_def run)
    have "pull_config demo_libs i demo_img u = (Inr (), u)" "ImageManifest demo_img = Inr ''m''"
      by (simp_all add: pull_config_def demo_img_def run)
    then have "bindE (leech_layers demo_cfg demo_libs env n reporting i (LayerInfos demo_img)) (\<lambda>returned.
           if \<not> returned then returnE False
           else
             bindE (pull_config demo_libs i demo_img) (\<lambda>_.
             bindE (wrapE ''Error reading manifest'' (liftE (ImageManifest demo_img))) (\<lambda>manifest.
             bindE (wrapE ''Error writing manifest'' (putManifest demo_libs i manifest)) (\<lambda>_.
             returnE True)))) t = (Inr True, w)"
      using u w by (simp add: run)
    then show ?thesis
      by (simp add: startLeecherDownload_def Let_def L img deferB_def run)
  qed
  have "fs.more t = fs.more demo_stored"
    using keepsD [OF Open_more [where M = "fs.more demo_stored" and p = demo_path], of demo_stored] o(1) by simp
  moreover have "fs.more w = fs.more u"
    using keepsD [OF oci_more(4) [where M = "fs.more u" and L = demo_libs and i = i and raw = "''m''"], of u] w by simp
  moreover have "fs.more (snd (OciImage_Close i w)) = fs.more w" by (rule keepsD [OF oci_more(3)]) (rule refl)
  ultimately show ?thesis using run mu by simp
qed

section \<open>The manifest's way into the image and back\<close>

definition layers_of :: "Manifest \<Rightarrow> blobInfo list" where
  "layers_of om = map (\<lambda>l. \<lparr>b_digest = desc_Digest l, b_size = desc_Size l\<rparr>) (m_Layers om)"

definition json_ok :: "libs \<Rightarrow> bool" where
  "json_ok L \<longleftrightarrow> (\<forall>om b. man_enc L om = Inr b \<longrightarrow> man_dec L b = Inr om)"

lemma created_layers:
  assumes "json_ok L" "createOciManifest L raw = Inr (m, mt)" "man_dec L raw = Inr om"
  shows "\<exists>om'. man_dec L m = Inr om' \<and> layers_of om' = layers_of om \<and> desc_Digest (m_Config om') = desc_Digest (m_Config om)"
  using assms
  by (auto simp: createOciManifest_def Let_def json_ok_def layers_of_def split: if_splits sum.splits)

lemma getOciImageLayers_load:
  "getOciImageLayers L i =
     bindE (GetReference (desc_dec L) (oi_layout i) (oi_ref i)) (\<lambda>desc.
     bindE (load_blob (oi_layout i) (desc_Digest desc)) (\<lambda>data.
     bindE (liftE (man_dec L data)) (\<lambda>om. returnE (layers_of om))))"
  by (simp add: getOciImageLayers_def load_blob_def layers_of_def fun_eq_iff bindE_def split: prod.split sum.split)

lemma stored_layers:
  assumes L: "libs_ok L" "json_ok L" and i: "oci_session (lib_sha L) p tag i" "name_ok tag"
    and st: "manifest_stored L p tag raw s" "man_dec L raw = Inr om" and wf: "wf_fs s"
    and call: "getOciImageLayers L i s = (r, t)"
  shows "r = Inr (layers_of om) \<or> faults s \<noteq> [] \<and> (\<exists>x. r = Inl x)"
proof -
  let ?c = "faults s = []" let ?V = "view s" and ?e = "oi_layout i"
  have e: "layout_ok ?e" "l_path ?e = p" "oi_ref i = tag" "sha_ok (lib_sha L)" using i by (auto simp: oci_session_def session_def)
  have dec: "dec_ok (desc_dec L)" using L(1) by (simp add: libs_ok_def codec_ok_def)
  obtain m mt where m: "createOciManifest L raw = Inr (m, mt)" "?V (blob_file p (hex_encode (lib_sha L m))) = Some (Some m)"
    and ref: "ref_bound (desc_dec L) p tag \<lparr>desc_MediaType = mt, desc_Digest = blob_digest (lib_sha L) m, desc_Size = int (length m)\<rparr> s"
    using st(1) by (auto simp: manifest_stored_def simp del: view_simps)
  obtain om' where om': "man_dec L m = Inr om'" "layers_of om' = layers_of om"
    using created_layers [OF L(2) m(1) st(2)] by blast
  let ?d = "\<lparr>desc_MediaType = mt, desc_Digest = blob_digest (lib_sha L) m, desc_Size = int (length m)\<rparr>"
  obtain b where b: "?V (ref_file p tag) = Some (Some b)" "desc_dec L b = Inr ?d"
    using ref by (auto simp: ref_bound_def simp del: view_simps)
  have s: "fs_st ?c ?V s" using wf by (simp add: fs_st_def)
  have path: "comps (Join [l_path ?e, Join [refDirectory, tag]]) = ref_file p tag"
    using ref_join [OF layout_paths(1,2) [OF e(1)] i(2)] e(2) by simp
  have read: "triple (fs_st ?c ?V) (GetReference (desc_dec L) ?e (oi_ref i))
      (\<lambda>d u. d = ?d \<and> fs_st ?c ?V u) (\<lambda>_ _. \<not> ?c)"
    unfolding GetReference_def refPath_def bindE_lift e(3)
    by (rule triple_bind [where M = "\<lambda>x u. x = b \<and> fs_st ?c ?V u"], rule triple_weaken [OF ioutil_ReadFile_triple])
      (use b path in \<open>auto intro!: triple_lift simp del: view_simps\<close>)
  have blob: "triple (fs_st ?c ?V) (load_blob ?e (blob_digest (lib_sha L) m)) (\<lambda>x u. x = m) (\<lambda>_ _. \<not> ?c)"
    unfolding blob_digest_def append_Cons append_Nil
    by (rule triple_weaken [OF load_blob_triple [OF e(1) name_ok_sha [OF e(4)]]])
      (use m(2) e(2) in \<open>auto simp del: view_simps\<close>)
  have rest: "triple (\<lambda>u. d = ?d \<and> fs_st ?c ?V u)
      (bindE (load_blob ?e (desc_Digest d)) (\<lambda>data. bindE (liftE (man_dec L data)) (\<lambda>om. returnE (layers_of om))))
      (\<lambda>x _. x = layers_of om) (\<lambda>_ _. \<not> ?c)" for d
    by (rule triple_assume, simp, rule triple_bind [OF blob])
      (auto simp: triple_def run om')
  have "triple (fs_st ?c ?V) (getOciImageLayers L i) (\<lambda>x _. x = layers_of om) (\<lambda>_ _. \<not> ?c)"
    unfolding getOciImageLayers_load by (rule triple_bind [OF read rest])
  from tripleD_Inr [OF this s] tripleD_Inl [OF this s] show ?thesis using call by (cases r) auto
qed

text \<open>C11. A manifest goes into an image and comes back: after \<open>putManifest\<close> of a Docker schema 2 or an OCI
  manifest, \<open>getOciImageLayers\<close> gives exactly the layers of that manifest, in order, with the digests and sizes
  they had before the conversion. It can fail only for a fault.\<close>

theorem manifest_layers:
  assumes "libs_ok L" "json_ok L" "oci_session (lib_sha L) p tag i" "name_ok tag" "image_at (lib_sha L) p K s"
    and "man_dec L raw = Inr om" "putManifest L i raw s = (Inr (), t)" "getOciImageLayers L i t = (r, u)"
  shows "r = Inr (map (\<lambda>l. \<lparr>b_digest = desc_Digest l, b_size = desc_Size l\<rparr>) (m_Layers om)) \<or>
    faults t \<noteq> [] \<and> (\<exists>x. r = Inl x)"
proof -
  have "codec_ok (desc_enc L) (desc_dec L)" using assms(1) by (simp add: libs_ok_def)
  from tripleD_Inr [OF image_putManifest [OF assms(3,4) this] assms(5,7)]
  have "manifest_stored L p tag raw t" "wf_fs t" by (auto dest: image_at_wf)
  from stored_layers [OF assms(1-4) this(1) assms(6) this(2) assms(8)] show ?thesis by (simp add: layers_of_def)
qed

theorem manifest_layers_witness:
  "\<exists>e s t r u. putManifest demo_libs \<lparr>oi_path = demo_path, oi_ref = ''v1'', oi_layout = e\<rparr> ''m'' s = (Inr (), t) \<and>
     getOciImageLayers demo_libs \<lparr>oi_path = demo_path, oi_ref = ''v1'', oi_layout = e\<rparr> (t :: bt) = (r, u) \<and>
     (r = Inr [\<lparr>b_digest = demo_digest, b_size = 3\<rparr>] \<or> (\<exists>x. r = Inl x))"
proof -
  obtain e s where o: "opens demo_path (view demo_stored) e s"
    and rd: "ready demo_path e ((view demo_stored)(comps (l_temp e) \<mapsto> None))"
    and st: "fs_st True ((view demo_stored)(comps (l_temp e) \<mapsto> None)) (s :: bt)"
    by (rule demo_stored_open)
  let ?i = "\<lparr>oi_path = demo_path, oi_ref = ''v1'', oi_layout = e\<rparr>"
  note k = demo_open_keys [OF rd]
  have sha: "lib_sha demo_libs = demo_sha" by (simp add: demo_libs_def)
  obtain t where put: "putManifest demo_libs ?i ''m'' s = (Inr (), t)"
    using putManifest_total [where p = demo_path, OF _ demo_libs_laws _ demo_oci_manifest st, of ?i] rd k(2) k(1) [of "hex_encode (demo_sha ''m'')"]
    by (auto simp: name_ok_def sha split: if_splits)
  obtain r u where get: "getOciImageLayers demo_libs ?i t = (r, u)" by fastforce
  have "json_ok demo_libs" by (simp add: json_ok_def demo_libs_def split: if_splits)
  moreover have "oci_session (lib_sha demo_libs) demo_path ''v1'' ?i"
    using rd by (simp add: oci_session_def session_def ready_def sha demo_sha_ok)
  moreover have "image_at (lib_sha demo_libs) demo_path {} s"
    using demo_open_image [OF rd st] by (simp add: sha)
  moreover have "name_ok ''v1''" by (simp add: name_ok_def)
  moreover have "man_dec demo_libs ''m'' = Inr demo_manifest" by (simp add: demo_libs_def)
  ultimately have "r = Inr (map (\<lambda>l. \<lparr>b_digest = desc_Digest l, b_size = desc_Size l\<rparr>) (m_Layers demo_manifest)) \<or>
      faults t \<noteq> [] \<and> (\<exists>x. r = Inl x)"
    by (intro manifest_layers [OF demo_libs_laws _ _ _ _ _ put get])
  then have "r = Inr [\<lparr>b_digest = demo_digest, b_size = 3\<rparr>] \<or> (\<exists>x. r = Inl x)" by (auto simp: demo_manifest_def)
  with put get show ?thesis by (intro exI conjI) assumption+
qed

end
