(* ===== verification/Daemon_Stored.thy ===== *)
theory Daemon_Stored
  imports Daemon_Properties
begin

text \<open>
  A second example: the daemon of \<open>Daemon_Demo\<close> after a complete download, with the manifest and
  the reference in the image. The requests that need them are instantiated on it.
\<close>

section \<open>An image with its manifest\<close>

text \<open>The demo daemon after a complete download: the layer, the manifest and the reference \<open>v1\<close>.\<close>

definition with_file :: "string list \<Rightarrow> bytes \<Rightarrow> 'z fs_scheme \<Rightarrow> 'z fs_scheme" where
  "with_file k d s = append_to (next_ino s) d (snd (new_file k s))"

lemma with_file_props:
  assumes "wf_fs s" "node_at s k = None" "node_at s (butlast k) = Some Dir"
  shows "wf_fs (with_file k d s)" "view (with_file k d s) = (view s)(k \<mapsto> Some d)"
    "fs.more (with_file k d s) = fs.more s" "faults (with_file k d s) = faults s"
proof -
  obtain r t where n: "new_file k s = (r, t)" by fastforce
  note p = new_file_props [OF assms n]
  have w: "with_file k d s = append_to (next_ino s) d t" using n by (simp add: with_file_def)
  show "wf_fs (with_file k d s)" "view (with_file k d s) = (view s)(k \<mapsto> Some d)" unfolding w
  proof -
    show "wf_fs (append_to (next_ino s) d t)" using p(2) by simp
    have "view (append_to (next_ino s) d t) q = ((view s)(k \<mapsto> Some d)) q" for q
    proof (cases "q = k")
      case True
      moreover have "node_at t k = Some (File (next_ino s))" using p(4) by (simp add: sole_def)
      ultimately show ?thesis using append_to_props(2) [OF p(4), of d] p(5) by (simp add: view_def)
    qed (use append_to_props(3) [OF p(4)] p(3) in \<open>simp del: view_simps\<close>)
    then show "view (append_to (next_ino s) d t) = (view s)(k \<mapsto> Some d)" ..
  qed
  show "fs.more (with_file k d s) = fs.more s" "faults (with_file k d s) = faults s"
    unfolding w using p(6,8) by simp_all
qed

definition demo_man_desc :: Descriptor where
  "demo_man_desc = \<lparr>desc_MediaType = MediaTypeImageManifest, desc_Digest = blob_digest demo_sha ''m'', desc_Size = 1\<rparr>"

definition demo_full :: bt where
  "demo_full = with_file (ref_file demo_path ''v1'') (demo_enc demo_man_desc)
     (with_file (blob_file demo_path (hex_encode (demo_sha ''m''))) ''m'' demo_stored)"

lemma demo_other_hash: "hex_encode (demo_sha ''m'') \<noteq> hex_encode (demo_sha ''abc'')"
proof -
  have "demo_sha (c # d) = c # take 31 (d @ replicate 32 CHR ''x'')" for c d by (simp add: demo_sha_def)
  moreover have "hexchar (of_char CHR ''m'' mod 16) \<noteq> hexchar (of_char CHR ''a'' mod 16)" by (simp add: hexchar_def)
  ultimately show ?thesis by (simp only: hex_encode_simps list.inject) simp
qed

lemma demo_full_steps:
  fixes s1 :: bt
  defines "s1 \<equiv> with_file (blob_file demo_path (hex_encode (demo_sha ''m''))) ''m'' demo_stored"
  shows "wf_fs s1" "view s1 = (view demo_stored)(blob_file demo_path (hex_encode (demo_sha ''m'')) \<mapsto> Some ''m'')"
    "wf_fs demo_full" "view demo_full = (view s1)(ref_file demo_path ''v1'' \<mapsto> Some (demo_enc demo_man_desc))"
    "fs.more demo_full = fs.more demo_stored" "faults demo_full = []"
proof -
  let ?k = "blob_file demo_path (hex_encode (demo_sha ''m''))" and ?r = "ref_file demo_path ''v1''"
  have b: "butlast ?k = comps demo_path @ [blobDirectory, BlobAlgorithm]" "butlast ?r = comps demo_path @ [refDirectory]"
    by (simp_all add: blob_file_def ref_file_def butlast_append)
  have n: "node_at demo_stored ?k = None" "node_at demo_stored (butlast ?k) = Some Dir"
    unfolding b by (simp_all add: demo_stored_nodes demo_other_hash)
  note p = with_file_props [OF demo_stored_wf n, of "''m''", folded s1_def]
  show "wf_fs s1" "view s1 = (view demo_stored)(?k \<mapsto> Some ''m'')" by (rule p)+
  have d: "comps demo_path @ [refDirectory] \<noteq> ?k" by (simp add: blob_file_def)
  have "view s1 ?r = None" unfolding p(2) by (simp add: demo_stored_nodes)
  moreover have "view s1 (butlast ?r) = Some None" unfolding b p(2) using d by (simp add: demo_stored_nodes)
  ultimately have "node_at s1 ?r = None" "node_at s1 (butlast ?r) = Some Dir" by simp_all
  note q = with_file_props [OF p(1) this, of "demo_enc demo_man_desc", folded s1_def]
  have f: "demo_full = with_file ?r (demo_enc demo_man_desc) s1" by (simp add: demo_full_def s1_def)
  show "wf_fs demo_full" "view demo_full = (view s1)(?r \<mapsto> Some (demo_enc demo_man_desc))"
    "fs.more demo_full = fs.more demo_stored" "faults demo_full = []"
    unfolding f using p(3,4) q by (simp_all del: view_simps)
qed

lemma demo_full_view:
  "view demo_full (blob_file demo_path h) =
     (if h = hex_encode (demo_sha ''m'') then Some (Some ''m'') else if h = hex_encode (demo_sha ''abc'') then Some (Some ''abc'') else None)"
  "view demo_full (ref_file demo_path n) = (if n = ''v1'' then Some (Some (demo_enc demo_man_desc)) else None)"
  "view demo_full (comps demo_path @ [x]) = view demo_stored (comps demo_path @ [x])"
  unfolding demo_full_steps(4,2) by (simp_all add: demo_stored_view demo_stored_nodes del: view_simps) (simp_all add: demo_stored_nodes)

lemma demo_full_image: "image_at demo_sha demo_path {} demo_full"
proof -
  have "view demo_full (comps demo_path @ [blobDirectory]) = Some None"
    unfolding demo_full_view by (simp add: demo_stored_nodes)
  then show ?thesis
    by (auto simp: image_at_def demo_full_steps(3) whole_image_def demo_full_view simp del: view_simps split: if_splits)
qed

lemma demo_full_engine: "engine demo_full = engine demo_bt" "bt_inv demo_full"
  using more_eqD [OF demo_full_steps(5)] bt_inv_more [OF demo_full_steps(5)] demo_stored_inv by simp_all

lemma demo_full_manifest: "manifest_stored demo_libs demo_path ''v1'' ''m'' demo_full"
proof -
  have l: "lib_sha demo_libs = demo_sha" "desc_dec demo_libs = demo_dec" by (simp_all add: demo_libs_def)
  have dec: "demo_dec (demo_enc demo_man_desc) = Inr demo_man_desc" using demo_codec by (simp add: codec_ok_def)
  show ?thesis
    unfolding manifest_stored_def l ref_bound_def demo_full_view
    using dec demo_oci_manifest(1) by (simp add: demo_man_desc_def)
qed

lemma demo_json: "json_ok demo_libs" "man_dec demo_libs ''m'' = Inr demo_manifest"
  by (simp_all add: json_ok_def demo_libs_def split: if_splits)

section \<open>A run on it\<close>

lemma demo_full_rnd: "rnd demo_full = (\<lambda>n. replicate n CHR ''0'')"
  by (simp add: demo_full_def with_file_def new_file_def append_to_def set_node_def)

lemma demo_full_openable: "openable demo_path demo_full"
proof -
  have d: "comps (filepath_Dir demo_path) = [''root'', ''oci'', ''library'']" by code_simp
  have V: "view demo_full k = view demo_stored k" if "length k < 6" for k
    using that unfolding demo_full_steps(4,2) by (auto simp: demo_files)
  have "node_at demo_stored [''root'', ''oci'', ''library''] = Some Dir"
    by (simp add: demo_stored_node demo_files) (simp add: node_at_def demo_daemon_tree)
  then have par: "has_parent (view demo_full) demo_path" by (simp add: has_parent_def d V demo_comps_path del: view_simps) (simp add: view_simps)
  have "view demo_full (comps demo_path @ [''tmp-'']) = None"
    unfolding demo_full_view
    by (simp add: demo_stored_node demo_comps_path demo_files) (simp add: node_at_def demo_daemon_tree)
  then have free: "names_left demo_path (view demo_full) demo_full"
    by (auto simp: names_left_def demo_full_rnd intro: exI [of _ 0])
  have dirs: "view demo_full (comps demo_path) = Some None" "view demo_full (comps demo_path @ [layoutFile]) \<noteq> None"
    by (simp_all add: V demo_comps_path demo_full_view) (simp_all add: demo_stored_nodes [unfolded demo_comps_path append_Cons append_Nil])
  show ?thesis unfolding openable_def using par free dirs demo_full_steps(6) by blast
qed

lemma demo_full_open:
  obtains e t where "Open demo_path demo_full = (Inr e, t)" "faults t = []" "fs.more t = fs.more demo_full"
    "session demo_sha demo_path e" "keys_kept demo_path (view demo_full) t"
proof -
  have p: "image_paths demo_path" unfolding image_paths_def by code_simp
  have st: "fs_st True (view demo_full) demo_full" by (simp add: fs_st_def demo_full_steps(3,6))
  obtain e t where o: "Open demo_path demo_full = (Inr e, t)" "opens demo_path (view demo_full) e t"
    by (rule Open_total [OF p _ _ _ st]) (use demo_full_openable in \<open>simp_all add: openable_def del: view_simps\<close>)
  have k: "keys_kept demo_path (view demo_full) demo_full" by (rule image_at_self [OF demo_full_image])
  have n: "newDirLayout demo_path demo_full = (Inr e, t)" using o(1) by (simp add: Open_def)
  have "session demo_sha demo_path e" "keys_kept demo_path (view demo_full) t"
    using tripleD_Inr [OF newDirLayout_keys [OF p] k n] by (simp_all add: session_def demo_sha_ok)
  moreover have "faults t = []" using o(2) by (simp add: opens_def fs_st_def)
  moreover have "fs.more t = fs.more demo_full"
    using keepsD [OF Open_more [where M = "fs.more demo_full" and p = demo_path], of demo_full] o(1) by simp
  ultimately show ?thesis using that o(1) by blast
qed

lemma demo_full_request:
  "\<exists>i t u. newOciImageSimple ''root'' (TaggedRef ''x'' ''v1'') demo_full = (Inr i, t) \<and>
     getOciImageLayers demo_libs i t = (Inr [\<lparr>b_digest = demo_digest, b_size = 3\<rparr>], u) \<and> fs.more u = fs.more demo_full"
proof -
  obtain e t where o: "Open demo_path demo_full = (Inr e, t)" "faults t = []" "fs.more t = fs.more demo_full"
    "session demo_sha demo_path e" "keys_kept demo_path (view demo_full) t" by (rule demo_full_open)
  let ?i = "\<lparr>oi_path = demo_path, oi_ref = ''v1'', oi_layout = e\<rparr>"
  have n: "newOciImageSimple ''root'' (TaggedRef ''x'' ''v1'') demo_full = (Inr ?i, t)"
    using o(1) by (simp add: newOciImageSimple_def demo_dest run)
  have "lib_sha demo_libs = demo_sha" by (simp add: demo_libs_def)
  then have ses: "oci_session (lib_sha demo_libs) demo_path ''v1'' ?i" using o(4) by (simp add: oci_session_def)
  obtain r u where g: "getOciImageLayers demo_libs ?i t = (r, u)" by fastforce
  have "name_ok ''v1''" by (simp add: name_ok_def)
  moreover have "manifest_stored demo_libs demo_path ''v1'' ''m'' t" "wf_fs t"
    using manifest_stored_keys [OF demo_full_manifest o(5)] o(5) by (simp_all add: keys_kept_def)
  ultimately have "r = Inr (layers_of demo_manifest)"
    using stored_layers [OF demo_libs_laws demo_json(1) ses _ _ demo_json(2) _ g] o(2) by blast
  moreover have "layers_of demo_manifest = [\<lparr>b_digest = demo_digest, b_size = 3\<rparr>]" by (simp add: layers_of_def demo_manifest_def)
  moreover have "fs.more u = fs.more demo_full"
    using keepsD [OF oci_more(5) [where M = "fs.more t" and L = demo_libs and i = ?i], of t] g o(3) by simp
  ultimately show ?thesis using g n by (intro exI [of _ ?i] exI [of _ t] exI [of _ u]) simp
qed

end
