(* ===== verification/Daemon_Requests.thy ===== *)
theory Daemon_Requests
  imports Daemon_Stored
begin

text \<open>
  Requests on a stored image: how a handler finds the layers of its manifest, and the effect of
  \<open>StopDownload\<close> on the engine's registry.
\<close>

section \<open>Handlers on a stored image\<close>

text \<open>The states of a handler while it works on an image: the keys of the image as they were, and the
  engine untouched.\<close>

definition still :: "string \<Rightarrow> (string list \<Rightarrow> bytes option option) \<Rightarrow> 'z bt_scheme \<Rightarrow> 'z bt_scheme \<Rightarrow> bool" where
  "still p V s u \<longleftrightarrow> keys_kept p V u \<and> fs.more u = fs.more s"

lemma newOciImageSimple_still:
  assumes "buildOciDestSimple root r = Inr (p, tag)" "sha_ok sha"
  shows "triple (still p V s) (newOciImageSimple root r)
     (\<lambda>i u. oci_session sha p tag i \<and> still p V s u) (\<lambda>_. still p V s)"
proof -
  have *: "newOciImageSimple root r = bindE (Open p) (\<lambda>layout. returnE \<lparr>oi_path = p, oi_ref = tag, oi_layout = layout\<rparr>)"
    by (simp add: newOciImageSimple_def assms(1))
  have "triple (\<lambda>u. keys_kept p V u \<and> fs.more u = fs.more s) (Open p)
      (\<lambda>e u. (l_path e = p \<and> layout_ok e \<and> keys_kept p V u) \<and> fs.more u = fs.more s)
      (\<lambda>_ u. keys_kept p V u \<and> fs.more u = fs.more s)"
    unfolding Open_def
    by (rule triple_conj [OF newDirLayout_keys [OF dest_paths(2) [OF assms(1)]] Open_more [unfolded Open_def]])
  then show ?thesis unfolding * still_def
    by (rule triple_bind) (auto intro!: triple_return simp: oci_session_def session_def assms(2))
qed

lemma with_image_triple:
  assumes "source \<noteq> []" "buildNamedTagged source = Inr r" "buildOciDestSimple (c_Root cfg) r = Inr (p, tag)" "sha_ok sha"
    and body: "\<And>i. oci_session sha p tag i \<Longrightarrow> triple (still p V s) (body i) Q R"
    and Q: "\<And>x u v. Q x u \<Longrightarrow> fs.more v = fs.more u \<Longrightarrow> Q x v"
    and R: "\<And>x u v. R x u \<Longrightarrow> fs.more v = fs.more u \<Longrightarrow> R x v" "\<And>x u. still p V s u \<Longrightarrow> R x u"
  shows "triple (still p V s) (with_image cfg source body) Q R"
proof -
  have close: "fs.more (snd (OciImage_Close i u)) = fs.more u" for i and u :: "'a bt_scheme"
    by (rule keepsD [OF oci_more(3)]) (rule refl)
  have run: "with_image cfg source body =
      bindE (newOciImageSimple (c_Root cfg) r) (\<lambda>i. deferE (OciImage_Close i) (body i))"
    using assms(1,2) by (simp add: with_image_def fun_eq_iff bindE_def liftE_def)
  show ?thesis unfolding run
  proof (rule triple_bind [where M = "\<lambda>i u. oci_session sha p tag i \<and> still p V s u"], goal_cases)
    case 1
    show ?case by (rule triple_weaken [OF newOciImageSimple_still [OF assms(3,4)]]) (auto intro: R(2))
  next
    case (2 i)
    show ?case
    proof (rule triple_assume)
      assume i: "oci_session sha p tag i"
      show "triple (still p V s) (deferE (OciImage_Close i) (body i)) Q R"
        by (rule triple_defer [OF body [OF i]]) (auto intro: Q R(1) close)
    qed
  qed
qed

lemma layers_still:
  assumes L: "libs_ok L" "json_ok L" and i: "oci_session (lib_sha L) p tag i" "name_ok tag"
    and st: "manifest_stored L p tag raw s" "man_dec L raw = Inr om"
  shows "triple (still p (view s) s) (getOciImageLayers L i)
     (\<lambda>ls u. ls = layers_of om \<and> fs.more u = fs.more s) (\<lambda>_ u. fs.more u = fs.more s)"
proof (rule tripleI)
  fix u assume u: "still p (view s) s u"
  obtain r v where c: "getOciImageLayers L i u = (r, v)" by fastforce
  have wf: "wf_fs u" and "manifest_stored L p tag raw u"
    using u manifest_stored_keys [OF st(1)] by (auto simp: still_def keys_kept_def)
  from stored_layers [OF L i this(2) st(2) wf c] have "r = Inr (layers_of om) \<or> (\<exists>x. r = Inl x)" by auto
  moreover have "fs.more v = fs.more s"
    using keepsD [OF oci_more(5) [where M = "fs.more u" and L = L and i = i], of u] u c by (simp add: still_def)
  ultimately show "case getOciImageLayers L i u of (Inl x, v) \<Rightarrow> fs.more v = fs.more s
      | (Inr ls, v) \<Rightarrow> ls = layers_of om \<and> fs.more v = fs.more s"
    using c by auto
qed

text \<open>A request that works on the layers of the stored manifest: what it does to them is all it does to the engine.\<close>

lemma stored_request:
  fixes s :: "'z bt_scheme"
  assumes L: "libs_ok L" "json_ok L"
    and ref: "source \<noteq> []" "buildNamedTagged source = Inr q" "buildOciDestSimple (c_Root cfg) q = Inr (p, tag)" "name_ok tag"
    and st: "manifest_stored L p tag raw s" "man_dec L raw = Inr om"
    and work: "triple (\<lambda>u. fs.more u = fs.more s) (work (layers_of om)) Q R"
    and Q: "\<And>x u v. Q x u \<Longrightarrow> fs.more v = fs.more u \<Longrightarrow> Q x v"
    and R: "\<And>x u v. R x u \<Longrightarrow> fs.more v = fs.more u \<Longrightarrow> R x v" "\<And>x u. fs.more u = fs.more s \<Longrightarrow> R x u"
  shows "triple (still p (view s) s) (with_image cfg source (\<lambda>i. bindE (getOciImageLayers L i) work)) Q R"
proof (rule with_image_triple [OF ref(1-3)])
  show "sha_ok (lib_sha L)" using L(1) by (simp add: libs_ok_def)
  show "R x u" if "still p (view s) s u" for x u using that R(2) by (simp add: still_def)
  fix i assume i: "oci_session (lib_sha L) p tag i"
  show "triple (still p (view s) s) (bindE (getOciImageLayers L i) work) Q R"
  proof (rule triple_bind)
    show "triple (still p (view s) s) (getOciImageLayers L i) (\<lambda>ls u. ls = layers_of om \<and> fs.more u = fs.more s) R"
      by (rule triple_weaken [OF layers_still [OF L i ref(4) st]]) (use R(2) in auto)
    show "triple (\<lambda>u. ls = layers_of om \<and> fs.more u = fs.more s) (work ls) Q R" for ls
      by (rule triple_assume) (simp add: work)
  qed
qed (rule Q R; assumption)+

section \<open>Stopping\<close>

text \<open>A stop that fails has counted down all the same.\<close>

definition reg_failed :: "registry \<Rightarrow> registry \<Rightarrow> bool" where
  "reg_failed A B \<longleftrightarrow> B = A \<or> (\<exists>idn n. A idn = Some n \<and> n \<le> 1 \<and> B = A(idn \<mapsto> n - 1))"

lemma StopTorrent_reg:
  assumes inv: "bt_inv s"
  shows "case StopTorrent idn s of
      (Inr u, t) \<Rightarrow> registry_of t = reg_stop idn (registry_of s)
    | (Inl x, t) \<Rightarrow> reg_failed (registry_of s) (registry_of t)"
  using StopTorrent_registry [OF inv, of idn]
  by (cases "StopTorrent idn s") (auto simp: reg_failed_def split: sum.split elim: reg_step.cases)

lemma registry_more: "fs.more t = fs.more s \<Longrightarrow> registry_of t = registry_of (s :: 'z bt_scheme)"
  by (drule more_eqD(4)) (simp add: registry_of_def fun_eq_iff)

lemma stop_layers_reg:
  fixes s :: "'z bt_scheme"
  assumes "bt_inv s"
  shows "case stop_layers clean ls s of
      (Inr ids, t) \<Rightarrow> map (Digest_Hex \<circ> b_digest) ls = map Inr ids \<and> registry_of t = fold reg_stop ids (registry_of s)
    | (Inl x, t) \<Rightarrow> \<exists>ids. prefix (map Inr ids) (map (Digest_Hex \<circ> b_digest) ls) \<and>
        reg_failed (fold reg_stop ids (registry_of s)) (registry_of t)"
  using assms
proof (induction ls arbitrary: s)
  case (Cons l ls)
  show ?case
  proof (cases "Digest_Hex (b_digest l)")
    case (Inl x)
    then show ?thesis by (auto simp: run reg_failed_def intro: exI [of _ "[]"])
  next
    case (Inr idn)
    obtain q u where q: "StopTorrent idn s = (q, u)" by fastforce
    have inv: "bt_inv u" using keepsD [OF StopTorrent_inv [of idn] Cons.prems] q by simp
    note reg = StopTorrent_reg [OF Cons.prems, of idn, unfolded q prod.case]
    show ?thesis
    proof (cases q)
      case (Inl x)
      then show ?thesis using reg q Inr by (auto simp: run intro: exI [of _ "[]"])
    next
      case q': (Inr y)
      let ?D = "whenE clean (catchE (DeleteTorrent idn) (\<lambda>_. returnE ())) :: ('z bt_scheme, unit) call"
      obtain d v where d: "?D u = (d, v)" by fastforce
      have "bt_inv v" using keepsD [of bt_inv ?D u] inv d by (simp add: keeps_when keeps_catch DeleteTorrent_inv keeps_simple)
      note IH = Cons.IH [OF this]
      have v: "registry_of v = registry_of u"
      proof -
        have "snd (catchE (DeleteTorrent idn) (\<lambda>_. returnE ()) u) = snd (DeleteTorrent idn u)"
          by (auto simp: catchE_def tryE_def bindE_def run split: prod.split sum.split)
        then have "registry_of (snd (?D u)) = registry_of u"
          using DeleteTorrent_registry [of idn u] by (cases clean) (simp_all add: run)
        then show ?thesis using d by simp
      qed
      have ru: "registry_of u = reg_stop idn (registry_of s)" using reg q' by simp
      show ?thesis
      proof (cases d)
        case (Inl x)
        then have "stop_layers clean (l # ls) s = (Inl x, v)" using Inr q q' d by (simp add: run)
        then show ?thesis using ru v Inr by (auto simp: reg_failed_def intro!: exI [of _ "[idn]"])
      next
        case (Inr z)
        obtain w t where w: "stop_layers clean ls v = (w, t)" by fastforce
        have run': "stop_layers clean (l # ls) s = (case w of Inl x \<Rightarrow> (Inl x, t) | Inr ids \<Rightarrow> (Inr (idn # ids), t))"
          using \<open>Digest_Hex (b_digest l) = Inr idn\<close> q q' d Inr w by (cases w) (simp_all add: run)
        show ?thesis
        proof (cases w)
          case (Inl x)
          then obtain ids where "prefix (map Inr ids) (map (Digest_Hex \<circ> b_digest) ls)"
            "reg_failed (fold reg_stop ids (registry_of v)) (registry_of t)"
            using IH w by auto
          then show ?thesis using run' Inl ru v \<open>Digest_Hex (b_digest l) = Inr idn\<close>
            by (auto intro!: exI [of _ "idn # ids"])
        next
          case (Inr ids)
          then show ?thesis using IH w run' ru v \<open>Digest_Hex (b_digest l) = Inr idn\<close> by simp
        qed
      qed
    qed
  qed
qed (simp add: run)

text \<open>C12. A stop of a stored image: when \<open>StopDownload\<close> succeeds it answers with the hashes of the layers of the stored
  manifest, in order, and each of them was counted down once in the engine's registry (dropped at its last count); when
  it fails, the layers before the one that failed stay stopped, and the failed one may have been counted down: the
  handler does not undo what it did. With or without \<open>clean\<close>, and whatever faults happen.\<close>

theorem stop_download_effect:
  assumes "libs_ok L" "json_ok L" "source \<noteq> []" "buildNamedTagged source = Inr q"
    and "buildOciDestSimple (c_Root cfg) q = Inr (p, tag)" "name_ok tag"
    and "image_at (lib_sha L) p K s" "bt_inv s"
    and "manifest_stored L p tag raw s" "man_dec L raw = Inr om"
  shows "case StopDownload cfg L source clean s of
      (Inr ids, t) \<Rightarrow>
        map Inr ids = map (\<lambda>l. Digest_Hex (desc_Digest l)) (m_Layers om) \<and>
        registry_of t = fold reg_stop ids (registry_of s)
    | (Inl x, t) \<Rightarrow>
        \<exists>ids. prefix (map Inr ids) (map (\<lambda>l. Digest_Hex (desc_Digest l)) (m_Layers om)) \<and>
          reg_failed (fold reg_stop ids (registry_of s)) (registry_of t)"
proof -
  let ?H = "map (Digest_Hex \<circ> b_digest) (layers_of om)"
  let ?Q = "\<lambda>ids t. ?H = map Inr ids \<and> registry_of t = fold reg_stop ids (registry_of s)"
  let ?R = "\<lambda>_ t. \<exists>ids. prefix (map Inr ids) ?H \<and> reg_failed (fold reg_stop ids (registry_of s)) (registry_of t)"
  have tr: "triple (still p (view s) s) (StopDownload cfg L source clean) ?Q ?R"
    unfolding StopDownload_def
  proof (rule stored_request [OF assms(1-6,9,10)])
    show "triple (\<lambda>u. fs.more u = fs.more s) (stop_layers clean (layers_of om)) ?Q ?R"
    proof (rule tripleI)
      fix u assume u: "fs.more u = fs.more s"
      then have "bt_inv u" using bt_inv_more assms(8) by blast
      from stop_layers_reg [OF this, where clean = clean and ls = "layers_of om"] registry_more [OF u]
      show "case stop_layers clean (layers_of om) u of (Inl x, t) \<Rightarrow> ?R x t | (Inr ids, t) \<Rightarrow> ?Q ids t"
        by (simp split: prod.splits sum.splits)
    qed
    show "?Q x v" if "?Q x u" "fs.more v = fs.more u" for x u v using that registry_more [OF that(2)] by simp
    show "?R x v" if "?R x u" "fs.more v = fs.more u" for x u v using that registry_more [OF that(2)] by simp
    show "?R x u" if "fs.more u = fs.more s" for x u
      using registry_more [OF that] by (auto simp: reg_failed_def intro!: exI [of _ "[]"])
  qed
  have "still p (view s) s s" using image_at_self [OF assms(7)] by (simp add: still_def)
  moreover have H: "?H = map (\<lambda>l. Digest_Hex (desc_Digest l)) (m_Layers om)" by (simp add: layers_of_def)
  ultimately show ?thesis
    using tr unfolding triple_def H by (fastforce split: prod.splits sum.splits)
qed

theorem stop_download_effect_witness:
  "case StopDownload demo_cfg demo_libs ''x:v1'' True demo_full of
      (Inr ids, t) \<Rightarrow>
        map Inr ids = [Digest_Hex demo_digest] \<and> registry_of t = fold reg_stop ids (registry_of demo_full)
    | (Inl x, t) \<Rightarrow>
        \<exists>ids. prefix (map Inr ids) [Digest_Hex demo_digest] \<and>
          reg_failed (fold reg_stop ids (registry_of demo_full)) (registry_of t)"
proof -
  have sha: "lib_sha demo_libs = demo_sha" and root: "c_Root demo_cfg = ''root''"
    by (simp_all add: demo_libs_def demo_cfg_def)
  have "map (\<lambda>l. Digest_Hex (desc_Digest l)) (m_Layers demo_manifest) = [Digest_Hex demo_digest]"
    by (simp add: demo_manifest_def)
  moreover have "''x:v1'' \<noteq> []" "name_ok ''v1''" by (simp_all add: name_ok_def)
  note stop_download_effect [where cfg = demo_cfg, unfolded root, OF demo_libs_laws demo_json(1) this(1) demo_dest(3,2)
    this(2) demo_full_image [folded sha] demo_full_engine(2) demo_full_manifest demo_json(2), where clean = True]
  ultimately show ?thesis by (simp only:)
qed

end
