(* ===== verification/Daemon_Status.thy ===== *)
theory Daemon_Status
  imports Daemon_Requests
begin

text \<open>
  What \<open>Status\<close> says of an image: one entry per layer of the stored manifest, each against the engine.
\<close>

section \<open>One layer\<close>

text \<open>The entry of a layer with the ID \<open>idn\<close> in the engine state \<open>s\<close>.\<close>

definition layer_report :: "'z bt_scheme \<Rightarrow> blobInfo \<Rightarrow> string \<Rightarrow> LayerDownState" where
  "layer_report s layer idn =
     (case info_of s idn of
        None \<Rightarrow> \<lparr>ls_Id = idn, ls_State = ''Dropped'', ls_Completed = b_size layer, ls_Size = b_size layer, ls_Seeding = False\<rparr>
      | Some i \<Rightarrow>
          let t = Update s (the (torrent_of s (ii_InfoHash i))) in
          \<lparr>ls_Id = idn, ls_State = State_String (t_State t), ls_Completed = t_Downloaded t, ls_Size = t_Size t,
           ls_Seeding = t_Seeding t\<rparr>)"

lemma refreshed_self: "bt_inv s \<Longrightarrow> refreshed s s"
  by (simp add: refreshed_def same_clients_def)

lemma refreshed_more: "fs.more v = fs.more u \<Longrightarrow> refreshed s u \<Longrightarrow> refreshed s v"
  using more_eqD [of v u] bt_inv_more [of v u] by (simp add: refreshed_def same_clients_def)

definition reported :: "'z bt_scheme \<Rightarrow> blobInfo \<Rightarrow> LayerDownState \<Rightarrow> bool" where
  "reported s layer x \<longleftrightarrow>
     Digest_Hex (b_digest layer) = Inr (ls_Id x) \<and> x = layer_report s layer (ls_Id x) \<and>
     (\<forall>i. info_of s (ls_Id x) = Some i \<longrightarrow> torrent_of s (ii_InfoHash i) \<noteq> None)"

text \<open>Asking for one ID refreshes its cached torrent, and nothing else.\<close>

lemma GetStatus_refreshed:
  assumes r: "refreshed s u" and i: "info_of s idn = Some i" and t: "torrent_of s (ii_InfoHash i) = Some t"
    and st: "e_started (engine u)"
  shows "\<exists>v. GetStatus idn u = (Inr (status_of idn (Update s t)), v) \<and> refreshed s v \<and> e_started (engine v)"
proof -
  have inv: "bt_inv u" and iu: "info_of u idn = Some i" and sc: "same_clients s u" using r i by (auto simp: refreshed_def)
  obtain t' where t': "torrent_of u (ii_InfoHash i) = Some t'" "t' = t \<or> t' = Update s t"
    using r t unfolding refreshed_def by (metis option.simps(9) option.sel)
  have g: "getTorrent (ii_InfoHash i) u = (Inr t', u)"
    using inv bt_inv_get_known [OF inv iu] t'(1) by (subst getTorrent_known) (auto simp: bt_inv_def)
  have up: "Update u x = Update s x" for x
    using sc by (simp add: Update_def same_clients_def Let_def)
  have t2: "Update u t' = Update s t" using t'(2) by (auto simp: up Update_again)
  have tok: "t_InfoHash t' = ii_InfoHash i" "tor_ok u t'" using bt_inv_torrent [OF inv t'(1)] by auto
  let ?v = "set_torrent (t_InfoHash t') (Update u t') u"
  have "bt_inv ?v" using inv tok by (intro bt_inv_set_torrent) auto
  then have "refreshed s ?v" using r t'(1) tok t t2 by (auto simp: refreshed_def same_clients_def)
  moreover have "t_InfoHash (Update s t) = t_InfoHash t'" using t'(2) by auto
  then have "GetStatus idn u = (Inr (status_of idn (Update s t)), ?v)"
    using st iu g t2 by (simp add: GetStatus_def when_started_run call_simps wrapE_run bindE_def)
  moreover have "e_started (engine ?v)" using st by simp
  ultimately show ?thesis by blast
qed

lemma layer_status_triple:
  "triple (refreshed s) (layer_status layer) (\<lambda>x u. reported s layer x \<and> refreshed s u) (\<lambda>_. refreshed s)"
proof (rule tripleI)
  fix u assume u: "refreshed s u"
  then have inv: "bt_inv u" and iu: "info_of u = info_of s" by (auto simp: refreshed_def)
  show "case layer_status layer u of (Inl x, v) \<Rightarrow> refreshed s v | (Inr x, v) \<Rightarrow> reported s layer x \<and> refreshed s v"
  proof (cases "Digest_Hex (b_digest layer)")
    case (Inl x)
    then show ?thesis using u by (simp add: layer_status_def run)
  next
    case (Inr idn)
    show ?thesis
    proof (cases "e_started (engine u)")
      case False
      then show ?thesis using u Inr by (simp add: layer_status_def run GetStatus_def when_started_def tryE_def bindE_def)
    next
      case st: True
      show ?thesis
      proof (cases "info_of s idn")
        case None
        then have "GetStatus idn u = (Inl ErrIdNotExist, u)" using st iu by (simp add: GetStatus_def when_started_run run)
        then show ?thesis using u Inr None
          by (simp add: layer_status_def run tryE_def bindE_def reported_def layer_report_def State_String_def Started_def Dropped_def)
      next
        case (Some i)
        show ?thesis
        proof (cases "torrent_of s (ii_InfoHash i)")
          case None
          then have "torrent_of u (ii_InfoHash i) = None" using u unfolding refreshed_def by (metis option.map_disc_iff)
          then have "getTorrent (ii_InfoHash i) u = (Inl (Msg (''Missing torrent '' @ ii_InfoHash i)), u)"
            using inv bt_inv_get_known [OF inv] Some iu by (subst getTorrent_known) (auto simp: bt_inv_def)
          then have "\<exists>w. GetStatus idn u = (Inl (Wrap w (Msg (''Missing torrent '' @ ii_InfoHash i))), u)"
            using st Some iu by (simp add: GetStatus_def when_started_run call_simps wrapE_run bindE_def)
          then show ?thesis using u Inr by (auto simp: layer_status_def run tryE_def bindE_def)
        next
          case t: (Some t)
          obtain v where "GetStatus idn u = (Inr (status_of idn (Update s t)), v)" "refreshed s v"
            using GetStatus_refreshed [OF u Some t st] by blast
          then show ?thesis using Inr Some t
            by (simp add: layer_status_def run tryE_def bindE_def reported_def layer_report_def status_of_def Let_def)
        qed
      qed
    qed
  qed
qed

lemma layer_statuses_triple:
  "triple (refreshed s) (mapE layer_status layers) (\<lambda>xs u. refreshed s u \<and> list_all2 (reported s) layers xs) (\<lambda>_. refreshed s)"
proof (induction layers)
  case (Cons l ls)
  have "triple (\<lambda>u. reported s l x \<and> refreshed s u) (bindE (mapE layer_status ls) (\<lambda>ys. returnE (x # ys)))
      (\<lambda>xs u. refreshed s u \<and> list_all2 (reported s) (l # ls) xs) (\<lambda>_. refreshed s)" for x
    by (rule triple_assume, rule triple_bind [OF Cons.IH]) (auto intro!: triple_return)
  then show ?case unfolding mapE.simps by (rule triple_bind [OF layer_status_triple])
qed (simp add: triple_return)

lemma reported_entry:
  assumes "reported s \<lparr>b_digest = d, b_size = n\<rparr> x"
  shows "Digest_Hex d = Inr (ls_Id x) \<and>
    (case info_of s (ls_Id x) of
       None \<Rightarrow> ls_State x = State_String Dropped \<and> ls_Completed x = n \<and> ls_Size x = n \<and> \<not> ls_Seeding x
     | Some i \<Rightarrow> \<exists>y. torrent_of s (ii_InfoHash i) = Some y \<and>
         ls_State x = State_String (t_State y) \<and> ls_Completed x = t_Downloaded (Update s y) \<and>
         ls_Size x = t_Size (Update s y) \<and> ls_Seeding x = t_Seeding (Update s y))"
proof -
  have d: "Digest_Hex d = Inr (ls_Id x)" and x: "x = layer_report s \<lparr>b_digest = d, b_size = n\<rparr> (ls_Id x)"
    and y: "\<And>i. info_of s (ls_Id x) = Some i \<Longrightarrow> torrent_of s (ii_InfoHash i) \<noteq> None"
    using assms by (auto simp: reported_def)
  have up: "t_State (Update s y) = t_State y" for y by (simp add: Update_def Let_def)
  show ?thesis
  proof (cases "info_of s (ls_Id x)")
    case None
    then have "x = \<lparr>ls_Id = ls_Id x, ls_State = ''Dropped'', ls_Completed = n, ls_Size = n, ls_Seeding = False\<rparr>"
      using x by (simp add: layer_report_def)
    then show ?thesis using d None by (cases x) (simp add: State_String_def Started_def Dropped_def)
  next
    case (Some i)
    then obtain z where z: "torrent_of s (ii_InfoHash i) = Some z" using y by blast
    then have "x = \<lparr>ls_Id = ls_Id x, ls_State = State_String (t_State z), ls_Completed = t_Downloaded (Update s z),
        ls_Size = t_Size (Update s z), ls_Seeding = t_Seeding (Update s z)\<rparr>"
      using x Some by (simp add: layer_report_def Let_def up)
    then show ?thesis using d Some z by (cases x) simp
  qed
qed

section \<open>The whole image\<close>

text \<open>C13. The status of a stored image: when \<open>Status\<close> succeeds it has one entry for every layer of the stored manifest,
  in order; the entry of a layer the engine knows carries the state, the completed bytes and the size of its torrent at
  that moment, and a layer the engine does not know is reported as dropped with all its bytes completed. Whether it
  succeeds or fails, it changes no registration, no handle and no client, only the cached figures.\<close>

theorem status_layers:
  assumes "libs_ok L" "json_ok L" "source \<noteq> []" "buildNamedTagged source = Inr q"
    and "buildOciDestSimple (c_Root cfg) q = Inr (p, tag)" "name_ok tag"
    and "image_at (lib_sha L) p K s" "bt_inv s"
    and "manifest_stored L p tag raw s" "man_dec L raw = Inr om"
    and "daemon_Status cfg L source s = (r, t)"
  shows "(\<forall>xs. r = Inr xs \<longrightarrow>
       list_all2 (\<lambda>l x.
         Digest_Hex (desc_Digest l) = Inr (ls_Id x) \<and>
         (case info_of s (ls_Id x) of
            None \<Rightarrow>
              ls_State x = State_String Dropped \<and> ls_Completed x = desc_Size l \<and> ls_Size x = desc_Size l \<and> \<not> ls_Seeding x
          | Some i \<Rightarrow> \<exists>y. torrent_of s (ii_InfoHash i) = Some y \<and>
              ls_State x = State_String (t_State y) \<and> ls_Completed x = t_Downloaded (Update s y) \<and>
              ls_Size x = t_Size (Update s y) \<and> ls_Seeding x = t_Seeding (Update s y)))
         (m_Layers om) xs) \<and>
     info_of t = info_of s \<and> dom (torrent_of t) = dom (torrent_of s) \<and> handles t = handles s \<and> clients t = clients s"
proof -
  have tr: "triple (still p (view s) s) (daemon_Status cfg L source)
      (\<lambda>xs u. refreshed s u \<and> list_all2 (reported s) (layers_of om) xs) (\<lambda>_. refreshed s)"
    unfolding daemon_Status_def
  proof (rule stored_request [OF assms(1-6,9,10)])
    have pre: "refreshed s u" if "fs.more u = fs.more s" for u
      using refreshed_more [OF that] refreshed_self [OF assms(8)] by simp
    then show "triple (\<lambda>u. fs.more u = fs.more s) (mapE layer_status (layers_of om))
        (\<lambda>xs u. refreshed s u \<and> list_all2 (reported s) (layers_of om) xs) (\<lambda>_. refreshed s)"
      by (rule triple_weaken [OF layer_statuses_triple])
    show "refreshed s u" if "fs.more u = fs.more s" for u by (rule pre [OF that])
  qed (use refreshed_more in auto)
  have s: "still p (view s) s s" using image_at_self [OF assms(7)] by (simp add: still_def)
  have t: "refreshed s t" and xs: "\<And>xs. r = Inr xs \<Longrightarrow> list_all2 (reported s) (layers_of om) xs"
    using tripleD_Inr [OF tr s] tripleD_Inl [OF tr s] assms(11) by (cases r; auto)+
  have "torrent_of t ih = None \<longleftrightarrow> torrent_of s ih = None" for ih
    using t unfolding refreshed_def by (metis option.map_disc_iff)
  then have "dom (torrent_of t) = dom (torrent_of s)" by (auto simp: dom_def)
  moreover have "list_all2 P (m_Layers om) xs"
    if "r = Inr xs" and P: "\<And>l x. reported s \<lparr>b_digest = desc_Digest l, b_size = desc_Size l\<rparr> x \<Longrightarrow> P l x" for xs P
    using xs [OF that(1)] by (auto simp: layers_of_def list.rel_map intro: P elim!: list.rel_mono_strong)
  ultimately show ?thesis
    using t reported_entry [of s] by (simp add: refreshed_def same_clients_def)
qed

theorem status_layers_witness:
  "\<exists>x t. daemon_Status demo_cfg demo_libs ''x:v1'' demo_full = (Inr [x], t) \<and>
     ls_State x = ''Dropped'' \<and> ls_Completed x = 3 \<and> info_of t = info_of demo_full"
proof -
  have sha: "lib_sha demo_libs = demo_sha" and root: "c_Root demo_cfg = ''root''"
    by (simp_all add: demo_libs_def demo_cfg_def)
  obtain i v u where i: "newOciImageSimple ''root'' (TaggedRef ''x'' ''v1'') demo_full = (Inr i, v)"
    "getOciImageLayers demo_libs i v = (Inr [\<lparr>b_digest = demo_digest, b_size = 3\<rparr>], u)" "fs.more u = fs.more demo_full"
    using demo_full_request by blast
  have e: "engine u = engine demo_bt" using more_eqD(4) [OF i(3)] demo_full_engine(1) by simp
  obtain idn where d: "Digest_Hex demo_digest = Inr idn"
    by (simp add: demo_digest_def blob_digest_def Digest_Hex_def BlobAlgorithm_def)
  have "GetStatus idn u = (Inl ErrIdNotExist, u)" using e by (simp add: GetStatus_def when_started_run run)
  then obtain y where y: "layer_status \<lparr>b_digest = demo_digest, b_size = 3\<rparr> u = (Inr y, u)"
    using d by (simp add: layer_status_def run tryE_def bindE_def)
  have "buildNamedTagged ''x:v1'' = Inr (TaggedRef ''x'' ''v1'')" by (rule demo_dest(3))
  then have run: "daemon_Status demo_cfg demo_libs ''x:v1'' demo_full = (Inr [y], snd (OciImage_Close i u))"
    using i y by (simp add: daemon_Status_def with_image_def root run deferE_def)
  have "''x:v1'' \<noteq> []" "name_ok ''v1''" by (simp_all add: name_ok_def)
  note got = status_layers [where cfg = demo_cfg, unfolded root, OF demo_libs_laws demo_json(1) this(1) demo_dest(3,2)
    this(2) demo_full_image [folded sha] demo_full_engine(2) demo_full_manifest demo_json(2) run]
  have "info_of demo_full idn = None" for idn using demo_full_engine(1) by simp
  then show ?thesis
    using got run by (auto simp: demo_manifest_def State_String_def Started_def Dropped_def)
qed

end
