(* ===== verification/Disk_Frames.thy ===== *)
theory Disk_Frames
  imports Api_Server
begin

text \<open>
  A contract for what every request keeps of the file system: a property of the state that the
  system calls and the engine's primitive updates keep is kept by every handler of the API.
  \<open>linked\<close> says whether hard links keep it; if they do not, the handlers have to run in copying
  mode. Well_Formed and Seeder interpret it.
\<close>

lemma keeps_syscall:
  assumes "\<And>s fl. I s \<Longrightarrow> I (s\<lparr>faults := fl\<rparr>)" "\<And>s. I s \<Longrightarrow> I (snd (f s))"
  shows "keeps I (syscall f)"
proof (rule keepsI)
  fix s assume s: "I s"
  then show "I (snd (syscall f s))"
    using assms by (auto simp: syscall_def split: list.splits option.splits)
qed

lemma keeps_shapes [keep]:
  "keeps I m \<Longrightarrow> (\<And>i. keeps I (f i)) \<Longrightarrow> keeps I (case n of Dir \<Rightarrow> m | File i \<Rightarrow> f i)"
  "keeps I m \<Longrightarrow> (\<And>x xs. keeps I (g x xs)) \<Longrightarrow> keeps I (case l of [] \<Rightarrow> m | x # xs \<Rightarrow> g x xs)"
  by (simp_all split: node.split list.split)

locale disk_frame = net_frame I
  for I :: "'z bt_scheme \<Rightarrow> bool" +
  fixes linked :: bool
  assumes schedule: "I s \<Longrightarrow> I (s\<lparr>faults := fl\<rparr>)"
    and suffix: "I s \<Longrightarrow> I (s\<lparr>rnd := \<lambda>n. rnd s (Suc n)\<rparr>)"
    and content: "I s \<Longrightarrow> I (s\<lparr>inodes := g\<rparr>)"
    and create: "keeps I (os_Create f)" and excl: "keeps I (create_excl f)"
    and mkdir: "keeps I (syscall (k_mkdir ps))"
    and rename: "keeps I (os_Rename a b)" and remove: "keeps I (os_Remove f)" and remove_all: "keeps I (os_RemoveAll f)"
    and hardlink: "linked \<Longrightarrow> keeps I (os_Link a b)"
begin

lemma look: "keeps I (syscall (\<lambda>s. (f s, s)))"
  by (rule keeps_syscall) (auto intro: schedule)

lemma sys: "keeps I (os_Stat f)" "keeps I (os_Open f)" "keeps I (read_all n)" "keeps I (ioutil_ReadFile f)"
  unfolding os_Stat_def os_Open_def read_all_def ioutil_ReadFile_def by (intro keep look)+

lemma writing: "keeps I (file_Write i bs)"
  by (rule keepsI) (auto simp: file_Write_def append_to_def split: list.splits option.splits intro: content schedule)

lemma reader: "keeps I (file_reader n)" "keeps I (io_Copy i rd)"
  by (rule keepsI, auto simp: file_reader_def split: node.splits list.splits option.splits intro: schedule)
    (unfold io_Copy_def, intro keep writing)

lemma temp: "(\<And>q. keeps I (mk q)) \<Longrightarrow> keeps I (temp_loop mk n dir pre)"
proof (induction n)
  case (Suc n)
  have "keeps I nextSuffix" by (rule keepsI) (auto simp: nextSuffix_def intro: suffix)
  then show ?case unfolding temp_loop.simps by (intro keep Suc)
qed (simp add: keeps_simple)

lemma dirs: "keeps I (os_Mkdir f)" "keeps I (os_MkdirAll f)"
  "keeps I (ioutil_TempFile dir pre)" "keeps I (ioutil_TempDir dir pre)"
proof -
  show 1: "keeps I (os_Mkdir f)" for f unfolding os_Mkdir_def by (rule mkdir)
  have "keeps I (mkdirAll cs)" for cs by (induction cs) (auto intro!: keep mkdir look split: node.splits)
  then show "keeps I (os_MkdirAll f)" by (simp add: os_MkdirAll_def)
  show "keeps I (ioutil_TempFile dir pre)" "keeps I (ioutil_TempDir dir pre)"
    unfolding ioutil_TempFile_def ioutil_TempDir_def by (intro keep temp excl 1)+
qed

lemmas calls = look sys writing reader dirs create excl rename remove remove_all

section \<open>Images\<close>

lemma layout:
  "keeps I (Open p)" "keeps I (PutBlob sha e rd)" "keeps I (GetBlob e d)" "keeps I (GetBlobPath e d)"
  "keeps I (Exist e d)" "keeps I (Close e)" "keeps I (GetReference dec e n)" "keeps I (PutReference enc dec e n v)"
proof -
  show 1: "keeps I (GetReference dec e n)" for dec e n unfolding GetReference_def Let_def by (intro keep calls)
  show "keeps I (PutReference enc dec e n v)" unfolding PutReference_def Let_def by (intro keep calls 1)
  show "keeps I (Open p)" unfolding Open_def newDirLayout_def initialize_def Let_def by (intro keep calls)
  show "keeps I (PutBlob sha e rd)" "keeps I (GetBlob e d)" "keeps I (GetBlobPath e d)"
    "keeps I (Exist e d)" "keeps I (Close e)"
    unfolding PutBlob_def GetBlob_def GetBlobPath_def Exist_def Close_def Let_def by (intro keep calls)+
qed

lemma images:
  "keeps I (newOciImage root r)" "keeps I (newOciImageSimple root q)" "keeps I (OciImage_Close i)"
  "keeps I (putManifest L i raw)" "keeps I (getOciImageLayers L i)" "keeps I (pull_config L i img)"
  "keeps I (copyLayer L i src l)"
  unfolding newOciImage_def newOciImageSimple_def OciImage_Close_def putManifest_def getOciImageLayers_def
    pull_config_def copyLayer_def Let_def
  by (intro keep layout calls)+

section \<open>Torrents\<close>

lemma torrents: "keeps I (StartSeed c idn)" "keeps I (DeleteTorrent idn)"
proof -
  have build: "keeps I (BuildFromFilePath c f i)" "keeps I (LoadFromFile c f)" for f i
    unfolding BuildFromFilePath_def LoadFromFile_def Let_def by (intro keep calls)+
  have "keeps I (createTorrent c idn)"
    unfolding createTorrent_def Let_def by (intro keep calls build)
  then show "keeps I (StartSeed c idn)" unfolding StartSeed_def
    by (intro guard keeps_bind keeps_simple keeps_cases keeps_modify set_simps keeps_wrap keeps_try
        calls build registering)
  have "keeps I (remove_quiet w f)" for w f unfolding remove_quiet_def by (intro keep calls)
  then show "keeps I (DeleteTorrent idn)" unfolding DeleteTorrent_def
    by (intro guard keeps_bind keeps_cases keeps_simple keeps_wrap uncaching keeps_modify engine)
qed

lemma leeching: "(\<And>s. I s \<Longrightarrow> I (env s)) \<Longrightarrow> keeps I (StartLeecher c env n idn d reporting)"
proof -
  assume env: "\<And>s. I s \<Longrightarrow> I (env s)"
  have "keeps I (waitComplete env n tt)" for tt
    by (induction n) (auto intro!: keep env)
  then show ?thesis unfolding StartLeecher_def
    by (intro guard keeps_bind keeps_simple keeps_cases keeps_modify set_simps keeps_wrap registering)
qed

section \<open>Handlers\<close>

lemma seeding_layer:
  assumes "c_UseHardlink cfg \<Longrightarrow> linked"
  shows "keeps I (startSeedingLayer cfg L i d)"
proof (cases "c_UseHardlink cfg")
  case True
  then have "linked" by (rule assms)
  then show ?thesis unfolding startSeedingLayer_def by (intro keep layout calls torrents hardlink)
next
  case False
  then show ?thesis unfolding startSeedingLayer_def by (simp, intro keep layout calls torrents)
qed

lemma seeding: "(c_UseHardlink cfg \<Longrightarrow> linked) \<Longrightarrow> keeps I (startSeederDownload cfg L ctx source)"
  unfolding startSeederDownload_def seed_layer_def Let_def by (intro keep images layout seeding_layer)

lemma leeching_layer:
  assumes "c_UseHardlink cfg \<Longrightarrow> linked" "\<And>s. I s \<Longrightarrow> I (env s)"
  shows "keeps I (startLeechingLayer cfg L env fuel reporting i l)"
proof (cases "c_UseHardlink cfg")
  case True
  then have "linked" by (rule assms)
  then show ?thesis unfolding startLeechingLayer_def by (intro keep layout calls hardlink leeching assms(2))
next
  case False
  then have "c_UseHardlink cfg = False" by simp
  then show ?thesis unfolding startLeechingLayer_def by (simp only: if_False cong: if_cong) (intro keep layout calls leeching assms(2))
qed

lemma leeching_layers:
  assumes "c_UseHardlink cfg \<Longrightarrow> linked" "\<And>s. I s \<Longrightarrow> I (env s)"
  shows "keeps I (leech_layers cfg L env fuel reporting i ls)"
  by (induction ls) (auto intro!: keep layout leeching_layer assms)

lemma leecher:
  assumes "c_UseHardlink cfg \<Longrightarrow> linked" "\<And>s. I s \<Longrightarrow> I (env s)"
  shows "keeps I (startLeecherDownload cfg L env fuel reporting ctx source)"
  unfolding startLeecherDownload_def Let_def by (intro keep keeps_deferB images leeching_layers assms)

lemma downloading:
  assumes "c_UseHardlink cfg \<Longrightarrow> linked" "\<And>s. I s \<Longrightarrow> I (env s)"
  shows "keeps I (StartDownload cfg L env fuel ctx r)"
  unfolding StartDownload_def Let_def by (intro keep seeding leecher assms)

lemma on_image: "(\<And>i. keeps I (body i)) \<Longrightarrow> keeps I (with_image cfg source body)"
  unfolding with_image_def by (intro keep images)

text \<open>Every request keeps the property.\<close>

lemma api:
  assumes "c_UseHardlink cfg \<Longrightarrow> linked" "\<And>s. I s \<Longrightarrow> I (env s)"
  shows "keeps I (apiServer cfg L commit env fuel q)"
proof -
  have "keeps I (stop_layers clean ls)" for clean ls
    by (induction ls) (auto intro!: keep stopping torrents)
  then have "keeps I (StopDownload cfg L source clean)" for source clean
    unfolding StopDownload_def by (intro on_image keep images)
  moreover have "keeps I (layer_status l)" for l
    unfolding layer_status_def by (intro keep reporting)
  then have "keeps I (daemon_Status cfg L source)" for source
    unfolding daemon_Status_def by (intro on_image keep images)
  moreover have "keeps I (daemon_GetTorrent L idn)" for idn
    unfolding daemon_GetTorrent_def engine_GetTorrent_def by (intro guard keep lookup)
  ultimately show ?thesis
    unfolding apiServer_def by (cases q) (auto intro!: keep downloading assms)
qed

text \<open>So does every run of a server.\<close>

lemma running:
  assumes "served cfg L commit env s qs t" "c_UseHardlink cfg \<Longrightarrow> linked" "\<And>s. I s \<Longrightarrow> I (env s)" "I s"
  shows "I t"
  using assms(1)
proof (induction rule: served.induct)
  case (request qs t fuel q r u)
  have "I (snd (apiServer cfg L commit env fuel q t))"
    by (rule keepsD [OF api [OF assms(2,3)]]) (use request.IH in auto)
  then show ?case using request.hyps(2) by simp
qed (use assms in auto)

end

end
