(* ===== verification/Well_Formed.thy ===== *)
theory Well_Formed
  imports Daemon_Stored Disk_Frames
begin

text \<open>
  Well-formedness of the file system under every call of the program: the table of nodes stays a
  tree, with a directory above every node and no number of a file that was not given out. The
  frame \<open>none_at A\<close> also says which paths a call does not make; with no paths it is \<open>wf_fs\<close>.
\<close>

section \<open>System calls\<close>

lemma none_at_empty: "none_at {} = wf_fs"
  by (simp add: none_at_def fun_eq_iff)

lemma none_at_set:
  "none_at A s \<Longrightarrow> node_at s ps \<noteq> Some Dir \<Longrightarrow> node_at s (butlast ps) = Some Dir \<Longrightarrow>
   (\<And>i. n = File i \<Longrightarrow> i < next_ino s) \<Longrightarrow> ps \<notin> A \<Longrightarrow> none_at A (set_node ps n s)"
  using wf_set_node [of s ps n] by (auto simp: none_at_def)

lemma none_at_rename:
  fixes a b :: string
  assumes b: "comps b \<notin> A"
  shows "keeps (none_at A :: 'z fs_scheme \<Rightarrow> bool) (os_Rename a b)"
  unfolding os_Rename_def
proof (rule triple_syscall)
  fix s t :: "'z fs_scheme" and u
  assume s: "none_at A s" and k: "k_rename (comps a) (comps b) s = (Inr u, t)"
  then have wf: "wf_fs s" by (simp add: none_at_def)
  obtain i r where ra: "resolve s (comps a) = Inr (File i)" and r: "resolve_new s (comps b) = Inr r" "r \<noteq> Some Dir"
    and t: "t = (if r = Some (File i) then s else set_node (comps b) (File i) (del_node (comps a) s))"
    using k by (auto simp: k_rename_def split: sum.splits option.splits node.splits)
  have na: "node_at s (comps a) = Some (File i)" by (rule resolve_Inr [OF ra])
  note D = resolve_new_InrD [OF wf r(1)]
  have pb: "is_path (comps b)" using D(1) r(2) by (auto intro: node_not_dir_path [of s])
  then have pd: "node_at s (butlast (comps b)) = Some Dir" using D(2) by (auto simp: is_path_def)
  have d: "none_at A (del_node (comps a) s)" using s wf_del_file [OF wf na] by (auto simp: none_at_def)
  have "butlast (comps b) \<noteq> comps a" using pd na by auto
  then have "none_at A (set_node (comps b) (File i) (del_node (comps a) s))"
    using D(1) r(2) pd wf_fs_ino [OF wf na] b by (intro none_at_set d) auto
  then show "none_at A t" using s t by simp
qed (auto simp: none_at_def k_rename_def split: sum.splits option.splits node.splits)

lemma none_at_remove [keep]: "keeps (none_at A :: 'z fs_scheme \<Rightarrow> bool) (os_Remove p)"
  unfolding os_Remove_def
proof (rule triple_syscall)
  fix s t :: "'z fs_scheme" and u
  assume "none_at A s" "k_remove (comps p) s = (Inr u, t)"
  then show "none_at A t" using k_remove_Inr(1,2) [of s "comps p" u t] by (auto simp: none_at_view simp del: view_simps)
next
  fix s t :: "'z fs_scheme" and e
  assume "none_at A s" "k_remove (comps p) s = (Inl e, t)"
  then show "none_at A t" using k_remove_Inl by blast
qed (auto simp: none_at_def)

lemma none_at_removeAll [keep]: "keeps (none_at A :: 'z fs_scheme \<Rightarrow> bool) (os_RemoveAll p)"
  unfolding os_RemoveAll_def
proof (rule triple_syscall)
  fix s t :: "'z fs_scheme" and u
  assume s: "none_at A s" and "k_removeAll (comps p) s = (Inr u, t)"
  then have t: "t = s\<lparr>tree := filter (\<lambda>(k, n). \<not> prefix (comps p) k) (tree s)\<rparr>" by (simp add: k_removeAll_def)
  have wf: "wf_fs s" using s by (simp add: none_at_def)
  have m: "map_of (tree t) k = (if prefix (comps p) k then None else map_of (tree s) k)" for k
    by (simp add: t map_of_filter_key)
  have "distinct (map fst (tree t))"
    using wf by (simp add: t wf_fs_def) (metis distinct_map_filter)
  moreover have "\<not> prefix (comps p) (butlast k)" if "\<not> prefix (comps p) k" for k
    using that prefix_order.trans [OF _ prefixeq_butlast] by blast
  ultimately have "wf_fs t"
    using wf m unfolding wf_fs_def node_at_def by (auto simp: t split: if_splits)
  then show "none_at A t" using s m by (auto simp: none_at_def node_at_def split: if_splits)
qed (auto simp: none_at_def k_removeAll_def)

lemma none_at_link: "comps b \<notin> A \<Longrightarrow> keeps (none_at A :: 'z fs_scheme \<Rightarrow> bool) (os_Link a b)"
  unfolding os_Link_def
proof (rule triple_syscall)
  fix s t :: "'z fs_scheme" and u
  assume b: "comps b \<notin> A" and s: "none_at A s" and k: "k_link (comps a) (comps b) s = (Inr u, t)"
  have wf: "wf_fs s" using s by (simp add: none_at_def)
  obtain i where ra: "resolve s (comps a) = Inr (File i)" and r: "resolve_new s (comps b) = Inr None"
    and t: "t = set_node (comps b) (File i) s"
    using k by (auto simp: k_link_def split: sum.splits option.splits node.splits)
  note D = resolve_new_InrD [OF wf r]
  have "is_path (comps b)" using D(1) by (auto intro: node_not_dir_path [of s])
  then have "node_at s (butlast (comps b)) = Some Dir" using D(2) by (auto simp: is_path_def)
  then show "none_at A t" unfolding t using D(1) wf_fs_ino [OF wf resolve_Inr [OF ra]] b by (intro none_at_set s) auto
qed (auto simp: none_at_def k_link_def split: sum.splits option.splits node.splits)

lemma none_at_open [keep]:
  "keeps (none_at A) (os_Open p)" "keeps (none_at A) (read_all n)" "keeps (none_at A) (ioutil_ReadDir p)"
  unfolding os_Open_def read_all_def ioutil_ReadDir_def by (rule none_at_look)+

lemma none_at_readFile [keep]: "keeps (none_at A) (ioutil_ReadFile p)"
  unfolding ioutil_ReadFile_def by (intro keep)

lemma none_at_file_reader [keep]: "keeps (none_at A) (file_reader n)"
  by (rule keepsI) (auto simp: file_reader_def none_at_def split: node.splits list.splits option.splits)

lemma none_at_io_Copy [keep]: "keeps (none_at A) (io_Copy fh rd)"
  unfolding io_Copy_def by (intro keep)

lemma none_at_temp:
  assumes "\<And>q. keeps (none_at A :: 'z fs_scheme \<Rightarrow> bool) (mk q)"
  shows "keeps (none_at A :: 'z fs_scheme \<Rightarrow> bool) (temp_loop mk n dir pre)"
proof (induction n)
  case (Suc n)
  have "keeps (none_at A :: 'z fs_scheme \<Rightarrow> bool) nextSuffix"
    by (rule keepsI) (auto simp: nextSuffix_def none_at_def wf_fs_def node_at_def)
  then show ?case unfolding temp_loop.simps
    by (intro keeps_bind keeps_try assms keeps_cases keeps_simple Suc.IH)
qed (simp add: keeps_simple)

lemma none_at_create_excl: "comps p \<notin> A \<Longrightarrow> keeps (none_at A :: 'z fs_scheme \<Rightarrow> bool) (create_excl p)"
  unfolding create_excl_def
proof (rule triple_syscall)
  fix s t :: "'z fs_scheme" and u
  assume A: "comps p \<notin> A" and s: "none_at A s" and k: "k_create_excl (comps p) s = (Inr u, t)"
  have wf: "wf_fs s" using s by (simp add: none_at_def)
  from k have r: "resolve_new s (comps p) = Inr None" and n: "new_file (comps p) s = (Inr u, t)"
    by (auto simp: k_create_excl_def split: sum.splits option.splits)
  have "node_at s (comps p) = None" "node_at s (butlast (comps p)) = Some Dir"
    using resolve_new_InrD [OF wf r] by auto
  from new_file_props(2,3) [OF wf this n] show "none_at A t" using s A by (auto simp: none_at_view)
qed (auto simp: none_at_def k_create_excl_def new_file_def split: sum.splits option.splits)

section \<open>The image\<close>

lemma none_at_layout [keep]:
  "keeps (none_at A) (GetBlob e d)" "keeps (none_at A) (GetBlobPath e d)" "keeps (none_at A) (Exist e d)"
  "keeps (none_at A) (Close e)"
  unfolding GetBlob_def GetBlobPath_def Exist_def Close_def by (intro keep)+

section \<open>The engine\<close>

lemma none_at_disk: "node_at t = node_at s \<Longrightarrow> tree t = tree s \<Longrightarrow> next_ino t = next_ino s \<Longrightarrow> rnd t = rnd s \<Longrightarrow>
    none_at A s \<Longrightarrow> none_at A t"
  by (simp add: none_at_def wf_fs_def)

interpretation nodes: net_frame "none_at A" for A
  by unfold_locales (erule none_at_disk [rotated 4]; auto simp: upd_engine_def upd_handle_def upd_client_def intro: node_at_cong)+

lemma none_at_build [keep]: "keeps (none_at A) (BuildFromFilePath c root info)" "keeps (none_at A) (LoadFromFile c f)"
  unfolding BuildFromFilePath_def LoadFromFile_def Let_def by (intro keep)+

text \<open>A seed makes no file but the torrent file.\<close>

lemma none_at_StartSeed:
  assumes "\<And>e. comps (GetTorrentFilePath e idn) \<notin> A"
  shows "keeps (none_at A :: 'z bt_scheme \<Rightarrow> bool) (StartSeed c idn)"
proof -
  have "keeps (none_at A :: 'z bt_scheme \<Rightarrow> bool) (createTorrent c idn)"
    unfolding createTorrent_def Let_def
    by (intro keep none_at_create assms)
  then show ?thesis unfolding StartSeed_def
    by (intro nodes.guard keeps_bind keeps_simple keeps_cases keeps_modify nodes.set_simps keeps_wrap keeps_try
        none_at_stat none_at_build nodes.registering)
qed

section \<open>The handlers\<close>

lemma none_at_startSeedingLayer:
  assumes "\<And>e idn. comps (GetTorrentFilePath e idn) \<notin> A" "\<And>e idn. comps (GetFilePath e idn) \<notin> A"
  shows "keeps (none_at A :: 'z bt_scheme \<Rightarrow> bool) (startSeedingLayer cfg L i d)"
  unfolding startSeedingLayer_def
  by (intro keeps_bind [OF keeps_simple(3)] keeps_get_bind)
    (intro keep none_at_create none_at_link none_at_StartSeed assms)

text \<open>With no paths asked for, every call keeps the frame, hard links included.\<close>

interpretation tree: disk_frame "none_at {}" True
proof
  fix s :: "'z bt_scheme" and fl g
  assume "none_at {} s"
  then show "none_at {} (s\<lparr>faults := fl\<rparr>)" "none_at {} (s\<lparr>inodes := g\<rparr>)"
    "none_at {} (s\<lparr>rnd := \<lambda>n. rnd s (Suc n)\<rparr>)"
    by (auto simp: none_at_def wf_fs_def node_at_def)
qed (simp_all add: none_at_create none_at_create_excl none_at_k_mkdir none_at_rename none_at_remove none_at_removeAll
    none_at_link)

section \<open>All requests, in every mode\<close>

text \<open>C15. Well-formedness is preserved: over every run of a server, as a seeder or a leecher, with hard links or
  copies, whatever the requests name, whatever the registry and the peers deliver and whatever fails, the file system
  stays a tree (every node has a directory above it, no path is bound twice, every file number in use was given
  out) and the engine's registry, cache and client stay consistent, given an environment that keeps both.\<close>

theorem requests_well_formed:
  assumes "libs_ok L" "\<And>u. wf_fs u \<Longrightarrow> wf_fs (env u)" "\<And>u. bt_inv u \<Longrightarrow> bt_inv (env u)"
    and "wf_fs s" "bt_inv s" "served cfg L commit env s qs t"
  shows "wf_fs t \<and> bt_inv t"
proof
  show "wf_fs t" using tree.running [OF assms(6)] assms(2,4) by (simp add: none_at_empty)
  show "bt_inv t"
    using assms(6)
  proof (induction rule: served.induct)
    case (request qs t fuel q r u)
    have "bt_inv (snd (apiServer cfg L commit env fuel q t))"
      by (rule keepsD [OF bt_inv_apiServer [OF assms(1,3)]]) (use request.IH in auto)
    then show ?case using request.hyps(2) by simp
  qed (use assms(3,5) in auto)
qed

theorem requests_well_formed_witness:
  "\<exists>r t u. apiServer (demo_cfg\<lparr>c_BtSeeder := True, c_UseHardlink := True\<rparr>) demo_libs ''git'' (\<lambda>s. s) 0
       (StartRequest (\<lambda>_. None) \<lparr>sd_Source = ''docker://x:v1'', sd_Stdout = [], sd_Stderr = [], sd_Username = [], sd_Password = []\<rparr>) demo_daemon = (r, t) \<and>
     served (demo_cfg\<lparr>c_BtSeeder := True, c_UseHardlink := True\<rparr>) demo_libs ''git'' (\<lambda>s. s) demo_daemon
       [StartRequest (\<lambda>_. None) \<lparr>sd_Source = ''docker://x:v1'', sd_Stdout = [], sd_Stderr = [], sd_Username = [], sd_Password = []\<rparr>, StatusRequest ''x:v1''] u \<and>
     wf_fs u \<and> bt_inv u"
proof -
  let ?c = "demo_cfg\<lparr>c_BtSeeder := True, c_UseHardlink := True\<rparr>"
  let ?q = "StartRequest (\<lambda>_. None) \<lparr>sd_Source = ''docker://x:v1'', sd_Stdout = [], sd_Stderr = [], sd_Username = [], sd_Password = []\<rparr>"
  obtain r t where 1: "apiServer ?c demo_libs ''git'' (\<lambda>s. s) 0 ?q demo_daemon = (r, t)" by fastforce
  obtain r' u where 2: "apiServer ?c demo_libs ''git'' (\<lambda>s. s) 0 (StatusRequest ''x:v1'') t = (r', u)" by fastforce
  have run: "served ?c demo_libs ''git'' (\<lambda>s. s) demo_daemon [?q, StatusRequest ''x:v1''] u"
    using served.request [OF served.request [OF served.start 1] 2] by simp
  have "wf_fs u \<and> bt_inv u"
    by (rule requests_well_formed [OF demo_libs_laws _ _ demo_daemon_wf demo_daemon_inv run])
  then show ?thesis using 1 run by blast
qed

end
