(* ===== verification/Daemon_Gaps.thy ===== *)
theory Daemon_Gaps
  imports Daemon_Status Well_Formed
begin

text \<open>
  What the daemon does not keep: a seeded image gets no reference, so it can be neither reported nor
  stopped; a hard-linked layer is not verified and stays writable by the torrent client.
\<close>

section \<open>Sessions over paths that are not made\<close>

lemma newDirLayout_none_at:
  assumes p: "image_paths p" and A: "A \<subseteq> image_keys p"
  shows "triple (none_at A :: 'z fs_scheme \<Rightarrow> bool) (newDirLayout p)
     (\<lambda>e s. (l_path e = p \<and> layout_ok e) \<and> none_at A s) (\<lambda>_. none_at A)"
proof -
  have ini: "keeps (none_at A :: 'z fs_scheme \<Rightarrow> bool) (initialize \<lparr>l_path = p, l_temp = []\<rparr>)"
    by (rule initialize_none_at) (simp_all add: p A)
  have tmp: "triple (none_at A :: 'z fs_scheme \<Rightarrow> bool) (ioutil_TempDir p ''tmp-'')
      (\<lambda>nm s. ((\<exists>sfx. comps nm = comps p @ [''tmp-'' @ sfx]) \<and> Clean nm = nm) \<and> none_at A s) (\<lambda>_. none_at A)"
  proof (rule tripleI)
    fix s :: "'z fs_scheme" assume s: "none_at A s"
    have st: "fs_st False (view s) s" using s by (simp add: fs_st_def none_at_def)
    have "temp_prefix ''tmp-''" "p \<noteq> []" "Clean p = p" using p by (auto simp: temp_prefix_def image_paths_def)
    note tr = ioutil_TempDir_triple [OF this(1,2), where c = False and V = "view s", simplified, unfolded \<open>Clean p = p\<close>]
    have new: "none_at A t"
      if "comps nm = comps p @ [''tmp-'' @ sfx]" "fs_st False ((view s)(comps nm \<mapsto> None)) t" for t :: "'z fs_scheme" and nm sfx
    proof -
      have "comps nm \<notin> A" using that(1) A image_keys_simps(1) [of p] by auto
      then show ?thesis using s that by (auto simp: none_at_view fs_st_def simp del: view_simps)
    qed
    have same: "none_at A t" if "fs_st False (view s) t" for t :: "'z fs_scheme"
      using s that by (auto simp: none_at_view fs_st_def simp del: view_simps)
    show "case ioutil_TempDir p ''tmp-'' s of (Inl e, t) \<Rightarrow> none_at A t
        | (Inr nm, t) \<Rightarrow> ((\<exists>sfx. comps nm = comps p @ [''tmp-'' @ sfx]) \<and> Clean nm = nm) \<and> none_at A t"
      using tripleD_Inr [OF tr st] tripleD_Inl [OF tr st] by (fastforce split: prod.splits sum.splits intro: new same)
  qed
  show ?thesis
    unfolding newDirLayout_def Let_def dirLayout.select_convs
    by (intro triple_then [OF ini] triple_bind [OF tmp] triple_return)
      (use p in \<open>auto simp: layout_ok_def image_paths_def\<close>)
qed

lemma none_at_PutBlob:
  assumes e: "session sha p e"
  shows "keeps (none_at {ref_file p n} :: 'z fs_scheme \<Rightarrow> bool) (PutBlob sha e rd)"
proof (rule keepsI)
  fix s :: "'z fs_scheme" assume s: "none_at {ref_file p n} s"
  have le: "layout_ok e" "sha_ok sha" "l_path e = p" using e by (auto simp: session_def)
  have st: "fs_st False (view s) s" using s by (simp add: fs_st_def none_at_def)
  note tr = PutBlob_triple [OF le(1,2), where c = False and V = "view s" and d = "fst rd" and err = "snd rd", simplified]
  obtain sfx where T: "comps (l_temp e) = comps p @ [''tmp-'' @ sfx]" using le by (auto simp: layout_ok_def)
  have "\<not> prefix (comps (l_temp e)) (ref_file p n)" by (simp add: T ref_file_def refDirectory_def)
  then have old: "none_at {ref_file p n} t" if "agree (comps (l_temp e)) (view s) t" for t :: "'z fs_scheme"
    using s that by (auto simp: none_at_view agree_def simp del: view_simps)
  have new: "none_at {ref_file p n} t" if "fs_st False ((view s)(blob_file p h \<mapsto> x)) t" for t :: "'z fs_scheme" and h x
    using s that by (auto simp: none_at_view fs_st_def simp del: view_simps)
  show "none_at {ref_file p n} (snd (PutBlob sha e rd s))"
  proof (cases "PutBlob sha e rd s")
    case (Pair r t)
    show ?thesis
    proof (cases r)
      case (Inl x)
      then show ?thesis using tripleD_Inl [OF tr st] Pair by (auto intro: old)
    next
      case (Inr q)
      then show ?thesis using tripleD_Inr [OF tr st] Pair new le(3) by (cases q) fastforce
    qed
  qed
qed

section \<open>A seeder's download\<close>

lemma engine_file_not_ref:
  assumes "\<not> suffix ''.layer'' tag" "\<not> suffix ''.torrent'' tag"
  shows "comps (GetFilePath e idn) \<noteq> ref_file p tag" "comps (GetTorrentFilePath e idn) \<noteq> ref_file p tag"
  using engine_file_apart(4) [OF engine_file_paths(1)] engine_file_apart(4) [OF engine_file_paths(2)] assms by blast+

lemma seeder_none_at:
  assumes "sha_ok (lib_sha L)" "ParseImageName L source = Inr ref"
    and dst: "buildOciDestFromReference (c_Root cfg) ref = Inr (p, tag)"
    and tag: "\<not> suffix ''.layer'' tag" "\<not> suffix ''.torrent'' tag"
  shows "keeps (none_at {ref_file p tag} :: 'z bt_scheme \<Rightarrow> bool) (startSeederDownload cfg L ctx source)"
proof -
  let ?I = "none_at {ref_file p tag} :: 'z bt_scheme \<Rightarrow> bool"
  note no = engine_file_not_ref [OF tag]
  have seed: "keeps ?I (startSeedingLayer cfg L i d)" for i d
    by (rule none_at_startSeedingLayer) (use no in auto)
  have layer: "keeps ?I (seed_layer cfg L i src l)" if "session (lib_sha L) p (oi_layout i)" for i src l
    unfolding seed_layer_def copyLayer_def by (intro keep seed none_at_PutBlob that)
  have open_image: "triple ?I (newOciImage (c_Root cfg) ref) (\<lambda>i s. session (lib_sha L) p (oi_layout i) \<and> ?I s) (\<lambda>_. ?I)"
  proof -
    have *: "newOciImage (c_Root cfg) ref = bindE (newDirLayout p) (\<lambda>layout. returnE \<lparr>oi_path = p, oi_ref = tag, oi_layout = layout\<rparr>)"
      by (simp add: newOciImage_def dst Open_def)
    have "{ref_file p tag} \<subseteq> image_keys p" by simp
    from newDirLayout_none_at [OF dest_paths(1) [OF dst] this] show ?thesis unfolding *
      by (rule triple_bind) (auto intro!: triple_return simp: session_def assms(1))
  qed
  have body: "triple (\<lambda>s. session (lib_sha L) p (oi_layout i) \<and> ?I s)
      (deferE (OciImage_Close i) (forE ls (seed_layer cfg L i src))) (\<lambda>_. ?I) (\<lambda>_. ?I)" for i src ls
    unfolding OciImage_Close_def by (rule triple_assume) (intro keep layer)
  have step: "bindE (wrapE w (liftE (Inr x))) f = f x" for w x and f :: "'b \<Rightarrow> ('z bt_scheme, unit) call"
    by (simp add: fun_eq_iff bindE_def wrapE_run run)
  have rest: "keeps ?I (bindE (newOciImage (c_Root cfg) ref) (\<lambda>i. deferE (OciImage_Close i) (forE ls (seed_layer cfg L i src))))" for ls src
    by (rule triple_bind [OF open_image body])
  show ?thesis
    unfolding startSeederDownload_def Let_def assms(2) step
    by (intro keeps_cases keeps_simple keeps_bind [OF keeps_wrap [OF keeps_simple(3)]] rest)
qed

section \<open>An image without its reference\<close>

lemma image_request_fails:
  fixes s :: "'z bt_scheme"
  assumes "buildNamedTagged source = Inr q" "buildOciDestSimple (c_Root cfg) q = Inr (p, tag)" "name_ok tag"
    and s: "none_at {ref_file p tag} s"
    and call: "with_image cfg source (\<lambda>i. bindE (getOciImageLayers L i) work) s = (r, t)"
  shows "(\<exists>x. r = Inl x) \<and> fs.more t = fs.more s"
proof (cases "source = []")
  case True
  then show ?thesis using call by (auto simp: with_image_def run)
next
  case False
  let ?I = "\<lambda>u :: 'z bt_scheme. none_at {ref_file p tag} u \<and> fs.more u = fs.more s"
  have P: "image_paths p" by (rule dest_paths(2) [OF assms(2)])
  have "{ref_file p tag} \<subseteq> image_keys p" by simp
  note o = triple_conj [OF newDirLayout_none_at [OF P this] Open_more [unfolded Open_def, where M = "fs.more s"]]
  have img: "triple ?I (newOciImageSimple (c_Root cfg) q)
      (\<lambda>i u. (l_path (oi_layout i) = p \<and> oi_ref i = tag \<and> layout_ok (oi_layout i)) \<and> ?I u) (\<lambda>_. ?I)"
  proof -
    have *: "newOciImageSimple (c_Root cfg) q = bindE (newDirLayout p) (\<lambda>layout. returnE \<lparr>oi_path = p, oi_ref = tag, oi_layout = layout\<rparr>)"
      by (simp add: newOciImageSimple_def assms(2) Open_def)
    show ?thesis unfolding * by (rule triple_bind [OF o]) (auto intro!: triple_return)
  qed
  have body: "triple ?I (bindE (getOciImageLayers L i) work) (\<lambda>_ _. False) (\<lambda>_ u. fs.more u = fs.more s)"
    if i: "l_path (oi_layout i) = p" "oi_ref i = tag" "layout_ok (oi_layout i)" for i
  proof -
    have path: "comps (Join [p, Join [refDirectory, tag]]) = ref_file p tag"
      using ref_join [OF layout_paths(1,2) [OF i(3)] assms(3)] i(1) by simp
    have "triple ?I (ioutil_ReadFile (Join [p, Join [refDirectory, tag]])) (\<lambda>_ _. False) (\<lambda>_ u. fs.more u = fs.more s)"
    proof -
      have op: "triple ?I (os_Open (Join [p, Join [refDirectory, tag]])) (\<lambda>_ _. False) (\<lambda>_ u. fs.more u = fs.more s)"
        unfolding os_Open_def path by (rule triple_syscall) (auto simp: none_at_def dest!: resolve_Inr)
      show ?thesis unfolding ioutil_ReadFile_def by (rule triple_bind [OF op]) (rule triple_False)
    qed
    then have get: "triple ?I (GetReference (desc_dec L) (oi_layout i) (oi_ref i)) (\<lambda>_ _. False) (\<lambda>_ u. fs.more u = fs.more s)"
      unfolding GetReference_def refPath_def bindE_lift i(1,2) by (rule triple_bind) (rule triple_False)
    show ?thesis unfolding getOciImageLayers_def
      by (rule triple_bind [OF triple_bind [OF get]]) (rule triple_False)+
  qed
  have close: "fs.more (snd (OciImage_Close i u)) = fs.more u" for i and u :: "'z bt_scheme"
    by (rule keepsD [OF oci_more(3)]) (rule refl)
  have run: "with_image cfg source (\<lambda>i. bindE (getOciImageLayers L i) work) =
      bindE (newOciImageSimple (c_Root cfg) q) (\<lambda>i. deferE (OciImage_Close i) (bindE (getOciImageLayers L i) work))"
    using False assms(1) by (simp add: with_image_def fun_eq_iff bindE_def liftE_def)
  have work_on: "triple (\<lambda>u. (l_path (oi_layout i) = p \<and> oi_ref i = tag \<and> layout_ok (oi_layout i)) \<and> ?I u)
      (deferE (OciImage_Close i) (bindE (getOciImageLayers L i) work)) (\<lambda>_ _. False) (\<lambda>_ u. fs.more u = fs.more s)" for i
    by (rule triple_assume, rule triple_defer [OF body]) (auto simp: close)
  have "triple ?I (with_image cfg source (\<lambda>i. bindE (getOciImageLayers L i) work)) (\<lambda>_ _. False) (\<lambda>_ u. fs.more u = fs.more s)"
    unfolding run
    by (rule triple_bind [OF triple_weaken [OF img, where R' = "\<lambda>_ u. fs.more u = fs.more s"] work_on])
      (assumption, assumption, erule conjunct2)
  note tr = this
  have pre: "?I s" using s by simp
  show ?thesis
  proof (cases r)
    case (Inl x)
    then show ?thesis using tripleD_Inl [OF tr pre, of x t] call by simp
  next
    case (Inr x)
    then show ?thesis using tripleD_Inr [OF tr pre, of x t] call by simp
  qed
qed

text \<open>C37. A seeder never gives an image its reference: after a seeding download, however it ended, the tag is
  still unbound, so every later \<open>Status\<close> and \<open>StopDownload\<close> of the image is an error and changes nothing of
  the engine: what was seeded cannot be reported or stopped through the API.\<close>

theorem seeder_leaves_no_reference:
  assumes "libs_ok L" "ParseImageName L source = Inr ref" "buildOciDestFromReference (c_Root cfg) ref = Inr (p, tag)"
    and "buildNamedTagged name = Inr q" "buildOciDestSimple (c_Root cfg) q = Inr (p, tag)"
    and "name_ok tag" "\<not> suffix ''.layer'' tag" "\<not> suffix ''.torrent'' tag"
    and "wf_fs s" "view s (ref_file p tag) = None"
    and "startSeederDownload cfg L ctx source s = (r, t)"
  shows "view t (ref_file p tag) = None \<and>
    (\<exists>x u. daemon_Status cfg L name t = (Inl x, u) \<and> fs.more u = fs.more t) \<and>
    (\<exists>x u. StopDownload cfg L name clean t = (Inl x, u) \<and> fs.more u = fs.more t)"
proof -
  have sha: "sha_ok (lib_sha L)" using assms(1) by (simp add: libs_ok_def)
  have "none_at {ref_file p tag} s" using assms(9,10) by (simp add: none_at_view del: view_simps)
  from keepsD [OF seeder_none_at [OF sha assms(2,3,7,8), where ctx = ctx] this] have t: "none_at {ref_file p tag} t"
    unfolding assms(11) snd_conv .
  note fails = image_request_fails [OF assms(4-6) t]
  obtain r1 u1 where 1: "daemon_Status cfg L name t = (r1, u1)" by fastforce
  obtain r2 u2 where 2: "StopDownload cfg L name clean t = (r2, u2)" by fastforce
  show ?thesis
    using t fails [OF 1 [unfolded daemon_Status_def]] fails [OF 2 [unfolded StopDownload_def]] 1 2
    by (auto simp: none_at_view simp del: view_simps)
qed

theorem seeder_leaves_no_reference_witness:
  "\<exists>t. startSeederDownload (demo_cfg\<lparr>c_BtSeeder := True\<rparr>) demo_libs (\<lambda>_. None) ''docker://x:v1'' demo_stored = (Inr (), t) \<and>
     (\<exists>x u. daemon_Status (demo_cfg\<lparr>c_BtSeeder := True\<rparr>) demo_libs ''x:v1'' t = (Inl x, u)) \<and>
     (\<exists>x u. StopDownload (demo_cfg\<lparr>c_BtSeeder := True\<rparr>) demo_libs ''x:v1'' True t = (Inl x, u))"
proof -
  let ?c = "demo_cfg\<lparr>c_BtSeeder := True\<rparr>" and ?h = "hex_encode (demo_sha ''abc'')"
  have root: "c_Root ?c = ''root''" by (simp add: demo_cfg_def)
  obtain e t where o: "Open demo_path demo_stored = (Inr e, t)"
    and rd: "ready demo_path e ((view demo_stored)(comps (l_temp e) \<mapsto> None))"
    and st: "fs_st True ((view demo_stored)(comps (l_temp e) \<mapsto> None)) t"
    by (rule demo_stored_open)
  let ?i = "\<lparr>oi_path = demo_path, oi_ref = ''v1'', oi_layout = e\<rparr>"
  have e: "layout_ok e" "l_path e = demo_path" "layout_dirs e ((view demo_stored)(comps (l_temp e) \<mapsto> None))"
    using rd by (auto simp: ready_def)
  have h: "name_ok ?h" by (rule name_ok_sha [OF demo_sha_ok])
  obtain u where x: "Exist e (digest_of ?h) t = (Inr True, u)"
    using Exist_present [OF e h _ st] demo_open_keys(1) [OF rd, of ?h] by auto
  have L: "ParseImageName demo_libs ''docker://x:v1'' = Inr (demo_ref ''x'')" "NewImage (demo_ref ''x'') c = Inr demo_img"
    "NewImageSource (demo_ref ''x'') c ts = Inr (\<lambda>_. Inr (''abc'', None))" for c ts
    by (simp_all add: demo_names demo_ref_def)
  have img: "newOciImage ''root'' (demo_ref ''x'') demo_stored = (Inr ?i, t)"
    using o by (simp add: newOciImage_def demo_dest run)
  have "demo_digest = digest_of ?h" by (simp add: demo_digest_def blob_digest_def)
  then have "seed_layer ?c demo_libs ?i (\<lambda>_. Inr (''abc'', None)) \<lparr>bi_Digest = demo_digest, bi_Size = 3\<rparr> t = (Inr (), u)"
    using x by (simp add: seed_layer_def run)
  then have run: "startSeederDownload ?c demo_libs (\<lambda>_. None) ''docker://x:v1'' demo_stored = (Inr (), snd (OciImage_Close ?i u))"
    by (simp add: startSeederDownload_def Let_def L root img demo_img_def deferE_def run)
  have q: "buildNamedTagged ''x:v1'' = Inr (TaggedRef ''x'' ''v1'')" by (rule demo_dest(3))
  have tag: "name_ok ''v1''" "\<not> suffix ''.layer'' ''v1''" "\<not> suffix ''.torrent'' ''v1''"
    by (simp_all add: name_ok_def suffix_def append_eq_Cons_conv)
  have "view demo_stored (ref_file demo_path ''v1'') = None" by (simp add: demo_stored_nodes)
  from seeder_leaves_no_reference [where cfg = ?c, unfolded root, OF demo_libs_laws L(1) demo_dest(1) q demo_dest(2) tag
      demo_stored_wf this run, where clean = True]
  show ?thesis using run by blast
qed

section \<open>Hard links\<close>

text \<open>C36. With hard links a leecher stores what it did not verify: when the ID of a layer was started before (by another
  request that may still be downloading), the layer is linked into the image at once, whatever the data file holds at that
  moment, with no comparison of digests; and the blob and the data file stay one file, so whatever the torrent client
  writes later changes the stored blob.\<close>

theorem hardlink_unverified:
  assumes "c_UseHardlink cfg" "bi_Digest l = digest_of h" "name_ok h" "getTorrentFromSeeder cfg L h = Inr d"
    and "layout_ok (oi_layout i)" "l_path (oi_layout i) = p"
    and "e_started (engine s)" "info_of s h = Some a" "ii_Started a" "wf_fs s" "faults s = []"
    and "node_at s (comps (GetFilePath (engine s) h)) = Some (File n)"
    and "node_at s (blob_file p h) = None" "node_at s (comps p @ [blobDirectory, BlobAlgorithm]) = Some Dir"
  shows "\<exists>t. startLeechingLayer cfg L env fuel reporting i l s = (Inr True, t) \<and>
    view t (blob_file p h) = Some (Some (inodes s n)) \<and>
    view (append_to n x t) (blob_file p h) = Some (Some (inodes s n @ x))"
proof -
  let ?u = "set_idInfo h (a\<lparr>ii_Count := ii_Count a + 1\<rparr>) s" and ?k = "blob_file p h"
  let ?t = "set_node ?k (File n) ?u"
  have hex: "Digest_Hex (digest_of h) = Inr h" by (simp add: Digest_Hex_def BlobAlgorithm_def)
  have leech: "StartLeecher (lib_torrent L) env fuel h d reporting s = (Inr True, ?u)"
    using assms(7-9) by (simp add: StartLeecher_def when_started_run run)
  have fn: "GetFilePath (engine ?u) h = GetFilePath (engine s) h"
    by (simp add: GetFilePath_def set_idInfo_def upd_engine_def)
  have nodes: "node_at ?u = node_at s" by (rule node_at_cong) simp
  have wf: "wf_fs ?u" and ino: "inodes ?u = inodes s" and fl: "faults ?u = []"
    using assms(10,11) by (simp_all add: wf_fs_def nodes)
  have path: "comps (Join [l_path (oi_layout i), Join [blobDirectory, BlobAlgorithm, h]]) = ?k"
    using blob_join [OF layout_paths(1,2) [OF assms(5)] assms(3)] assms(6) by simp
  have b: "butlast ?k = comps p @ [blobDirectory, BlobAlgorithm]" by (simp add: blob_file_def butlast_append)
  have "k_link (comps (GetFilePath (engine s) h)) ?k ?u = (Inr (), ?t)"
    using resolve_node [OF wf] resolve_new_None [OF wf, of ?k] assms(12-14) nodes b by (simp add: k_link_def)
  then have link: "os_Link (GetFilePath (engine s) h) (Join [l_path (oi_layout i), Join [blobDirectory, BlobAlgorithm, h]]) ?u = (Inr (), ?t)"
    using fl by (simp add: os_Link_def syscall_def path)
  have "startLeechingLayer cfg L env fuel reporting i l s = (Inr True, ?t)"
    using assms(1,2,4) hex leech link fn
    by (simp add: startLeechingLayer_def run GetBlobPath_def blobPath_digest)
  moreover have "is_path ?k" by (simp add: blob_file_def is_path_def)
  then have "node_at ?t ?k = Some (File n)" by simp
  then have "view ?t ?k = Some (Some (inodes s n))" "view (append_to n x ?t) ?k = Some (Some (inodes s n @ x))"
    using ino by (simp_all add: view_def append_to_def)
  ultimately show ?thesis by blast
qed

text \<open>The demo daemon with the ID \<open>b\<close> started before.\<close>

definition demo_busy :: bt where
  "demo_busy = upd_engine (\<lambda>e. e\<lparr>e_idInfos := [(''b'', \<lparr>ii_Id = ''b'', ii_InfoHash = [], ii_Started = True, ii_Count = 0\<rparr>)]\<rparr>) demo_daemon"

theorem hardlink_unverified_witness:
  "\<exists>t. startLeechingLayer (demo_cfg\<lparr>c_UseHardlink := True\<rparr>) demo_libs (\<lambda>s. s) 0 True
       \<lparr>oi_path = demo_path, oi_ref = ''v1'', oi_layout = \<lparr>l_path = demo_path, l_temp = ''root/oci/library/x/tmp-0''\<rparr>\<rparr>
       \<lparr>bi_Digest = ''sha256:b'', bi_Size = 3\<rparr> demo_busy = (Inr True, t) \<and>
     view t (blob_file demo_path ''b'') = Some (Some ''abc'') \<and> ''b'' \<noteq> hex_encode (demo_sha ''abc'')"
proof -
  let ?c = "demo_cfg\<lparr>c_UseHardlink := True\<rparr>"
  let ?i = "\<lparr>oi_path = demo_path, oi_ref = ''v1'', oi_layout = \<lparr>l_path = demo_path, l_temp = ''root/oci/library/x/tmp-0''\<rparr>\<rparr>"
  have split: "SplitN2 ''tcp://seeder'' ''://'' = [''tcp'', ''seeder'']" by code_simp
  have 1: "getTorrentFromSeeder ?c demo_libs ''b'' = Inr (put_metainfo demo_mi)"
    by (simp add: getTorrentFromSeeder_def demo_cfg_def getRemotePeer_def client_GetTorrent_def split demo_libs_def)
  have cs: "comps ''root/oci/library/x/tmp-0'' = [''root'', ''oci'', ''library'', ''x'', ''tmp-0'']" by code_simp
  have cl: "Clean demo_path = demo_path" "Clean ''root/oci/library/x/tmp-0'' = ''root/oci/library/x/tmp-0''" by code_simp+
  have 2: "layout_ok (oi_layout ?i)" "l_path (oi_layout ?i) = demo_path"
    unfolding layout_ok_def by (simp_all add: cs demo_comps_path cl) (simp add: demo_path_def)
  have nodes: "node_at demo_busy = node_at demo_daemon" and ino: "inodes demo_busy = inodes demo_daemon"
    by (auto simp: demo_busy_def upd_engine_def intro: node_at_cong)
  have wf: "wf_fs demo_busy"
    using demo_daemon_wf unfolding wf_fs_def nodes by (simp add: demo_busy_def upd_engine_def)
  have e: "GetFilePath (engine demo_busy) ''b'' = GetFilePath (engine demo_bt) ''b''"
    by (simp add: GetFilePath_def demo_busy_def upd_engine_def)
  have data: "node_at demo_busy (comps (GetFilePath (engine demo_busy) ''b'')) = Some (File 2)"
    unfolding e nodes by (simp add: node_at_def demo_daemon_tree)
  have dirs: "node_at demo_busy (blob_file demo_path ''b'') = None"
    "node_at demo_busy (comps demo_path @ [blobDirectory, BlobAlgorithm]) = Some Dir"
    unfolding nodes by (simp_all add: demo_daemon_nodes)
  have s: "e_started (engine demo_busy)" "faults demo_busy = []"
    "info_of demo_busy ''b'' = Some \<lparr>ii_Id = ''b'', ii_InfoHash = [], ii_Started = True, ii_Count = 0\<rparr>"
    by (simp_all add: demo_busy_def) (simp add: upd_engine_def)
  have l: "c_UseHardlink ?c" "name_ok ''b''" "bi_Digest \<lparr>bi_Digest = ''sha256:b'', bi_Size = 3\<rparr> = digest_of ''b''"
    by (simp_all add: name_ok_def BlobAlgorithm_def)
  have c: "inodes demo_busy 2 = ''abc''" unfolding ino by (simp add: demo_daemon_def demo_bt_def demo_new_def upd_engine_def)
  have "length (hex_encode (demo_sha ''abc'')) \<noteq> length ''b''" by (simp add: demo_sha_def)
  then have "''b'' \<noteq> hex_encode (demo_sha ''abc'')" by metis
  moreover have st: "ii_Started \<lparr>ii_Id = ''b'', ii_InfoHash = [], ii_Started = True, ii_Count = 0\<rparr>" by simp
  note hardlink_unverified [OF l(1,3,2) 1 2 s(1,3) st wf s(2) data dirs, where env = "\<lambda>s. s" and fuel = 0 and reporting = True
    and x = "[]", unfolded c]
  ultimately show ?thesis by blast
qed

end
