(* ===== verification/Daemon_Progress.thy ===== *)
theory Daemon_Progress
  imports Daemon_Status Well_Formed
begin

text \<open>
  Requests on a stored image succeed when nothing fails: an image that can be opened gives its layers,
  and the engine answers for each of them.
\<close>

section \<open>The image\<close>

lemma stored_request_runs:
  fixes s :: "'z bt_scheme"
  assumes L: "libs_ok L" "json_ok L"
    and ref: "source \<noteq> []" "buildNamedTagged source = Inr q" "buildOciDestSimple (c_Root cfg) q = Inr (p, tag)" "name_ok tag"
    and im: "image_at (lib_sha L) p K s" and st: "manifest_stored L p tag raw s" "man_dec L raw = Inr om"
    and op: "openable p s"
    and work: "\<And>u. fs.more u = fs.more s \<Longrightarrow> wf_fs u \<Longrightarrow> \<exists>x v. work (layers_of om) u = (Inr x, v) \<and> Q x v"
    and Q: "\<And>x u v. Q x u \<Longrightarrow> fs.more v = fs.more u \<Longrightarrow> Q x v"
  shows "\<exists>x v. with_image cfg source (\<lambda>i. bindE (getOciImageLayers L i) work) s = (Inr x, v) \<and> Q x v"
proof -
  have p: "image_paths p" by (rule dest_paths(2) [OF ref(3)])
  have sha: "sha_ok (lib_sha L)" using L(1) by (simp add: libs_ok_def)
  have fs: "fs_st True (view s) s" using im op by (simp add: fs_st_def openable_def image_at_wf)
  obtain e t where o: "Open p s = (Inr e, t)" "opens p (view s) e t"
    by (rule Open_total [OF p _ _ _ fs]) (use op in \<open>simp_all add: openable_def del: view_simps\<close>)
  let ?i = "\<lparr>oi_path = p, oi_ref = tag, oi_layout = e\<rparr>"
  have "newDirLayout p s = (Inr e, t)" using o(1) by (simp add: Open_def)
  from tripleD_Inr [OF newDirLayout_keys [OF p] image_at_self [OF im] this]
  have e: "session (lib_sha L) p e" and k: "keys_kept p (view s) t" by (simp_all add: session_def sha)
  have ses: "oci_session (lib_sha L) p tag ?i" using e by (simp add: oci_session_def)
  have t: "faults t = []" using o(2) by (simp add: opens_def fs_st_def)
  have more: "fs.more t = fs.more s" using keepsD [OF Open_more [where M = "fs.more s" and p = p], of s] o(1) by simp
  obtain r u where g: "getOciImageLayers L ?i t = (r, u)" by fastforce
  have "manifest_stored L p tag raw t" "wf_fs t" using manifest_stored_keys [OF st(1) k] k by (simp_all add: keys_kept_def)
  then have r: "r = Inr (layers_of om)" using stored_layers [OF L ses ref(4) _ st(2) _ g] t by blast
  have mu: "fs.more u = fs.more s"
    using keepsD [OF oci_more(5) [where M = "fs.more s" and L = L and i = ?i], of t] g more by simp
  have "image_at (lib_sha L) p K t" by (rule image_at_keys [OF im k])
  then have "image_at (lib_sha L) p K u" using keepsD [OF image_getOciImageLayers] g by (metis snd_conv)
  then obtain x v where w: "work (layers_of om) u = (Inr x, v)" "Q x v" using work [OF mu] image_at_wf by blast
  have c: "fs.more (snd (OciImage_Close ?i v)) = fs.more v" by (rule keepsD [OF oci_more(3)]) (rule refl)
  have "newOciImageSimple (c_Root cfg) q s = (Inr ?i, t)" using o(1) ref(3) by (simp add: newOciImageSimple_def run)
  then have "with_image cfg source (\<lambda>i. bindE (getOciImageLayers L i) work) s = (Inr x, snd (OciImage_Close ?i v))"
    using ref(1,2) g r w(1) by (simp add: with_image_def run deferE_def)
  then show ?thesis using Q [OF w(2) c] by blast
qed

section \<open>The engine\<close>

text \<open>The engine knows what it needs of the IDs: each that is registered has its torrent in the cache, each that is
  started has it undropped, and no two of them share one.\<close>

definition live :: "'z bt_scheme \<Rightarrow> string set \<Rightarrow> bool" where
  "live s X \<longleftrightarrow> e_started (engine s) \<and>
     (\<forall>x \<in> X. \<forall>i. info_of s x = Some i \<longrightarrow>
        (\<exists>t. torrent_of s (ii_InfoHash i) = Some t \<and> (ii_Started i \<longrightarrow> t_State t \<noteq> Dropped)) \<and>
        (\<forall>y \<in> X. \<forall>j. y \<noteq> x \<longrightarrow> info_of s y = Some j \<longrightarrow> ii_InfoHash j \<noteq> ii_InfoHash i))"

lemma liveD:
  assumes "live s X" "x \<in> X" "info_of s x = Some i"
  obtains t where "torrent_of s (ii_InfoHash i) = Some t" "ii_Started i \<Longrightarrow> t_State t \<noteq> Dropped"
  using assms unfolding live_def by blast

lemma live_more: "fs.more u = fs.more s \<Longrightarrow> live s X \<Longrightarrow> live u X"
  by (drule more_eqD(4)) (simp add: live_def)

text \<open>An ID may change as long as the torrents of the others stay and its own is unfit only when it is stopped.\<close>

lemma live_step:
  assumes s: "live s X" "x \<in> X" "info_of s x = Some i" and e: "e_started (engine u)"
    and ts: "\<And>ih. ih \<noteq> ii_InfoHash i \<Longrightarrow> torrent_of u ih = torrent_of s ih"
    and own: "info_of u = (info_of s)(x := None) \<or> info_of u = (info_of s)(x \<mapsto> j) \<and> ii_InfoHash j = ii_InfoHash i \<and>
      (\<exists>t. torrent_of u (ii_InfoHash i) = Some t \<and> (ii_Started j \<longrightarrow> t_State t \<noteq> Dropped))"
  shows "live u X"
  unfolding live_def
proof (intro conjI ballI allI impI)
  fix y k assume y: "y \<in> X" "info_of u y = Some k"
  have other: "info_of s y = Some k \<and> ii_InfoHash k \<noteq> ii_InfoHash i" if "y \<noteq> x"
    using s y own that unfolding live_def by (auto split: if_splits)
  show "\<exists>t. torrent_of u (ii_InfoHash k) = Some t \<and> (ii_Started k \<longrightarrow> t_State t \<noteq> Dropped)"
  proof (cases "y = x")
    case True
    then show ?thesis using own y(2) by auto
  next
    case False
    then show ?thesis using other ts s(1) y(1) unfolding live_def by metis
  qed
  fix z l assume z: "z \<in> X" "z \<noteq> y" "info_of u z = Some l"
  show "ii_InfoHash l \<noteq> ii_InfoHash k"
    using s y z own unfolding live_def by (auto split: if_splits)
qed (rule e)+

lemma StopTorrent_live:
  assumes inv: "bt_inv s" and s: "live s X" "x \<in> X"
  shows "\<exists>u. StopTorrent x s = (Inr (), u) \<and> live u X"
proof (cases "\<exists>i. info_of s x = Some i \<and> ii_Started i")
  case False
  then have "StopTorrent x s = (Inr (), s)"
    using s(1) by (cases "info_of s x") (auto simp: live_def StopTorrent_def when_started_run run)
  then show ?thesis using s(1) by simp
next
  case True
  then obtain i where i: "info_of s x = Some i" "ii_Started i" by blast
  have e: "e_started (engine s)" using s(1) by (simp add: live_def)
  obtain t where t: "torrent_of s (ii_InfoHash i) = Some t" "t_State t \<noteq> Dropped" using liveD [OF s i(1)] i(2) by blast
  let ?j = "i\<lparr>ii_Count := ii_Count i - 1\<rparr>"
  show ?thesis
  proof (cases "ii_Count i > 1")
    case True
    have "live (set_idInfo x ?j s) X" by (rule live_step [OF s i(1)]) (use e t in auto)
    then show ?thesis using StopTorrent_more [OF e i True] by blast
  next
    case False
    then have c: "ii_Count i \<le> 1" by simp
    let ?w = "set_torrent (ii_InfoHash i) (t\<lparr>t_State := Dropped\<rparr>) (Drop (t_tt t) (set_idInfo x ?j s))"
    let ?u = "set_idInfo x (?j\<lparr>ii_Started := False\<rparr>) ?w"
    have "live ?u X" by (rule live_step [OF s i(1)]) (use e in auto)
    then show ?thesis using StopTorrent_last [OF inv e i c t(1)] t(2) by (simp add: Let_def)
  qed
qed

lemma delete_files_runs:
  "triple wf_fs (delete_files idn) (\<lambda>_. wf_fs) (\<lambda>x s. wf_fs s \<and> \<not> is_panic x)"
proof -
  have rq: "triple wf_fs (remove_quiet m f :: ('a bt_scheme, unit) call) (\<lambda>_. wf_fs) (\<lambda>x s. wf_fs s \<and> \<not> is_panic x)" for m f
  proof (rule tripleI)
    fix s :: "'a bt_scheme" assume "wf_fs s"
    then have s: "fs_st False (view s) s" by (simp add: fs_st_def)
    show "case remove_quiet m f s of (Inl x, t) \<Rightarrow> wf_fs t \<and> \<not> is_panic x | (Inr y, t) \<Rightarrow> wf_fs t"
      using tripleD_Inr [OF engine_remove_triple s] tripleD_Inl [OF engine_remove_triple s]
      by (auto simp: fs_st_def split: prod.splits sum.splits)
  qed
  have get: "triple wf_fs (getE f) (\<lambda>_. wf_fs) (\<lambda>x s. wf_fs s \<and> \<not> is_panic x)" for f :: "'a bt_scheme \<Rightarrow> string"
    by (rule triple_get) simp
  show ?thesis unfolding delete_files_def by (intro triple_bind [OF get] triple_bind [OF rq] rq)
qed

lemma DeleteTorrent_live:
  assumes inv: "bt_inv s" "wf_fs s" and s: "live s X" "x \<in> X"
  shows "\<exists>r u. DeleteTorrent x s = (r, u) \<and> live u X \<and> wf_fs u \<and> (\<forall>e. r = Inl e \<longrightarrow> \<not> is_panic e)"
proof (cases "\<exists>i. info_of s x = Some i \<and> \<not> ii_Started i")
  case False
  then have "DeleteTorrent x s = (Inr (), s) \<or> (\<exists>m. DeleteTorrent x s = (Inl (Msg m), s))"
    using s(1) by (cases "info_of s x") (auto simp: live_def DeleteTorrent_def when_started_run run)
  then show ?thesis using s(1) inv by auto
next
  case True
  then obtain i where i: "info_of s x = Some i" "\<not> ii_Started i" by blast
  have e: "e_started (engine s)" using s(1) by (simp add: live_def)
  obtain t where t: "torrent_of s (ii_InfoHash i) = Some t" using liveD [OF s i(1)] by blast
  obtain k where k: "e_client (engine s) = Some k" using inv(1) e by (auto simp: bt_inv_def)
  obtain v where v: "deleteTorrent (ii_InfoHash i) s = (Inr (), v)" "torrent_of v = (torrent_of s)(ii_InfoHash i := None)"
    "info_of v = info_of s" "e_started (engine v) = e_started (engine s)" "wf_fs v = wf_fs s"
    using deleteTorrent_run [OF inv(1) k bt_inv_get_known [OF inv(1) i(1)] t] by blast
  let ?w = "upd_engine (\<lambda>e. e\<lparr>e_idInfos := AList.delete x (e_idInfos e)\<rparr>) v"
  have d: "DeleteTorrent x s = delete_files x ?w"
    using v(1) e i by (simp add: DeleteTorrent_def delete_files_def when_started_run call_simps)
  have "wf_fs ?w = wf_fs v" by (simp add: wf_fs_def upd_engine_def node_at_def)
  then have "wf_fs ?w" using v(5) inv(2) by simp
  moreover obtain r u where ru: "delete_files x ?w = (r, u)" by fastforce
  ultimately have u: "wf_fs u" "\<forall>e. r = Inl e \<longrightarrow> \<not> is_panic e"
    using tripleD_Inr [OF delete_files_runs] tripleD_Inl [OF delete_files_runs] by (cases r; fastforce)+
  have rq: "keeps (\<lambda>u. fs.more u = M) (remove_quiet m f :: ('a bt_scheme, unit) call)" for M m f
    unfolding remove_quiet_def by (intro keep)
  have "keeps (\<lambda>u. fs.more u = M) (delete_files x :: ('a bt_scheme, unit) call)" for M
    unfolding delete_files_def by (intro keeps_bind keeps_simple rq)
  then have "fs.more (snd (delete_files x ?w)) = fs.more ?w" by (rule keepsD) (rule refl)
  then have "fs.more u = fs.more ?w" using ru by simp
  then have "engine u = engine ?w" by (rule more_eqD(4))
  then have "live u X" by (intro live_step [OF s i(1)]) (use v e in \<open>simp_all add: delete_conv'\<close>)
  then show ?thesis using d ru u by simp
qed

lemma stop_layers_live:
  assumes "bt_inv s" "wf_fs s" "live s X" "map (Digest_Hex \<circ> b_digest) ls = map Inr ids" "set ids \<subseteq> X"
  shows "\<exists>u. stop_layers clean ls s = (Inr ids, u)"
  using assms
proof (induction ls arbitrary: s ids)
  case (Cons l ls)
  then obtain x xs where ids: "ids = x # xs" "Digest_Hex (b_digest l) = Inr x" "map (Digest_Hex \<circ> b_digest) ls = map Inr xs"
    "x \<in> X" "set xs \<subseteq> X" by (auto simp: comp_def)
  obtain u where u: "StopTorrent x s = (Inr (), u)" "live u X" using StopTorrent_live [OF Cons.prems(1,3) ids(4)] by blast
  have iu: "bt_inv u" using keepsD [OF StopTorrent_inv [of x] Cons.prems(1)] u(1) by simp
  have "keeps (none_at {} :: 'a bt_scheme \<Rightarrow> bool) (StopTorrent x)" by (rule nodes.stopping)
  from keepsD [OF this, of s] have wu: "wf_fs u" using Cons.prems(2) u(1) by (simp add: none_at_def)
  obtain r v where v: "DeleteTorrent x u = (r, v)" "live v X" "wf_fs v" "\<forall>e. r = Inl e \<longrightarrow> \<not> is_panic e"
    using DeleteTorrent_live [OF iu wu u(2) ids(4)] by blast
  have iv: "bt_inv v" using keepsD [OF DeleteTorrent_inv [of x] iu] v(1) by simp
  have "\<exists>w. whenE clean (catchE (DeleteTorrent x) (\<lambda>_. returnE ())) u = (Inr (), w) \<and> bt_inv w \<and> wf_fs w \<and> live w X"
    using v iv u(2) iu wu by (cases clean; cases r) (auto simp: run catchE_def tryE_def bindE_def)
  then obtain w where w: "whenE clean (catchE (DeleteTorrent x) (\<lambda>_. returnE ())) u = (Inr (), w)" "bt_inv w" "wf_fs w" "live w X"
    by blast
  obtain z where "stop_layers clean ls w = (Inr xs, z)" using Cons.IH [OF w(2-4) ids(3,5)] by blast
  then show ?case using ids(2) u(1) w(1) by (simp add: ids(1) run)
qed (simp add: run)

lemma layer_status_live:
  assumes r: "refreshed s u" and s: "live s X" "e_started (engine u)" and d: "Digest_Hex (b_digest l) = Inr x" "x \<in> X"
  shows "\<exists>y v. layer_status l u = (Inr y, v) \<and> ls_Id y = x \<and> refreshed s v \<and> e_started (engine v)"
proof (cases "info_of s x")
  case None
  then have "GetStatus x u = (Inl ErrIdNotExist, u)"
    using r s(2) by (simp add: refreshed_def GetStatus_def when_started_run run)
  then show ?thesis using r s(2) d(1) by (simp add: layer_status_def run tryE_def bindE_def)
next
  case (Some i)
  then obtain t where t: "torrent_of s (ii_InfoHash i) = Some t" using liveD [OF s(1) d(2)] by blast
  obtain v where "GetStatus x u = (Inr (status_of x (Update s t)), v)" "refreshed s v" "e_started (engine v)"
    using GetStatus_refreshed [OF r Some t s(2)] by blast
  then show ?thesis using d(1) by (simp add: layer_status_def run tryE_def bindE_def)
qed

lemma layer_statuses_live:
  assumes "refreshed s u" "live s X" "e_started (engine u)" "map (Digest_Hex \<circ> b_digest) ls = map Inr ids" "set ids \<subseteq> X"
  shows "\<exists>ys v. mapE layer_status ls u = (Inr ys, v) \<and> map ls_Id ys = ids"
  using assms(1,3-)
proof (induction ls arbitrary: u ids)
  case (Cons l ls)
  then obtain x xs where ids: "ids = x # xs" "Digest_Hex (b_digest l) = Inr x" "map (Digest_Hex \<circ> b_digest) ls = map Inr xs"
    "x \<in> X" "set xs \<subseteq> X" by (auto simp: comp_def)
  obtain y v where v: "layer_status l u = (Inr y, v)" "ls_Id y = x" "refreshed s v" "e_started (engine v)"
    using layer_status_live [OF Cons.prems(1) assms(2) Cons.prems(2) ids(2,4)] by blast
  obtain ys w where "mapE layer_status ls v = (Inr ys, w)" "map ls_Id ys = xs" using Cons.IH [OF v(3,4) ids(3,5)] by blast
  then show ?case using v(1,2) by (simp add: ids(1) run)
qed (simp add: run)

section \<open>The requests\<close>

text \<open>C14. When nothing fails, the requests on a stored image succeed: if the image opens, its manifest decodes to layers
  with proper digests, the engine runs, and each of the layers it knows has a torrent of its own in the cache, not
  dropped as long as the layer is started, then \<open>Status\<close> gives one entry per layer and \<open>StopDownload\<close> answers with all
  of them, each counted down, whether or not it has to delete them too.\<close>

theorem stored_requests_succeed:
  fixes s :: "'z bt_scheme"
  assumes "libs_ok L" "json_ok L" "source \<noteq> []" "buildNamedTagged source = Inr q"
    and "buildOciDestSimple (c_Root cfg) q = Inr (p, tag)" "name_ok tag"
    and "image_at (lib_sha L) p K s" "bt_inv s"
    and "manifest_stored L p tag raw s" "man_dec L raw = Inr om"
    and "map (\<lambda>l. Digest_Hex (desc_Digest l)) (m_Layers om) = map Inr ids"
    and "openable p s" "live s (set ids)"
  shows "(\<exists>xs t. daemon_Status cfg L source s = (Inr xs, t) \<and> map ls_Id xs = ids) \<and>
    (\<exists>t. StopDownload cfg L source clean s = (Inr ids, t) \<and> registry_of t = fold reg_stop ids (registry_of s))"
proof
  have H: "map (Digest_Hex \<circ> b_digest) (layers_of om) = map Inr ids" using assms(11) by (simp add: layers_of_def comp_def)
  note req = stored_request_runs [OF assms(1-7,9,10,12)]
  show "\<exists>xs t. daemon_Status cfg L source s = (Inr xs, t) \<and> map ls_Id xs = ids"
    unfolding daemon_Status_def
  proof (rule req)
    fix u assume u: "fs.more u = fs.more s"
    have "refreshed s u" by (rule refreshed_more [OF u refreshed_self [OF assms(8)]])
    moreover have "e_started (engine u)" using assms(13) more_eqD(4) [OF u] by (simp add: live_def)
    ultimately show "\<exists>xs v. mapE layer_status (layers_of om) u = (Inr xs, v) \<and> map ls_Id xs = ids"
      by (rule layer_statuses_live [OF _ assms(13) _ H subset_refl])
  qed simp
  have "\<exists>xs t. StopDownload cfg L source clean s = (Inr xs, t) \<and> (xs = ids \<and> registry_of t = fold reg_stop ids (registry_of s))"
    unfolding StopDownload_def
  proof (rule req)
    fix u assume u: "fs.more u = fs.more s" "wf_fs u"
    have inv: "bt_inv u" using bt_inv_more [OF u(1)] assms(8) by blast
    obtain v where "stop_layers clean (layers_of om) u = (Inr ids, v)"
      using stop_layers_live [OF inv u(2) live_more [OF u(1) assms(13)] H subset_refl] by blast
    then show "\<exists>xs v. stop_layers clean (layers_of om) u = (Inr xs, v) \<and>
        (xs = ids \<and> registry_of v = fold reg_stop ids (registry_of s))"
      using stop_layers_reg [OF inv, where clean = clean and ls = "layers_of om"] registry_more [OF u(1)] by simp
  next
    show "xs = ids \<and> registry_of v = fold reg_stop ids (registry_of s)"
      if "xs = ids \<and> registry_of u = fold reg_stop ids (registry_of s)" "fs.more v = fs.more u"
      for xs and u v :: "'z bt_scheme"
      using that(1) registry_more [OF that(2)] by simp
  qed
  then show "\<exists>t. StopDownload cfg L source clean s = (Inr ids, t) \<and> registry_of t = fold reg_stop ids (registry_of s)"
    by blast
qed

text \<open>The daemon of \<open>Daemon_Stored\<close> with its layer started once.\<close>

definition demo_live :: bt where
  "demo_live =
     (let ih = HexString demo_hash; x = hex_encode (demo_sha ''abc'');
          s = demo_full\<lparr>handles := (handles demo_full)(0 := (handles demo_full 0)\<lparr>h_hash := demo_hash\<rparr>), next_handle := 1\<rparr> in
      set_torrent ih
        \<lparr>t_InfoHash = ih, t_Name = x, t_tt = 0, t_State = Started, t_Loaded = True, t_Seeding = True, t_Size = 3, t_Downloaded = 3\<rparr>
        (set_idInfo x \<lparr>ii_Id = x, ii_InfoHash = ih, ii_Started = True, ii_Count = 1\<rparr> s))"

lemma demo_live_disk:
  "tree demo_live = tree demo_full" "inodes demo_live = inodes demo_full" "next_ino demo_live = next_ino demo_full"
  "rnd demo_live = rnd demo_full" "faults demo_live = faults demo_full"
  by (simp_all add: demo_live_def Let_def set_torrent_def set_idInfo_def upd_engine_def)

lemma demo_live_view: "view demo_live = view demo_full"
  by (rule view_cong) (simp_all add: demo_live_disk)

lemma demo_live_image: "image_at demo_sha demo_path {} demo_live"
  by (rule image_at_disk [OF _ _ _ _ demo_full_image]) (simp_all add: demo_live_disk)

lemma demo_live_inv: "bt_inv demo_live"
proof -
  let ?s = "demo_full\<lparr>handles := (handles demo_full)(0 := (handles demo_full 0)\<lparr>h_hash := demo_hash\<rparr>), next_handle := 1\<rparr>"
  have e: "gos demo_full = []" "client_Torrent k x demo_full = None" for k x
    using more_eqD [OF demo_full_steps(5)]
    by (simp_all add: client_Torrent_def) (simp add: demo_stored_def new_file_def append_to_def set_node_def demo_daemon_def demo_bt_def demo_new_def)
  have l: "length demo_hash = 20" by (rule demo_mi_simps)
  have "bt_inv ?s" using demo_full_engine l e by (auto simp: bt_inv_def handles_ok_def client_Torrent_def)
  then show ?thesis unfolding demo_live_def Let_def
    by (intro bt_inv_set_torrent bt_inv_set_idInfo) (simp_all add: hash_known_def tor_ok_def)
qed

theorem stored_requests_succeed_witness:
  "\<exists>xs t u. daemon_Status demo_cfg demo_libs ''x:v1'' demo_live = (Inr xs, t) \<and> map ls_Id xs = [hex_encode (demo_sha ''abc'')] \<and>
     StopDownload demo_cfg demo_libs ''x:v1'' True demo_live = (Inr [hex_encode (demo_sha ''abc'')], u) \<and>
     registry_of demo_live (hex_encode (demo_sha ''abc'')) = Some 1 \<and> registry_of u (hex_encode (demo_sha ''abc'')) = None"
proof -
  let ?x = "hex_encode (demo_sha ''abc'')"
  have sha: "lib_sha demo_libs = demo_sha" and root: "c_Root demo_cfg = ''root''" by (simp_all add: demo_libs_def demo_cfg_def)
  have man: "manifest_stored demo_libs demo_path ''v1'' ''m'' demo_live"
    using demo_full_manifest by (simp add: manifest_stored_def ref_bound_def demo_live_view del: view_simps)
  have ids: "map (\<lambda>l. Digest_Hex (desc_Digest l)) (m_Layers demo_manifest) = map Inr [?x]"
    by (simp add: demo_manifest_def demo_digest_def blob_digest_def Digest_Hex_def BlobAlgorithm_def)
  have info: "info_of demo_live = [?x \<mapsto> \<lparr>ii_Id = ?x, ii_InfoHash = HexString demo_hash, ii_Started = True, ii_Count = 1\<rparr>]"
    using demo_full_engine(1) by (auto simp: demo_live_def Let_def)
  have live: "live demo_live (set [?x])"
    unfolding live_def info using demo_full_engine(1) by (simp add: demo_live_def Let_def Started_def Dropped_def)
  have reg: "registry_of demo_live ?x = Some 1" by (simp add: registry_of_def info)
  have op: "openable demo_path demo_live"
    using demo_full_openable by (simp add: openable_def has_parent_def names_left_def demo_live_view demo_live_disk del: view_simps)
  have "''x:v1'' \<noteq> []" "name_ok ''v1''" by (simp_all add: name_ok_def)
  note got = stored_requests_succeed [where cfg = demo_cfg and clean = True, unfolded root, OF demo_libs_laws demo_json(1) this(1)
    demo_dest(3,2) this(2) demo_live_image [folded sha] demo_live_inv man demo_json(2) ids op live]
  have "fold reg_stop [?x] (registry_of demo_live) ?x = None" by (simp add: reg_stop_def reg)
  then show ?thesis using got reg by metis
qed

end
