(* ===== verification/One_Name.thy ===== *)
theory One_Name
  imports Well_Formed
begin

text \<open>
  Files with one name: no two paths lead to one file, so that writing through a path changes what
  is read at this path only. Every call of the program except \<open>os.Link\<close> keeps it, hence every
  request to a daemon that copies. With it, the files the engine makes (\<open>os.Create\<close> empties a
  file that is there, whatever other names it has) leave the images alone.
\<close>

section \<open>The invariant\<close>

definition one_name :: "'z fs_scheme \<Rightarrow> bool" where
  "one_name s \<longleftrightarrow> wf_fs s \<and> (\<forall>k k' i. node_at s k = Some (File i) \<longrightarrow> node_at s k' = Some (File i) \<longrightarrow> k = k')"

lemma one_name_wf: "one_name s \<Longrightarrow> wf_fs s"
  by (simp add: one_name_def)

lemma one_nameD: "one_name s \<Longrightarrow> node_at s k = Some (File i) \<Longrightarrow> sole s k i"
  by (auto simp: one_name_def sole_def)

text \<open>A call that keeps the tree and takes each file from a path that had it, once.\<close>

lemma one_name_moved:
  assumes "one_name s" "wf_fs t"
    and "\<And>k i. node_at t k = Some (File i) \<Longrightarrow> node_at s (g k) = Some (File i)"
    and "\<And>k k' i. node_at t k = Some (File i) \<Longrightarrow> node_at t k' = Some (File i) \<Longrightarrow> g k = g k' \<Longrightarrow> k = k'"
  shows "one_name t"
  unfolding one_name_def
proof (intro conjI allI impI)
  fix k k' i assume "node_at t k = Some (File i)" "node_at t k' = Some (File i)"
  moreover then have "g k = g k'" using assms(1,3) unfolding one_name_def by blast
  ultimately show "k = k'" by (rule assms(4))
qed (rule assms(2))

lemma one_name_fewer:
  assumes "one_name s" "wf_fs t" "\<And>k i. node_at t k = Some (File i) \<Longrightarrow> node_at s k = Some (File i)"
  shows "one_name t"
  by (rule one_name_moved [where g = "\<lambda>k. k", OF assms]) auto

lemma one_name_updates [simp]:
  "one_name (s\<lparr>faults := fl\<rparr>) = one_name s" "one_name (s\<lparr>inodes := g\<rparr>) = one_name s"
  by (simp_all add: one_name_def)

lemma one_name_fresh:
  assumes s: "one_name s" and a: "node_at s ps = None" "node_at s (butlast ps) = Some Dir"
  shows "one_name (snd (new_file ps s))"
proof -
  obtain x t where t: "new_file ps s = (x, t)" by fastforce
  have wf: "wf_fs s" using s by (rule one_name_wf)
  note p = new_file_props [OF wf a t]
  have less: "node_at s k = Some (File i) \<Longrightarrow> i < next_ino s" for k i by (rule wf_fs_ino [OF wf])
  have n: "node_at t k = (if is_path ps \<and> k = ps then Some (File (next_ino s)) else node_at s k)" for k
    using t by (auto simp: new_file_def)
  have "one_name t"
    using s p(2) unfolding one_name_def by (auto simp: n dest: less split: if_splits)
  then show ?thesis using t by simp
qed

lemma one_name_new_file:
  assumes s: "one_name s" and r: "resolve_new s ps = Inr None"
  shows "one_name (snd (new_file ps s))"
proof (rule one_name_fresh [OF s])
  have "node_at s ps = None" "node_at s (butlast ps) = Some Dir \<or> ps = [[]]"
    using resolve_new_InrD [OF one_name_wf [OF s] r] by auto
  then show "node_at s ps = None" "node_at s (butlast ps) = Some Dir" by auto
qed

lemma one_name_create [keep]: "keeps one_name (os_Create f)"
  unfolding os_Create_def
proof (rule keeps_syscall)
  fix s :: "'a fs_scheme" assume s: "one_name s"
  show "one_name (snd (k_create (comps f) s))"
    using s by (auto simp: k_create_def split: sum.splits option.splits node.splits intro: one_name_new_file)
qed simp

lemma one_name_excl [keep]: "keeps one_name (create_excl f)"
  unfolding create_excl_def
proof (rule keeps_syscall)
  fix s :: "'a fs_scheme" assume s: "one_name s"
  show "one_name (snd (k_create_excl (comps f) s))"
    using s by (auto simp: k_create_excl_def split: sum.splits option.splits intro: one_name_new_file)
qed simp

lemma one_name_mkdir: "keeps one_name (syscall (k_mkdir ps))"
proof (rule keeps_syscall)
  fix s :: "'a fs_scheme" assume s: "one_name s"
  show "one_name (snd (k_mkdir ps s))"
  proof (cases "k_mkdir ps s")
    case (Pair r t)
    show ?thesis
    proof (cases r)
      case (Inl e)
      then show ?thesis using Pair s by (auto dest: k_mkdir_Inl)
    next
      case (Inr u)
      then have k: "k_mkdir ps s = (Inr u, t)" using Pair by simp
      then have "t = set_node ps Dir s" by (auto simp: k_mkdir_def split: sum.splits option.splits)
      then have "one_name t"
        by (intro one_name_fewer [OF s k_mkdir_Inr(1) [OF one_name_wf [OF s] k]]) (auto split: if_splits)
      then show ?thesis using k by simp
    qed
  qed
qed (simp add: one_name_def)

lemma one_name_removals [keep]:
  "keeps (one_name :: 'z fs_scheme \<Rightarrow> bool) (os_Remove f)" "keeps (one_name :: 'z fs_scheme \<Rightarrow> bool) (os_RemoveAll f)"
proof -
  have wf: "wf_fs (snd (m s))" if "one_name s" "keeps (none_at {}) m" for m :: "('z fs_scheme, unit) call" and s
    using keepsD [OF that(2), of s] that(1) by (simp add: none_at_empty one_name_wf)
  have tree: "keeps one_name m"
    if "keeps (none_at {}) m" "\<And>s k i. node_at (snd (m s)) k = Some (File i) \<Longrightarrow> node_at s k = Some (File i)"
    for m :: "('z fs_scheme, unit) call"
    by (rule keepsI, rule one_name_fewer [OF _ wf [OF _ that(1)] that(2)])
  show "keeps (one_name :: 'z fs_scheme \<Rightarrow> bool) (os_Remove f)"
    by (rule tree [OF none_at_remove])
      (auto simp: os_Remove_def syscall_def k_remove_def split: list.splits option.splits sum.splits node.splits if_splits)
  show "keeps (one_name :: 'z fs_scheme \<Rightarrow> bool) (os_RemoveAll f)"
    by (rule tree [OF none_at_removeAll])
      (auto simp: os_RemoveAll_def syscall_def k_removeAll_def node_at_def map_of_filter_key
        split: list.splits option.splits if_splits)
qed

lemma one_name_rename [keep]: "keeps one_name (os_Rename a b)"
  unfolding os_Rename_def
proof (rule keeps_syscall)
  fix s :: "'a fs_scheme" assume s: "one_name s"
  have wf: "wf_fs s" using s by (rule one_name_wf)
  show "one_name (snd (k_rename (comps a) (comps b) s))"
  proof (cases "k_rename (comps a) (comps b) s")
    case (Pair r t)
    show ?thesis
    proof (cases r)
      case (Inl e)
      then show ?thesis using Pair s by (auto dest: k_rename_Inl)
    next
      case (Inr u)
      then have k: "k_rename (comps a) (comps b) s = (Inr u, t)" using Pair by simp
      then obtain i where "resolve s (comps a) = Inr (File i)"
        and t: "t = s \<or> t = set_node (comps b) (File i) (del_node (comps a) s)"
        by (auto simp: k_rename_def split: sum.splits option.splits node.splits)
      then have na: "node_at s (comps a) = Some (File i)" by (auto dest: resolve_Inr)
      have pa: "is_path (comps a)" using na by (auto intro: node_not_dir_path [of s])
      have wft: "wf_fs t" by (rule k_rename_Inr(1) [OF wf k]) (use one_nameD [OF s na] in simp)
      have "one_name t"
      proof (cases "t = s")
        case False
        then have t: "t = set_node (comps b) (File i) (del_node (comps a) s)" using t by simp
        show ?thesis
          by (rule one_name_moved [OF s wft, where g = "\<lambda>q. if is_path (comps b) \<and> q = comps b then comps a else q"])
            (use na pa in \<open>auto simp: t split: if_splits\<close>)
      qed (use s in simp)
      then show ?thesis using k by simp
    qed
  qed
qed (simp add: one_name_def)

lemma one_name_disk: "tree t = tree s \<Longrightarrow> next_ino t = next_ino s \<Longrightarrow> rnd t = rnd s \<Longrightarrow> one_name s \<Longrightarrow> one_name t"
  using node_at_cong [of t s] by (simp add: one_name_def wf_fs_def)

text \<open>Every request to a daemon that copies keeps it.\<close>

interpretation copies: disk_frame one_name False
proof (rule disk_frame.intro)
  show "net_frame one_name"
  proof
    fix s :: "'z bt_scheme" and f l h g k tab hs n
    assume "one_name s"
    note * = one_name_disk [OF _ _ _ this]
    show "one_name (upd_engine f s)" by (rule *) (simp_all add: upd_engine_def)
    show "one_name (s\<lparr>gos := l\<rparr>)" by (rule *) simp_all
    show "one_name (upd_handle h g s)" by (rule *) (simp_all add: upd_handle_def)
    show "one_name (upd_client k (\<lambda>cl. cl\<lparr>cl_torrents := tab (cl_torrents cl)\<rparr>) s)"
      by (rule *) (simp_all add: upd_client_def)
    show "one_name (s\<lparr>handles := hs, next_handle := n\<rparr>)" by (rule *) simp_all
  qed
  have "one_name s \<Longrightarrow> one_name (s\<lparr>rnd := \<lambda>n. rnd s (Suc n)\<rparr>)" for s :: "'z bt_scheme"
    by (frule one_name_wf, erule one_name_fewer) (auto simp: wf_fs_def node_at_def)
  then show "disk_frame_axioms one_name False"
    by unfold_locales
      (simp_all add: one_name_create one_name_excl one_name_mkdir one_name_rename one_name_removals)
qed

end
