(* ===== verification/Engine_Files.thy ===== *)
theory Engine_Files
  imports One_Name
begin

text \<open>
  The files the engine writes: their paths, and what writing them leaves alone. \<open>others A V\<close> says
  that every file has one name and that outside the paths of \<open>A\<close> the view is \<open>V\<close>. Copying a layer
  for a seed and seeding it are described by it.
\<close>

section \<open>Paths\<close>

definition engine_dir :: "string \<Rightarrow> string \<Rightarrow> string list" where
  "engine_dir R d = (if R = [] then [] else comps (Clean R)) @ [d]"

lemma engine_path:
  assumes "name_ok d" "name_ok x"
  shows "comps (Join [R, d, x]) = engine_dir R d @ [x]"
proof (cases "R = []")
  case True
  have "Join [R, d, x] = Join [d, x]" using True by (simp add: Join_def)
  also have "\<dots> = join_with slash [d, x]" using assms by (intro Join_names) auto
  finally have "Join [R, d, x] = join_with slash [d, x]" .
  moreover have "\<not> rooted (join_with slash [d, x])" using assms by (intro not_rooted_join) (auto simp: name_ok_def)
  moreover have "split_on slash (join_with slash [d, x]) = [d, x]"
    using assms by (intro split_on_join) (auto simp: name_ok_def)
  ultimately show ?thesis using True assms by (simp add: comps_def engine_dir_def name_ok_def)
next
  case False
  have "Join [R, d, x] = Join [R, join_with slash [d, x]]" using False by (simp add: Join_Cons)
  then show ?thesis using False assms comps_Join_names [of R "[d, x]"] by (auto simp: engine_dir_def)
qed

definition layer_file :: "string \<Rightarrow> string \<Rightarrow> string list" where
  "layer_file R h = engine_dir R ''data'' @ [h @ ''.layer'']"

lemma engine_files:
  assumes "name_ok h"
  shows "comps (GetFilePath e h) = layer_file (e_rootDir e) h"
    "comps (GetTorrentFilePath e h) = engine_dir (e_rootDir e) ''torrents'' @ [h @ ''.torrent'']"
proof -
  have ext: "name_ok (h @ x)" if "slash \<notin> set x" "length x > 2" for x
    using assms that by (auto simp: name_ok_def append_eq_Cons_conv)
  show "comps (GetFilePath e h) = layer_file (e_rootDir e) h"
    "comps (GetTorrentFilePath e h) = engine_dir (e_rootDir e) ''torrents'' @ [h @ ''.torrent'']"
    unfolding GetFilePath_def GetTorrentFilePath_def layer_file_def
    by (intro engine_path ext; simp add: name_ok_def)+
qed

text \<open>No file of the engine is a file of an image, wherever the two directories are.\<close>

definition torrent_files :: "string \<Rightarrow> string list set" where
  "torrent_files h = {k. \<exists>us. k = us @ [''torrents'', h @ ''.torrent'']}"

lemma layer_file_shape: "\<exists>us. layer_file R h = us @ [''data'', h @ ''.layer'']"
  by (simp add: layer_file_def engine_dir_def)

lemma layer_file_apart [simp]:
  "layer_file R h \<noteq> blob_file p h'" "blob_file p h' \<noteq> layer_file R h"
  "layer_file R h \<noteq> ref_file p n" "layer_file R h \<noteq> comps p @ [layoutFile]" "layer_file R h \<noteq> comps p @ [blobDirectory]"
  "layer_file R h \<notin> torrent_files h'" "layer_file R h = layer_file R h' \<longleftrightarrow> h = h'"
proof -
  have l: "z @ ''.layer'' \<noteq> layoutFile" "z @ ''.layer'' \<noteq> blobDirectory" for z
    by (auto simp: layoutFile_def blobDirectory_def append_eq_Cons_conv)
  show "layer_file R h \<noteq> blob_file p h'" "blob_file p h' \<noteq> layer_file R h"
    "layer_file R h \<noteq> ref_file p n" "layer_file R h \<noteq> comps p @ [layoutFile]" "layer_file R h \<noteq> comps p @ [blobDirectory]"
    "layer_file R h \<notin> torrent_files h'" "layer_file R h = layer_file R h' \<longleftrightarrow> h = h'"
    using layer_file_shape [of R h] l
    by (auto simp: blob_file_def ref_file_def BlobAlgorithm_def refDirectory_def torrent_files_def layer_file_def)
qed

lemma torrent_files_apart [simp]:
  "blob_file p h' \<notin> torrent_files h" "ref_file p n \<notin> torrent_files h"
  "comps p @ [layoutFile] \<notin> torrent_files h" "comps p @ [blobDirectory] \<notin> torrent_files h"
proof -
  have l: "z @ ''.torrent'' \<noteq> layoutFile" "z @ ''.torrent'' \<noteq> blobDirectory" for z
    by (auto simp: layoutFile_def blobDirectory_def append_eq_Cons_conv)
  show "blob_file p h' \<notin> torrent_files h" "ref_file p n \<notin> torrent_files h"
    "comps p @ [layoutFile] \<notin> torrent_files h" "comps p @ [blobDirectory] \<notin> torrent_files h"
    using l [symmetric] by (auto simp: torrent_files_def blob_file_def ref_file_def BlobAlgorithm_def refDirectory_def)
qed

section \<open>Writing\<close>

definition others :: "string list set \<Rightarrow> (string list \<Rightarrow> bytes option option) \<Rightarrow> 'z fs_scheme \<Rightarrow> bool" where
  "others A V s \<longleftrightarrow> one_name s \<and> (\<forall>k. k \<notin> A \<longrightarrow> view s k = V k)"

text \<open>A file of \<open>A\<close> is open.\<close>

definition opened ::
  "string list set \<Rightarrow> (string list \<Rightarrow> bytes option option) \<Rightarrow> string list \<Rightarrow> nat \<Rightarrow> bytes \<Rightarrow> 'z fs_scheme \<Rightarrow> bool" where
  "opened A V k i d s \<longleftrightarrow> others A V s \<and> k \<in> A \<and> node_at s k = Some (File i) \<and> inodes s i = d"

lemma others_self: "one_name s \<Longrightarrow> others A (view s) s"
  by (simp add: others_def)

lemma others_faults: "others A V (s\<lparr>faults := fl\<rparr>) = others A V s" "opened A V k i d (s\<lparr>faults := fl\<rparr>) = opened A V k i d s"
  by (simp_all add: others_def opened_def del: view_simps)

lemma others_create:
  assumes A: "comps f \<in> A"
  shows "triple (others A V :: 'z fs_scheme \<Rightarrow> bool) (os_Create f) (\<lambda>i. opened A V (comps f) i []) (\<lambda>_. others A V)"
  unfolding os_Create_def
proof (rule triple_syscall)
  fix s t :: "'z fs_scheme" and i
  assume s: "others A V s" and k: "k_create (comps f) s = (Inr i, t)"
  have one: "one_name s" using s by (simp add: others_def)
  have wf: "wf_fs s" using one by (rule one_name_wf)
  obtain r where r: "resolve_new s (comps f) = Inr r" using k by (auto simp: k_create_def split: sum.splits)
  have n: "r = node_at s (comps f)" and up: "node_at s (butlast (comps f)) = Some Dir \<or> comps f = [[]]"
    using resolve_new_InrD [OF wf r] by auto
  show "opened A V (comps f) i [] t"
  proof (cases r)
    case None
    then have new: "new_file (comps f) s = (Inr i, t)" using k r by (simp add: k_create_def)
    have a: "node_at s (comps f) = None" "node_at s (butlast (comps f)) = Some Dir" using n up None by auto
    note p = new_file_props [OF wf a new]
    have "one_name t" using one_name_new_file [OF one, of "comps f"] r None new by simp
    moreover have "node_at t (comps f) = Some (File i)" using p(1,4) by (simp add: sole_def)
    moreover have "inodes t i = []" using p(1,5) by simp
    ultimately show ?thesis using s A p(3) by (auto simp: opened_def others_def simp del: view_simps)
  next
    case (Some m)
    then have m: "m = File i" "t = s\<lparr>inodes := (inodes s)(i := [])\<rparr>" using k r by (auto simp: k_create_def split: node.splits)
    then have nf: "node_at s (comps f) = Some (File i)" using n Some by simp
    have "view t q = view s q" if "q \<noteq> comps f" for q
    proof (rule view_cong_inodes)
      fix j assume "node_at s q = Some (File j)"
      then have "j \<noteq> i" using nf that one unfolding one_name_def by blast
      then show "inodes t j = inodes s j" by (simp add: m)
    qed (simp add: m)
    then have "view t q = V q" if "q \<notin> A" for q using s A that by (metis others_def)
    moreover have "one_name t" "node_at t (comps f) = Some (File i)" "inodes t i = []" using one nf by (simp_all add: m)
    ultimately show ?thesis using A by (simp add: opened_def others_def)
  qed
next
  fix s t :: "'z fs_scheme" and e
  assume "others A V s" "k_create (comps f) s = (Inl e, t)"
  then show "others A V t" by (auto simp: k_create_def new_file_def split: sum.splits option.splits node.splits)
qed (simp_all add: others_faults)

lemma opened_append:
  assumes "opened A V k i d s"
  shows "opened A V k i (d @ bs) (append_to i bs s)"
proof -
  have s: "sole s k i" using assms by (auto simp: opened_def others_def intro: one_nameD)
  have one: "one_name (append_to i bs s)" using assms by (simp add: opened_def others_def append_to_def)
  show ?thesis
    using append_to_props(1,2) [OF s, of bs] append_to_props(3) [OF s, of _ bs] assms one
    unfolding opened_def others_def sole_def by metis
qed

lemma opened_write:
  "triple (opened A V k i d) (file_Write i bs) (\<lambda>_. opened A V k i (d @ bs)) (\<lambda>_. others A V)"
proof (rule tripleI)
  fix s :: "'z fs_scheme" assume s: "opened A V k i d s"
  then have "opened A V k i d (s\<lparr>faults := fl\<rparr>)" for fl by (simp add: others_faults)
  then have "opened A V k i (d @ x) (append_to i x s)" "opened A V k i (d @ x) (append_to i x (s\<lparr>faults := fl\<rparr>))" for x fl
    using s by (auto intro: opened_append)
  then show "case file_Write i bs s of (Inl e, t) \<Rightarrow> others A V t | (Inr x, t) \<Rightarrow> opened A V k i (d @ bs) t"
    by (auto simp: file_Write_def opened_def split: list.splits option.splits)
qed

text \<open>A call that only reads.\<close>

lemma others_look [keep]: "keeps (others A V) (syscall (\<lambda>s. (f s, s)))" "keeps (opened A V k i d) (syscall (\<lambda>s. (f s, s)))"
  by (rule keeps_syscall; simp add: others_faults)+

lemma others_reads [keep]:
  "keeps (others A V) (os_Stat f)" "keeps (others A V) (os_Open f)" "keeps (others A V) (read_all n)"
  "keeps (opened A V k i d) (os_Open f)"
  unfolding os_Stat_def os_Open_def read_all_def by (rule others_look)+

lemma others_files [keep]:
  "keeps (others A V) (ioutil_ReadFile f)" "keeps (others A V) (BuildFromFilePath c f j)" "keeps (others A V) (LoadFromFile c f)"
  unfolding BuildFromFilePath_def LoadFromFile_def ioutil_ReadFile_def Let_def by (intro keep)+

lemma opened_GetBlob: "keeps (opened A V k i d) (GetBlob e dg)"
  unfolding GetBlob_def by (intro keep)

section \<open>Seeding\<close>

interpretation beside: net_frame "others A V" for A V
proof
  fix s :: "'z bt_scheme" and f l h g k tab hs n
  assume s: "others A V s"
  have *: "others A V t" if "tree t = tree s" "inodes t = inodes s" "next_ino t = next_ino s" "rnd t = rnd s" for t :: "'z bt_scheme"
  proof -
    have n: "node_at t = node_at s" by (rule node_at_cong [OF that(1)])
    have "view t = view s" by (rule ext) (simp add: view_def n that(2) cong: node.case_cong)
    moreover have "one_name t" by (rule one_name_disk [OF that(1,3,4)]) (use s in \<open>simp add: others_def\<close>)
    ultimately show ?thesis using s by (simp add: others_def del: view_simps)
  qed
  show "others A V (upd_engine f s)" by (rule *) (simp_all add: upd_engine_def)
  show "others A V (s\<lparr>gos := l\<rparr>)" by (rule *) simp_all
  show "others A V (upd_handle h g s)" by (rule *) (simp_all add: upd_handle_def)
  show "others A V (upd_client k (\<lambda>cl. cl\<lparr>cl_torrents := tab (cl_torrents cl)\<rparr>) s)"
    by (rule *) (simp_all add: upd_client_def)
  show "others A V (s\<lparr>handles := hs, next_handle := n\<rparr>)" by (rule *) simp_all
qed

text \<open>A seed writes its torrent file and nothing else.\<close>

lemma others_StartSeed:
  assumes h: "name_ok h" and A: "torrent_files h \<subseteq> A"
  shows "keeps (others A V :: 'z bt_scheme \<Rightarrow> bool) (StartSeed c h)"
proof -
  have t: "comps (GetTorrentFilePath e h) \<in> A" for e
    using engine_files(2) [OF h, of e] A by (auto simp: torrent_files_def engine_dir_def)
  have put: "keeps (others A V :: 'z bt_scheme \<Rightarrow> bool) (bindE (wrapE w (os_Create (GetTorrentFilePath e h))) (\<lambda>fh. wrapE w' (file_Write fh bs)))"
    for w w' e bs
    by (rule triple_bind [OF triple_wrap [OF others_create [OF t]]], rule triple_wrap,
        rule triple_weaken [OF opened_write]) (auto simp: opened_def)
  have "keeps (others A V :: 'z bt_scheme \<Rightarrow> bool) (createTorrent c h)"
    unfolding createTorrent_def Let_def by (intro keep put)
  then show ?thesis unfolding StartSeed_def
    by (intro beside.guard keeps_bind keeps_simple keeps_cases keeps_modify beside.set_simps keeps_wrap keeps_try
        others_reads others_files beside.registering)
qed

text \<open>No start moves the engine's directory.\<close>

definition root_is :: "string \<Rightarrow> 'z bt_scheme \<Rightarrow> bool" where
  "root_is R s \<longleftrightarrow> e_rootDir (engine s) = R"

lemma root_set [simp]: "root_is R (set_torrent ih t s) = root_is R s" "root_is R (set_idInfo idn x s) = root_is R s"
  "root_is R (s\<lparr>gos := l\<rparr>) = root_is R s"
  by (simp_all add: root_is_def set_torrent_def set_idInfo_def)

lemma root_engine:
  fixes m :: "('z bt_scheme, 'v) call"
  assumes "\<And>E G. keeps (at_engine E G) m"
  shows "keeps (root_is R) m"
proof (rule keepsI)
  fix s :: "'z bt_scheme" assume "root_is R s"
  moreover have "at_engine (engine s) (gos s) (snd (m s))" by (rule keepsD [OF assms]) (simp add: at_engine_def)
  ultimately show "root_is R (snd (m s))" by (simp add: root_is_def at_engine_def)
qed

lemma root_StartSeed: "keeps (root_is R) (StartSeed c idn)"
proof -
  have client: "keeps (root_is R) engine_client" unfolding engine_client_def by (intro keep)
  have add: "keeps (root_is R) (addTorrent tt)" for tt
    unfolding addTorrent_def by (intro keep) simp
  have reg: "keeps (root_is R) (register c idn m)" for m
    unfolding register_def
    by (intro keeps_bind client keeps_wrap root_engine [OF AddTorrent_engine] add keeps_modify keeps_simple) simp_all
  have files: "keeps (root_is R) (os_Stat f)" "keeps (root_is R) (LoadFromFile c f)" for f
    unfolding LoadFromFile_def by (intro root_engine fs_engine keep)+
  show ?thesis unfolding StartSeed_def when_started_def
    by (intro keeps_bind keeps_simple keeps_cases keeps_modify keeps_wrap keeps_try files reg
        root_engine [OF createTorrent_engine]) simp_all
qed

end
