(* ===== verification/Daemon_Seeder.thy ===== *)
theory Daemon_Seeder
  imports Engine_Files
begin

text \<open>
  A seeder's download, in copying mode: the invariant of its loop over the layers, which says of the
  image what \<open>image_at\<close> says and of each layer copied so far that the engine's file has its content;
  and with it the safety of all requests to a daemon that copies, seeder or leecher.
\<close>

section \<open>One layer\<close>

lemma others_image:
  assumes "image_at sha p K s" "others A (view s) t" "\<And>h. blob_file p h \<notin> A" "\<And>n. ref_file p n \<notin> A"
    "comps p @ [layoutFile] \<notin> A" "comps p @ [blobDirectory] \<notin> A"
  shows "image_at sha p K t"
proof -
  have v: "view t k = view s k" if "k \<notin> A" for k using assms(2) that by (simp add: others_def del: view_simps)
  have "wf_fs t" using assms(2) by (simp add: others_def one_name_wf)
  then show ?thesis
    using assms(1) by (simp add: image_at_def whole_image_def v assms(3-) del: view_simps)
qed

lemma copy_read:
  assumes e: "session sha p e" and h: "name_ok h" and c: "V (blob_file p h) = Some (Some c)"
  shows "triple (opened {k} V k i [] :: 'z fs_scheme \<Rightarrow> bool) (GetBlob e (digest_of h))
     (\<lambda>n s. opened {k} V k i [] s \<and> (blob_file p h \<noteq> k \<longrightarrow> (\<exists>j. n = File j \<and> inodes s j = c))) (\<lambda>_. others {k} V)"
proof (rule tripleI)
  fix s :: "'z fs_scheme" assume s: "opened {k} V k i [] s"
  then have st: "fs_st False (view s) s" by (simp add: fs_st_def opened_def others_def one_name_wf)
  have le: "layout_ok e" "l_path e = p" using e by (auto simp: session_def)
  note tr = GetBlob_triple [OF le(1) h, where c = False and V = "view s"]
  have o: "opened {k} V k i [] (snd (GetBlob e (digest_of h) s))" by (rule keepsD [OF opened_GetBlob s])
  show "case GetBlob e (digest_of h) s of (Inl x, t) \<Rightarrow> others {k} V t
      | (Inr n, t) \<Rightarrow> opened {k} V k i [] t \<and> (blob_file p h \<noteq> k \<longrightarrow> (\<exists>j. n = File j \<and> inodes t j = c))"
  proof (cases "GetBlob e (digest_of h) s")
    case (Pair r t)
    show ?thesis
    proof (cases r)
      case (Inl x)
      then show ?thesis using Pair o by (simp add: opened_def)
    next
      case (Inr n)
      have "node_at t (blob_file p h) = Some n" using tripleD_Inr [OF tr st] Pair Inr le(2) by simp
      moreover have "view t (blob_file p h) = Some (Some c)" if "blob_file p h \<noteq> k"
        using o Pair that c by (simp add: opened_def others_def del: view_simps)
      ultimately show ?thesis using o Pair Inr by auto
    qed
  qed
qed

lemma copy_write:
  "triple (\<lambda>s. opened {k} V k i [] s \<and> (\<exists>j. n = File j \<and> inodes s j = c))
     (bindE (file_reader n) (\<lambda>rd. wrapE w (io_Copy i rd)))
     (\<lambda>_ s. others {k} V s \<and> view s k = Some (Some c)) (\<lambda>_. others {k} V)"
proof (rule triple_bind [where M = "\<lambda>rd s. opened {k} V k i [] s \<and> (snd rd = None \<longrightarrow> fst rd = c)"])
  show "triple (\<lambda>s. opened {k} V k i [] s \<and> (\<exists>j. n = File j \<and> inodes s j = c)) (file_reader n)
      (\<lambda>rd s. opened {k} V k i [] s \<and> (snd rd = None \<longrightarrow> fst rd = c)) (\<lambda>_. others {k} V)"
    by (rule tripleI) (auto simp: file_reader_def others_faults split: list.splits option.splits)
  fix rd :: reader
  have "triple (opened {k} V k i []) (io_Copy i rd)
      (\<lambda>_ s. snd rd = None \<and> opened {k} V k i (fst rd) s) (\<lambda>_. others {k} V)"
    unfolding io_Copy_def
    by (rule triple_then [OF opened_write]) (auto simp: opened_def split: option.split intro!: triple_return triple_throw)
  then show "triple (\<lambda>s. opened {k} V k i [] s \<and> (snd rd = None \<longrightarrow> fst rd = c)) (wrapE w (io_Copy i rd))
      (\<lambda>_ s. others {k} V s \<and> view s k = Some (Some c)) (\<lambda>_. others {k} V)"
    by (intro triple_wrap, cases "snd rd = None \<longrightarrow> fst rd = c")
      (auto elim!: triple_weaken simp: opened_def triple_False)
qed

lemma startSeedingLayer_root: "keeps (root_is R) (startSeedingLayer cfg L i d)"
  unfolding startSeedingLayer_def
  by (intro keeps_bind keeps_simple keeps_cases keeps_wrap keeps_catch root_StartSeed; rule root_engine, rule fs_engine, intro keep)

lemma startSeedingLayer_triple:
  assumes e: "session sha p (oi_layout i)" and h: "name_ok h" and c: "V (blob_file p h) = Some (Some c)"
    and cfg: "\<not> c_UseHardlink cfg"
  shows "triple (\<lambda>s. root_is R s \<and> one_name s \<and> view s = V) (startSeedingLayer cfg L i (digest_of h))
     (\<lambda>_. others (torrent_files h) (V(layer_file R h \<mapsto> Some c))) (\<lambda>_. others (insert (layer_file R h) (torrent_files h)) V)"
proof -
  let ?k = "layer_file R h" and ?A = "insert (layer_file R h) (torrent_files h)"
  have hex: "Digest_Hex (digest_of h) = Inr h" by (simp add: Digest_Hex_def BlobAlgorithm_def)
  have off: "c_UseHardlink cfg = False" using cfg by simp
  have wide: "others {?k} V s \<Longrightarrow> others ?A V s" for s by (simp add: others_def)
  have seed: "triple (\<lambda>s. others {?k} V s \<and> view s ?k = Some (Some c)) (catchE (StartSeed (lib_torrent L) h) (\<lambda>_. returnE ()))
      (\<lambda>_. others (torrent_files h) (V(?k \<mapsto> Some c))) (\<lambda>_. others ?A V)"
    by (rule triple_weaken [OF keeps_catch [OF others_StartSeed [OF h subset_refl, where V = "V(?k \<mapsto> Some c)"] keeps_simple(1)]])
      (auto simp: others_def simp del: view_simps)
  have copy: "triple (others {?k} V) (bindE (wrapE w1 (os_Create fn)) (\<lambda>layerFile.
          bindE (wrapE w2 (GetBlob (oi_layout i) (digest_of h))) (\<lambda>srcFile.
          bindE (file_reader srcFile) (\<lambda>rd. wrapE w3 (io_Copy layerFile rd)))))
      (\<lambda>_ s. others {?k} V s \<and> view s ?k = Some (Some c)) (\<lambda>_. others {?k} V)" if "comps fn = ?k" for fn w1 w2 w3
    by (rule triple_bind [OF triple_wrap [OF others_create]], simp add: that, unfold that,
        rule triple_bind [OF triple_wrap [OF copy_read [where V = V, OF e h c]]], rule triple_weaken [OF copy_write]) auto
  have fn: "comps (GetFilePath (engine s) h) = ?k" if "root_is R s" for s :: "'z bt_scheme"
    using engine_files(1) [OF h] that by (simp add: root_is_def)
  show ?thesis
    unfolding startSeedingLayer_def hex bindE_lift off if_False
  proof (rule triple_bind [where M = "\<lambda>fn s. comps fn = ?k \<and> others {?k} V s"], goal_cases)
    case 1
    show ?case by (rule triple_get) (auto simp: others_def fn)
  next
    case (2 fn)
    show ?case
      by (rule triple_assume, rule triple_bind [OF triple_weaken [OF copy] seed]) (auto intro: wide)
  qed
qed


section \<open>The loop over the layers\<close>

text \<open>A blob the image did not have at first is in the engine's directory as well.\<close>

definition seeded ::
  "(bytes \<Rightarrow> bytes) \<Rightarrow> string \<Rightarrow> string \<Rightarrow> string set \<Rightarrow> pin set \<Rightarrow> 'z bt_scheme \<Rightarrow> bool" where
  "seeded sha p R B K s \<longleftrightarrow>
     image_at sha p K s \<and> one_name s \<and> root_is R s \<and>
     (\<forall>h c. name_ok h \<longrightarrow> h \<notin> B \<longrightarrow> view s (blob_file p h) = Some (Some c) \<longrightarrow> view s (layer_file R h) = Some (Some c))"

definition safe_image :: "(bytes \<Rightarrow> bytes) \<Rightarrow> string \<Rightarrow> pin set \<Rightarrow> 'z fs_scheme \<Rightarrow> bool" where
  "safe_image sha p K s \<longleftrightarrow> image_at sha p K s \<and> one_name s"

lemma seeded_safe: "seeded sha p R B K s \<Longrightarrow> J \<subseteq> K \<Longrightarrow> safe_image sha p J s"
  by (auto simp: seeded_def safe_image_def elim: image_at_mono)

lemma safe_mono: "safe_image sha p K s \<Longrightarrow> J \<subseteq> K \<Longrightarrow> safe_image sha p J s"
  by (auto simp: safe_image_def elim: image_at_mono)

lemma triple_ex2: "(\<And>x y. triple (P x y) m Q R) \<Longrightarrow> triple (\<lambda>s. \<exists>x y. P x y s) m Q R"
  by (fastforce simp: triple_def)

lemma seeded_keeps_view:
  assumes "\<And>V. keeps (others {} V) m" "keeps (root_is R) m"
    and "triple (image_at sha p K) m (\<lambda>x. image_at sha p (J x)) (\<lambda>_. image_at sha p K)"
  shows "triple (seeded sha p R B K) m (\<lambda>x. seeded sha p R B (J x)) (\<lambda>_. safe_image sha p K)"
proof (rule tripleI)
  fix s :: "'a bt_scheme" assume s: "seeded sha p R B K s"
  then have i: "image_at sha p K s" and o: "others {} (view s) s" and r: "root_is R s"
    by (simp_all add: seeded_def others_def)
  have o': "others {} (view s) (snd (m s))" by (rule keepsD [OF assms(1) o])
  have r': "root_is R (snd (m s))" by (rule keepsD [OF assms(2) r])
  have new: "seeded sha p R B K' (snd (m s))" if "image_at sha p K' (snd (m s))" for K'
    using s o' r' that by (simp add: seeded_def others_def del: view_simps)
  show "case m s of (Inl x, t) \<Rightarrow> safe_image sha p K t | (Inr x, t) \<Rightarrow> seeded sha p R B (J x) t"
  proof (cases "m s")
    case (Pair q t)
    then show ?thesis
      using tripleD_Inl [OF assms(3) i] tripleD_Inr [OF assms(3) i] new o'
      by (cases q) (auto simp: safe_image_def others_def)
  qed
qed

lemma Exist_others: "keeps (others {} V) (Exist e d)"
  unfolding Exist_def by (intro keep)

lemma more_root:
  fixes m :: "('z bt_scheme, 'v) call"
  shows "(\<And>M. keeps (\<lambda>s. fs.more s = M) m) \<Longrightarrow> keeps (root_is R) m"
  by (intro root_engine fs_engine)

lemma seeded_PutBlob:
  assumes e: "session sha p e"
  shows "triple (seeded sha p R B K) (PutBlob sha e rd)
     (\<lambda>(dg, n) s. \<exists>h c. name_ok h \<and> dg = digest_of h \<and> view s (blob_file p h) = Some (Some c) \<and>
        seeded sha p R (insert h B) (insert (Blob h) K) s) (\<lambda>_. safe_image sha p K)"
proof (rule tripleI)
  fix s :: "'a bt_scheme" assume s: "seeded sha p R B K s"
  let ?h = "hex_encode (sha (fst rd))"
  have i: "image_at sha p K s" and one: "one_name s" and r: "root_is R s" using s by (simp_all add: seeded_def)
  have le: "layout_ok e" "sha_ok sha" "l_path e = p" using e by (auto simp: session_def)
  have st: "fs_st False (view s) s" using i by (simp add: fs_st_def image_at_wf)
  note tr = PutBlob_triple [OF le(1,2), where c = False and V = "view s" and d = "fst rd" and err = "snd rd", simplified]
  have one': "one_name (snd (PutBlob sha e rd s))" by (rule keepsD [OF copies.layout(2) one])
  have root': "root_is R (snd (PutBlob sha e rd s))" by (rule keepsD [OF more_root [OF layout_more(1)] r])
  show "case PutBlob sha e rd s of (Inl x, t) \<Rightarrow> safe_image sha p K t
      | (Inr q, t) \<Rightarrow> (case q of (dg, n) \<Rightarrow> \<lambda>s. \<exists>h c. name_ok h \<and> dg = digest_of h \<and> view s (blob_file p h) = Some (Some c) \<and>
        seeded sha p R (insert h B) (insert (Blob h) K) s) t"
  proof (cases "PutBlob sha e rd s")
    case (Pair q t)
    show ?thesis
    proof (cases q)
      case (Inl x)
      then show ?thesis using tripleD_Inl [OF image_PutBlob [OF e] i] Pair one' by (simp add: safe_image_def)
    next
      case (Inr y)
      obtain dg n where y: "y = (dg, n)" by (cases y)
      have call: "PutBlob sha e rd s = (Inr (dg, n), t)" using Pair Inr y by simp
      have st': "fs_st False ((view s)(blob_file p ?h \<mapsto> Some (fst rd))) t" and dg: "dg = blob_digest sha (fst rd)"
        using tripleD_Inr [OF tr st call] le(3) by auto
      have im: "image_at sha p (insert (Blob ?h) K) t"
        using tripleD_Inr [OF image_PutBlob [OF e] i call] by auto
      have v: "view t = (view s)(blob_file p ?h \<mapsto> Some (fst rd))" using st' by (simp add: fs_st_def)
      have "seeded sha p R (insert ?h B) (insert (Blob ?h) K) t"
        using s im one' root' Pair by (simp add: seeded_def v del: view_simps)
      moreover have "name_ok ?h" by (rule name_ok_sha [OF le(2)])
      moreover have "view t (blob_file p ?h) = Some (Some (fst rd))" by (simp add: v del: view_simps)
      ultimately show ?thesis using Pair Inr by (auto simp: y dg blob_digest_def)
    qed
  qed
qed

lemma seeded_copyLayer:
  assumes e: "session (lib_sha L) p (oi_layout i)"
  shows "triple (seeded (lib_sha L) p R B K) (copyLayer L i src l)
     (\<lambda>_ s. \<exists>h c. (name_ok h \<and> bi_Digest l = digest_of h) \<and> view s (blob_file p h) = Some (Some c) \<and>
        seeded (lib_sha L) p R (insert h B) (K \<union> hashes [bi_Digest l]) s) (\<lambda>_. safe_image (lib_sha L) p K)"
  unfolding copyLayer_def
proof (rule triple_bind [where M = "\<lambda>_. seeded (lib_sha L) p R B K"], goal_cases)
  case 1
  show ?case by (rule triple_lift) (auto intro: seeded_safe)
next
  case (2 rd)
  have one: "hashes [digest_of h] \<subseteq> {Blob h}" for h by (auto simp: hashes_def)
  have drop: "seeded sha p R B' (insert (Blob h) K) s \<Longrightarrow> seeded sha p R B' (K \<union> hashes [digest_of h]) s" for sha B' h and s :: "'a bt_scheme"
    using one [of h] by (auto simp: seeded_def elim: image_at_mono)
  show ?case
  proof (rule triple_bind [OF triple_wrap [OF seeded_PutBlob [OF e]]], goal_cases)
    case (1 y)
    show ?case
      by (cases y, simp only: prod.case, intro triple_if triple_throw triple_return)
        (auto intro: seeded_safe drop)
  qed
qed

lemma seeded_startSeedingLayer:
  assumes e: "session (lib_sha L) p (oi_layout i)" and h: "name_ok h" and cfg: "\<not> c_UseHardlink cfg"
  shows "triple (\<lambda>s. view s (blob_file p h) = Some (Some c) \<and> seeded (lib_sha L) p R (insert h B) K s)
     (startSeedingLayer cfg L i (digest_of h)) (\<lambda>_. seeded (lib_sha L) p R B K) (\<lambda>_. safe_image (lib_sha L) p K)"
proof (rule tripleI)
  fix s :: "'a bt_scheme"
  assume pre: "view s (blob_file p h) = Some (Some c) \<and> seeded (lib_sha L) p R (insert h B) K s"
  then have c: "view s (blob_file p h) = Some (Some c)" and s: "seeded (lib_sha L) p R (insert h B) K s" by auto
  let ?A = "insert (layer_file R h) (torrent_files h)" and ?m = "startSeedingLayer cfg L i (digest_of h)"
  note tr = startSeedingLayer_triple [where V = "view s" and R = R, OF e h c cfg]
  have P: "root_is R s \<and> one_name s \<and> view s = view s" and im: "image_at (lib_sha L) p K s"
    using s by (simp_all add: seeded_def)
  have root': "root_is R (snd (?m s))" by (rule keepsD [OF startSeedingLayer_root]) (use P in simp)
  have ref: "ref_file p n \<notin> ?A" for n by (metis insert_iff layer_file_apart(3) torrent_files_apart(2))
  have keys: "comps p @ [layoutFile] \<notin> ?A" "comps p @ [blobDirectory] \<notin> ?A"
    by (metis insert_iff layer_file_apart(4) torrent_files_apart(3)) (metis insert_iff layer_file_apart(5) torrent_files_apart(4))
  have safe: "image_at (lib_sha L) p K t" if "others ?A (view s) t" for t :: "'a bt_scheme"
    by (rule others_image [OF im that _ ref keys]) simp
  show "case ?m s of (Inl x, t) \<Rightarrow> safe_image (lib_sha L) p K t | (Inr x, t) \<Rightarrow> seeded (lib_sha L) p R B K t"
  proof (cases "?m s")
    case (Pair q t)
    show ?thesis
    proof (cases q)
      case (Inl x)
      then have "others ?A (view s) t" using tripleD_Inl [OF tr P] Pair by simp
      then show ?thesis using Pair Inl safe by (simp add: safe_image_def others_def)
    next
      case (Inr x)
      then have o: "others (torrent_files h) ((view s)(layer_file R h \<mapsto> Some c)) t" using tripleD_Inr [OF tr P] Pair by simp
      then have wide: "others ?A (view s) t" by (simp add: others_def)
      have b: "view t (blob_file p h') = view s (blob_file p h')" for h'
        using wide by (simp add: others_def del: view_simps)
      have l: "view t (layer_file R h') = (if h' = h then Some (Some c) else view s (layer_file R h'))" for h'
        using o by (simp add: others_def del: view_simps)
      have "seeded (lib_sha L) p R B K t"
        using s c safe [OF wide] wide root' Pair by (auto simp: seeded_def b l others_def simp del: view_simps)
      then show ?thesis using Pair Inr by simp
    qed
  qed
qed

lemma seed_layer_triple:
  assumes e: "session (lib_sha L) p (oi_layout i)" and cfg: "\<not> c_UseHardlink cfg"
  shows "triple (seeded (lib_sha L) p R B K) (seed_layer cfg L i src l)
     (\<lambda>_. seeded (lib_sha L) p R B (K \<union> hashes [bi_Digest l])) (\<lambda>_. safe_image (lib_sha L) p K)"
  unfolding seed_layer_def
proof (rule triple_bind [OF triple_wrap [OF seeded_keeps_view [OF Exist_others more_root [OF layout_more(2)] image_Exist_true [OF e]]]],
    goal_cases)
  case (1 ok)
  show ?case
  proof (cases ok)
    case True
    then show ?thesis by (simp add: triple_return)
  next
    case False
    have "triple (\<lambda>s. \<exists>h c. (name_ok h \<and> bi_Digest l = digest_of h) \<and> view s (blob_file p h) = Some (Some c) \<and>
          seeded (lib_sha L) p R (insert h B) (K \<union> hashes [bi_Digest l]) s) (startSeedingLayer cfg L i (bi_Digest l))
        (\<lambda>_. seeded (lib_sha L) p R B (K \<union> hashes [bi_Digest l])) (\<lambda>_. safe_image (lib_sha L) p K)"
    proof (rule triple_ex2, rule triple_assume)
      fix h c assume h: "name_ok h \<and> bi_Digest l = digest_of h"
      show "triple (\<lambda>s. view s (blob_file p h) = Some (Some c) \<and>
          seeded (lib_sha L) p R (insert h B) (K \<union> hashes [bi_Digest l]) s) (startSeedingLayer cfg L i (bi_Digest l))
        (\<lambda>_. seeded (lib_sha L) p R B (K \<union> hashes [bi_Digest l])) (\<lambda>_. safe_image (lib_sha L) p K)"
        unfolding conjunct2 [OF h]
        by (rule triple_weaken [OF seeded_startSeedingLayer [OF e conjunct1 [OF h] cfg]])
          (assumption, assumption, erule safe_mono, blast)
    qed
    then show ?thesis using False by (simp only: if_False) (rule triple_bind [OF seeded_copyLayer [OF e]])
  qed
qed

lemma seed_layers_triple:
  assumes e: "session (lib_sha L) p (oi_layout i)" and cfg: "\<not> c_UseHardlink cfg"
  shows "triple (seeded (lib_sha L) p R B K) (forE ls (seed_layer cfg L i src))
     (\<lambda>_. seeded (lib_sha L) p R B (K \<union> hashes (map bi_Digest ls))) (\<lambda>_. safe_image (lib_sha L) p K)"
proof (induction ls arbitrary: K)
  case Nil
  show ?case by (simp add: triple_return)
next
  case (Cons l ls)
  have U: "K \<union> hashes (map bi_Digest (l # ls)) = K \<union> hashes [bi_Digest l] \<union> hashes (map bi_Digest ls)"
    using hashes_Cons [of "bi_Digest l" "map bi_Digest ls"] by (simp add: Un_assoc)
  show ?case unfolding forE.simps U
  proof (rule triple_bind [OF seed_layer_triple [OF e cfg]], goal_cases)
    case 1
    show ?case
      by (rule triple_weaken [OF Cons.IH]) (assumption, assumption, erule safe_mono, blast)
  qed
qed

end
