(* ===== verification/Image_Apart.thy ===== *)
theory Image_Apart
  imports Daemon_Seeder
begin

text \<open>
  What a request about one image does to another: nothing, when neither directory is inside the other.
  The layout's calls on an image leave everything outside its directory as it was; with the engine's
  frames this carries the invariant of an image through the handlers' work on other images.
\<close>

section \<open>Two directories\<close>

definition apart :: "string \<Rightarrow> string \<Rightarrow> bool" where
  "apart p q \<longleftrightarrow> \<not> prefix (comps p) (comps q) \<and> \<not> prefix (comps q) (comps p)"

definition outside :: "string \<Rightarrow> string list set" where
  "outside p = {k. \<not> prefix (comps p) k}"

lemma apart_below: "apart p q \<Longrightarrow> prefix (comps q) k \<Longrightarrow> k \<in> outside p"
  unfolding apart_def outside_def using prefix_same_cases by blast

lemma apart_above: "apart p q \<Longrightarrow> prefix k (comps q) \<Longrightarrow> k \<in> outside p"
  unfolding apart_def outside_def using prefix_order.trans by blast

text \<open>The directory of a clean path leads to it.\<close>

lemma prefix_comps_Dir:
  assumes "q \<noteq> []" "Clean q = q"
  shows "prefix (comps (filepath_Dir q)) (comps q)"
proof -
  define x where "x = rev (takeWhile (\<lambda>c. c \<noteq> slash) (rev q))"
  define r where "r = rev (dropWhile (\<lambda>c. c \<noteq> slash) (rev q))"
  have q: "q = r @ x" unfolding r_def x_def by (metis rev_append rev_rev_ident takeWhile_dropWhile_id)
  have D: "filepath_Dir q = Clean r" by (simp add: filepath_Dir_def r_def)
  have x: "slash \<notin> set x" by (auto simp: x_def dest: set_takeWhileD)
  show ?thesis
  proof (cases "r = []")
    case True
    then show ?thesis by (simp add: D Clean_def comps_def rooted_def)
  next
    case False
    then have "hd (dropWhile (\<lambda>c. c \<noteq> slash) (rev q)) = slash"
      using hd_dropWhile [of "\<lambda>c. c \<noteq> slash" "rev q"] by (simp add: r_def)
    then have "last r = slash" by (simp add: r_def last_rev)
    then obtain r' where r': "r = r' @ [slash]" using False by (metis append_butlast_last_id)
    let ?us = "split_on slash r'" and ?R = "rooted q" and ?f = "filter (\<lambda>c. c \<noteq> [] \<and> c \<noteq> ''.'')"
    have R: "rooted r = ?R" using False by (simp add: q)
    have sq: "split_on slash q = ?us @ [x]" and sr: "split_on slash r = ?us @ [[]]"
      using split_on_append_sep [of slash r' x] split_on_append_sep [of slash r' "[]"] by (simp_all add: q r' split_on_no_sep [OF x])
    have dir: "comps (filepath_Dir q) = (if ?R then [[]] else []) @ clean_elems ?R [] ?us"
      using comps_Clean [OF False] by (simp add: D R sr clean_elems_append)
    have up: "comps q = (if ?R then [[]] else []) @ clean_elems ?R [] (?us @ [x])"
      using comps_Clean [OF assms(1)] by (simp add: assms(2) sq)
    moreover have "comps q = (if ?R then [[]] else []) @ ?f (?us @ [x])" by (simp only: comps_def sq)
    ultimately have el: "clean_elems ?R [] (?us @ [x]) = ?f (?us @ [x])" by (metis same_append_eq)
    have "prefix (clean_elems ?R [] ?us) (clean_elems ?R [] (?us @ [x]))"
    proof (cases "x = ''..''")
      case False
      then show ?thesis by (simp add: clean_elems_append)
    next
      case True
      let ?st = "clean_elems ?R [] ?us"
      have e: "clean_elems ?R (rev ?st) [''..''] = ?f ?us @ [''..'']" using el True by (simp add: clean_elems_append)
      have len: "length ?st \<le> length (?f ?us)" using clean_elems_length [of ?R "[]" ?us] by simp
      show ?thesis
      proof (cases "rev ?st")
        case Nil
        then show ?thesis by simp
      next
        case (Cons t ts)
        have "t = ''..''"
        proof (rule ccontr)
          assume "t \<noteq> ''..''"
          then have "rev ts = ?f ?us @ [''..'']" using e Cons by simp
          then have "length ts = Suc (length (?f ?us))" by (metis length_append_singleton length_rev)
          moreover have "length ?st = Suc (length ts)" using Cons by (metis length_Cons length_rev)
          ultimately show False using len by simp
        qed
        then show ?thesis using Cons True by (simp add: clean_elems_append)
      qed
    qed
    then show ?thesis unfolding dir up by simp
  qed
qed

section \<open>The layout's calls on another image\<close>

abbreviation far :: "string \<Rightarrow> (string list \<Rightarrow> bytes option option) \<Rightarrow> 'z fs_scheme \<Rightarrow> bool" where
  "far p \<equiv> others (outside p)"

lemma agree_wide: "agree T V s \<Longrightarrow> prefix P T \<Longrightarrow> agree P V s"
  unfolding agree_def using prefix_order.trans by blast

lemma agree_upd: "fs_st c (V(k := x)) s \<Longrightarrow> prefix P k \<Longrightarrow> agree P V s"
  by (auto simp: fs_st_def agree_def simp del: view_simps)

lemma keeps_far:
  fixes m :: "('z fs_scheme, 'v) call"
  assumes q: "apart p q" and one: "keeps one_name m"
    and m: "\<And>s r t. wf_fs s \<Longrightarrow> m s = (r, t) \<Longrightarrow> agree (comps q) (view s) t"
  shows "keeps (far p V) m"
proof (rule keepsI)
  fix s :: "'z fs_scheme" assume s: "far p V s"
  then have one': "one_name (snd (m s))" by (intro keepsD [OF one]) (simp add: others_def)
  have "agree (comps q) (view s) (snd (m s))" by (rule m [OF one_name_wf surjective_pairing]) (use s in \<open>simp add: others_def\<close>)
  then show "far p V (snd (m s))"
    using s one' apart_below [OF q] by (simp add: others_def agree_def del: view_simps) metis
qed

lemma far_PutBlob:
  assumes "apart p q" "session sha q e"
  shows "keeps (far p V :: 'z bt_scheme \<Rightarrow> bool) (PutBlob sha e rd)"
proof (rule keeps_far [OF assms(1) copies.layout(2)])
  fix s t :: "'z bt_scheme" and r
  assume s: "wf_fs s" and call: "PutBlob sha e rd s = (r, t)"
  have le: "layout_ok e" "sha_ok sha" "l_path e = q" using assms(2) by (auto simp: session_def)
  have st: "fs_st False (view s) s" using s by (simp add: fs_st_def)
  note tr = PutBlob_triple [OF le(1,2), where c = False and V = "view s" and d = "fst rd" and err = "snd rd", simplified]
  obtain sfx where T: "comps (l_temp e) = comps q @ [''tmp-'' @ sfx]" using le by (auto simp: layout_ok_def)
  show "agree (comps q) (view s) t"
  proof (cases r)
    case (Inl x)
    then show ?thesis using tripleD_Inl [OF tr st] call by (auto intro: agree_wide simp: T)
  next
    case (Inr y)
    then show ?thesis
      using tripleD_Inr [OF tr st] call by (cases y) (auto intro!: agree_upd simp: le(3) blob_file_def)
  qed
qed

lemma far_PutReference:
  assumes "apart p q" "session sha q e" "name_ok n" "dec_ok dec"
  shows "keeps (far p V :: 'z bt_scheme \<Rightarrow> bool) (PutReference enc dec e n v)"
proof (rule keeps_far [OF assms(1) copies.layout(8)])
  fix s t :: "'z bt_scheme" and r
  assume s: "wf_fs s" and call: "PutReference enc dec e n v s = (r, t)"
  have le: "layout_ok e" "l_path e = q" using assms(2) by (auto simp: session_def)
  have st: "fs_st False (view s) s" using s by (simp add: fs_st_def)
  note tr = PutReference_triple [OF le(1) assms(3,4), where c = False and V = "view s" and enc = enc and d = v, simplified]
  obtain sfx where T: "comps (l_temp e) = comps q @ [''tmp-'' @ sfx]" using le by (auto simp: layout_ok_def)
  show "agree (comps q) (view s) t"
  proof (cases r)
    case (Inl x)
    then show ?thesis using tripleD_Inl [OF tr st] call by (auto intro: agree_wide simp: T)
  next
    case (Inr y)
    then show ?thesis
      using tripleD_Inr [OF tr st] call agree_upd [of False "view s" "ref_file q n" _ t "comps q"]
      by (auto intro: fs_st_agree simp: le(2) ref_file_def)
  qed
qed

lemma far_Close:
  assumes "apart p q" "session sha q e"
  shows "keeps (far p V :: 'z bt_scheme \<Rightarrow> bool) (Close e)"
proof (rule keeps_far [OF assms(1) copies.layout(6)])
  fix s t :: "'z bt_scheme" and r
  assume s: "wf_fs s" and call: "Close e s = (r, t)"
  have le: "layout_ok e" "l_path e = q" using assms(2) by (auto simp: session_def)
  obtain sfx where T: "comps (l_temp e) = comps q @ [''tmp-'' @ sfx]" using le by (auto simp: layout_ok_def)
  have "agree (comps (l_temp e)) (view s) s" using s by (simp add: agree_def)
  then have "agree (comps (l_temp e)) (view s) (snd (Close e s))"
    unfolding Close_def
    by (rule triple_snd [rotated]) (rule triple_weaken [OF os_RemoveAll_triple [OF layout_paths(7) [OF le(1)]]], auto)
  then show "agree (comps q) (view s) t" using call by (auto intro: agree_wide simp: T)
qed

lemma others_mkdir:
  assumes A: "ps \<in> A"
  shows "keeps (others A V) (syscall (k_mkdir ps))"
proof (rule keepsI)
  fix s :: "'a fs_scheme" assume s: "others A V s"
  then have "one_name (snd (syscall (k_mkdir ps) s))" by (intro keepsD [OF one_name_mkdir]) (simp add: others_def)
  moreover have "view (snd (k_mkdir ps u)) k = view u k" if "wf_fs u" "k \<noteq> ps" for u :: "'a fs_scheme" and k
  proof (cases "k_mkdir ps u")
    case (Pair r t)
    then show ?thesis
      using that k_mkdir_Inr(2) [OF that(1)] by (cases r) (auto dest: k_mkdir_Inl simp del: view_simps)
  qed
  then have "view (snd (syscall (k_mkdir ps) s)) k = view s k" if "k \<noteq> ps" for k
    using that s by (auto simp: syscall_def others_def one_name_wf simp del: view_simps split: list.splits option.splits)
  ultimately show "others A V (snd (syscall (k_mkdir ps) s))"
    using s A by (simp add: others_def del: view_simps) metis
qed

lemma others_mkdirAll: "(\<And>k. prefix k (rev cs) \<Longrightarrow> k \<in> A) \<Longrightarrow> keeps (others A V :: 'z fs_scheme \<Rightarrow> bool) (mkdirAll cs)"
proof (induction cs)
  case (Cons c cs)
  have "keeps (others A V :: 'z fs_scheme \<Rightarrow> bool) (mkdirAll cs)" by (rule Cons.IH) (use Cons.prems in force)
  moreover have "rev (c # cs) \<in> A" by (rule Cons.prems) simp
  ultimately show ?case by (auto intro!: keep others_mkdir split: node.splits)
qed (simp add: keeps_simple)

lemma others_put_file: "comps f \<in> A \<Longrightarrow> keeps (others A V) (bindE (os_Create f) (\<lambda>fh. file_Write fh bs))"
  by (rule triple_bind [OF others_create], assumption, rule triple_weaken [OF opened_write]) (auto simp: opened_def)

lemma far_initialize:
  assumes q: "apart p (l_path e)" and P: "image_paths (l_path e)"
  shows "keeps (far p V) (initialize e)"
proof -
  have "prefix k (comps (l_path e)) \<Longrightarrow> k \<in> outside p" for k by (rule apart_above [OF q])
  then have "keeps (far p V) (os_MkdirAll (filepath_Dir (l_path e)))"
    unfolding os_MkdirAll_def using prefix_comps_Dir [of "l_path e"] P
    by (intro others_mkdirAll) (auto simp: image_paths_def intro: prefix_order.trans)
  moreover have "prefix (comps (l_path e)) k \<Longrightarrow> k \<in> outside p" for k by (rule apart_below [OF q])
  ultimately show ?thesis
    unfolding initialize_def Let_def os_Mkdir_def
    by (intro keep others_mkdir others_put_file) (simp_all add: image_join P)
qed

lemma far_Open:
  assumes q: "apart p q" and P: "image_paths q"
  shows "triple (far p V :: 'z bt_scheme \<Rightarrow> bool) (Open q) (\<lambda>e s. (l_path e = q \<and> layout_ok e) \<and> far p V s) (\<lambda>_. far p V)"
proof -
  have ini: "keeps (far p V :: 'z bt_scheme \<Rightarrow> bool) (initialize \<lparr>l_path = q, l_temp = []\<rparr>)"
    by (rule far_initialize) (simp_all add: q P)
  have pre: "temp_prefix ''tmp-''" "q \<noteq> []" "Clean q = q" using P by (auto simp: temp_prefix_def image_paths_def)
  note tr = ioutil_TempDir_triple [OF pre(1,2), where c = False, simplified, unfolded pre(3)]
  have "keeps (far p V :: 'z bt_scheme \<Rightarrow> bool) (ioutil_TempDir q ''tmp-'')"
  proof (rule keeps_far [OF q copies.dirs(4)])
    fix s t :: "'z bt_scheme" and r
    assume s: "wf_fs s" and call: "ioutil_TempDir q ''tmp-'' s = (r, t)"
    have st: "fs_st False (view s) s" using s by (simp add: fs_st_def)
    show "agree (comps q) (view s) t"
      using tripleD_Inr [OF tr [where V = "view s"] st] tripleD_Inl [OF tr [where V = "view s"] st] call
      by (cases r) (auto intro: fs_st_agree agree_upd)
  qed
  moreover have "triple (far p V :: 'z bt_scheme \<Rightarrow> bool) (ioutil_TempDir q ''tmp-'')
      (\<lambda>nm _. (\<exists>sfx. comps nm = comps q @ [''tmp-'' @ sfx]) \<and> Clean nm = nm) (\<lambda>_ _. True)"
  proof (rule tripleI)
    fix s :: "'z bt_scheme" assume "far p V s"
    then have st: "fs_st False (view s) s" by (simp add: fs_st_def others_def one_name_wf)
    show "case ioutil_TempDir q ''tmp-'' s of (Inl e, t) \<Rightarrow> True
        | (Inr nm, t) \<Rightarrow> (\<exists>sfx. comps nm = comps q @ [''tmp-'' @ sfx]) \<and> Clean nm = nm"
      using tripleD_Inr [OF tr st] by (auto split: prod.splits sum.splits)
  qed
  ultimately have tmp: "triple (far p V :: 'z bt_scheme \<Rightarrow> bool) (ioutil_TempDir q ''tmp-'')
      (\<lambda>nm s. ((\<exists>sfx. comps nm = comps q @ [''tmp-'' @ sfx]) \<and> Clean nm = nm) \<and> far p V s) (\<lambda>_. far p V)"
    by (fastforce simp: triple_def split: prod.splits sum.splits)
  show ?thesis
    unfolding Open_def newDirLayout_def Let_def dirLayout.select_convs
    by (intro triple_then [OF ini] triple_bind [OF tmp] triple_return)
      (use pre(2,3) in \<open>auto simp: layout_ok_def\<close>)
qed

section \<open>The invariant of an image under the work on another\<close>

lemma far_safe:
  fixes m :: "('z bt_scheme, 'v) call"
  assumes "\<And>V. triple (far p V) m (\<lambda>x s. Q x \<and> far p V s) (\<lambda>_. far p V)"
  shows "triple (safe_image sha p K) m (\<lambda>x s. Q x \<and> safe_image sha p K s) (\<lambda>_. safe_image sha p K)"
proof (rule tripleI)
  fix s :: "'z bt_scheme" assume s: "safe_image sha p K s"
  then have i: "far p (view s) s" by (simp add: safe_image_def others_def)
  have new: "safe_image sha p K t" if "far p (view s) t" for t :: "'z bt_scheme"
    using s that image_at_same [of sha p K s t]
    by (auto simp: safe_image_def others_def outside_def one_name_wf simp del: view_simps)
  show "case m s of (Inl e, t) \<Rightarrow> safe_image sha p K t | (Inr x, t) \<Rightarrow> Q x \<and> safe_image sha p K t"
    using tripleD_Inr [OF assms i] tripleD_Inl [OF assms i] new by (auto split: prod.splits sum.splits)
qed

lemma far_keeps_safe:
  fixes m :: "('z bt_scheme, 'v) call"
  shows "(\<And>V. keeps (far p V) m) \<Longrightarrow> keeps (safe_image sha p K) m"
  by (rule far_safe [where Q = "\<lambda>_. True", simplified])

lemma safe_both:
  fixes m :: "('z bt_scheme, 'v) call"
  shows "keeps (image_at sha p K) m \<Longrightarrow> keeps one_name m \<Longrightarrow> keeps (safe_image sha p K) m"
  by (rule keepsI) (auto simp: safe_image_def dest: keepsD)

abbreviation safe_st :: "(bytes \<Rightarrow> bytes) \<Rightarrow> string \<Rightarrow> pin set \<Rightarrow> 'z bt_scheme \<Rightarrow> bool" where
  "safe_st \<equiv> safe_image"

text \<open>An open image that is not \<open>p\<close>.\<close>

definition visiting :: "(bytes \<Rightarrow> bytes) \<Rightarrow> string \<Rightarrow> OciImage \<Rightarrow> bool" where
  "visiting sha p i \<longleftrightarrow> (\<exists>q. apart p q \<and> session sha q (oi_layout i)) \<and> name_ok (oi_ref i)"

lemma safe_newOciImage:
  assumes sha: "sha_ok sha"
  shows "(\<And>q tag. buildOciDestFromReference root r = Inr (q, tag) \<Longrightarrow> apart p q \<and> name_ok tag) \<Longrightarrow>
      triple (safe_st sha p K) (newOciImage root r) (\<lambda>i s. visiting sha p i \<and> safe_st sha p K s) (\<lambda>_. safe_st sha p K)"
    and "(\<And>q tag. buildOciDestSimple root r' = Inr (q, tag) \<Longrightarrow> apart p q \<and> name_ok tag) \<Longrightarrow>
      triple (safe_st sha p K) (newOciImageSimple root r') (\<lambda>i s. visiting sha p i \<and> safe_st sha p K s) (\<lambda>_. safe_st sha p K)"
proof -
  have open_at: "triple (safe_st sha p K) (bindE (liftE dest) (\<lambda>(repoDir, refTag).
       bindE (Open repoDir) (\<lambda>layout. returnE \<lparr>oi_path = repoDir, oi_ref = refTag, oi_layout = layout\<rparr>)))
       (\<lambda>i s. visiting sha p i \<and> safe_st sha p K s) (\<lambda>_. safe_st sha p K)"
    if a: "\<And>q tag. dest = Inr (q, tag) \<Longrightarrow> apart p q \<and> name_ok tag \<and> image_paths q" for dest
  proof (cases dest)
    case (Inl x)
    then show ?thesis by (simp add: triple_def bindE_def liftE_def)
  next
    case (Inr y)
    obtain q tag where y: "y = (q, tag)" by (cases y)
    then have q: "apart p q" "name_ok tag" "image_paths q" using a Inr by blast+
    show ?thesis
      unfolding Inr y bindE_lift prod.case
      by (rule triple_bind [OF far_safe [OF far_Open [OF q(1,3)]]])
        (use q sha in \<open>auto intro!: triple_return simp: visiting_def session_def\<close>)
  qed
  show "(\<And>q tag. buildOciDestFromReference root r = Inr (q, tag) \<Longrightarrow> apart p q \<and> name_ok tag) \<Longrightarrow>
      triple (safe_st sha p K) (newOciImage root r) (\<lambda>i s. visiting sha p i \<and> safe_st sha p K s) (\<lambda>_. safe_st sha p K)"
    unfolding newOciImage_def using dest_paths(1) by (intro open_at) blast
  show "(\<And>q tag. buildOciDestSimple root r' = Inr (q, tag) \<Longrightarrow> apart p q \<and> name_ok tag) \<Longrightarrow>
      triple (safe_st sha p K) (newOciImageSimple root r') (\<lambda>i s. visiting sha p i \<and> safe_st sha p K s) (\<lambda>_. safe_st sha p K)"
    unfolding newOciImageSimple_def using dest_paths(2) by (intro open_at) blast
qed

lemma safe_reads:
  "keeps (safe_st sha p K) (Exist e d)" "keeps (safe_st sha p K) (os_Open f)" "keeps (safe_st sha p K) (file_reader n)"
  "keeps (safe_st sha p K) (getOciImageLayers L i)"
  by (intro safe_both keep copies.layout copies.sys copies.reader copies.images)+

lemma safe_writes:
  assumes "visiting sha p i"
  shows "keeps (safe_st sha p K) (PutBlob sha (oi_layout i) rd)"
    "dec_ok dec \<Longrightarrow> keeps (safe_st sha p K) (PutReference enc dec (oi_layout i) (oi_ref i) v)"
    "keeps (safe_st sha p K) (OciImage_Close i)"
  using assms unfolding visiting_def OciImage_Close_def
  by (auto intro: far_keeps_safe far_PutBlob far_PutReference far_Close)

lemma safe_manifest:
  assumes "visiting (lib_sha L) p i" "dec_ok (desc_dec L)"
  shows "keeps (safe_st (lib_sha L) p K) (putManifest L i raw)" "keeps (safe_st (lib_sha L) p K) (pull_config L i img)"
  unfolding putManifest_def pull_config_def Let_def by (intro keep safe_writes assms)+

lemma safe_engine:
  "lasting K \<Longrightarrow> keeps (safe_st sha p K) (stop_layers clean ls)" "keeps (safe_st sha p K) (layer_status l)"
  "keeps (safe_st sha p K) (daemon_GetTorrent L idn)"
proof -
  have "keeps one_name (daemon_GetTorrent L idn)"
    unfolding daemon_GetTorrent_def engine_GetTorrent_def by (intro copies.guard keep copies.lookup)
  then show "keeps (safe_st sha p K) (daemon_GetTorrent L idn)" by (rule safe_both [OF image_GetTorrent])
  have "keeps one_name (stop_layers clean ls)" by (induction ls) (auto intro!: keep copies.stopping copies.torrents)
  then show "lasting K \<Longrightarrow> keeps (safe_st sha p K) (stop_layers clean ls)" by (intro safe_both image_stop_layers)
  have "keeps one_name (layer_status l)" unfolding layer_status_def by (intro keep copies.reporting)
  then show "keeps (safe_st sha p K) (layer_status l)" by (rule safe_both [OF image_layer_status])
qed

section \<open>Requests about other images\<close>

definition elsewhere :: "Config \<Rightarrow> libs \<Rightarrow> string \<Rightarrow> string \<Rightarrow> bool" where
  "elsewhere cfg L p source \<longleftrightarrow>
     (\<forall>r q tag. ParseImageName L source = Inr r \<longrightarrow> buildOciDestFromReference (c_Root cfg) r = Inr (q, tag) \<longrightarrow>
        apart p q \<and> name_ok tag) \<and>
     (\<forall>r q tag. buildNamedTagged source = Inr r \<longrightarrow> buildOciDestSimple (c_Root cfg) r = Inr (q, tag) \<longrightarrow>
        apart p q \<and> name_ok tag)"

lemma safe_with_image:
  assumes "elsewhere cfg L p source" "sha_ok sha" "\<And>i. keeps (safe_st sha p K) (body i)"
  shows "keeps (safe_st sha p K) (with_image cfg source body)"
proof -
  have "keeps (safe_st sha p K) (bindE (newOciImageSimple (c_Root cfg) r) (\<lambda>i. deferE (OciImage_Close i) (body i)))"
    if "buildNamedTagged source = Inr r" for r
    by (rule triple_bind [OF safe_newOciImage(2) [OF assms(2)]])
      (use assms(1) that in \<open>auto simp: elsewhere_def intro!: triple_assume keeps_defer assms(3) safe_writes\<close>)
  then show ?thesis
    unfolding with_image_def by (cases "buildNamedTagged source") (auto intro: keeps_simple)
qed

lemma safe_leech_layers:
  fixes env :: "'z bt_scheme \<Rightarrow> 'z bt_scheme"
  assumes i: "visiting (lib_sha L) p i" and env: "untouched p env" "\<And>u. one_name u \<Longrightarrow> one_name (env u)"
    and cfg: "\<not> c_UseHardlink cfg"
  shows "keeps (safe_st (lib_sha L) p K) (leech_layers cfg L env fuel reporting i ls)"
proof -
  have off: "c_UseHardlink cfg = False" using cfg by simp
  have "keeps (safe_st (lib_sha L) p K) (StartLeecher c env fuel idn t reporting)" for c idn t
    by (rule safe_both [OF image_StartLeecher [OF env(1)] copies.leeching [OF env(2)]])
  then have "keeps (safe_st (lib_sha L) p K) (startLeechingLayer cfg L env fuel reporting i l)" for l
    unfolding startLeechingLayer_def off if_False by (intro keep safe_reads safe_writes i)
  then show ?thesis by (induction ls) (auto intro!: keep safe_reads)
qed

text \<open>Seeding a layer that has been copied writes the two files of its ID, wherever the engine is.\<close>

definition files_of :: "string \<Rightarrow> string list set" where
  "files_of h = range (\<lambda>R. layer_file R h) \<union> torrent_files h"

lemma opened_file_reader: "keeps (opened A V k i d) (file_reader n)"
  by (rule keepsI) (auto simp: file_reader_def others_faults split: node.splits list.splits option.splits)

lemma others_seeding_layer:
  assumes h: "name_ok h" and cfg: "\<not> c_UseHardlink cfg"
  shows "keeps (others (files_of h) V :: 'z bt_scheme \<Rightarrow> bool) (startSeedingLayer cfg L i (digest_of h))"
proof -
  let ?A = "files_of h"
  have off: "c_UseHardlink cfg = False" using cfg by simp
  have hex: "Digest_Hex (digest_of h) = Inr h" by (simp add: Digest_Hex_def BlobAlgorithm_def)
  have fn: "comps (GetFilePath e h) \<in> ?A" for e using engine_files(1) [OF h] by (auto simp: files_of_def)
  have seed: "keeps (others ?A V :: 'z bt_scheme \<Rightarrow> bool) (StartSeed (lib_torrent L) h)"
    by (rule others_StartSeed [OF h]) (simp add: files_of_def)
  have weak: "opened ?A V k j d s \<Longrightarrow> others ?A V s" for k j d and s :: "'z bt_scheme" by (simp add: opened_def)
  have copy: "keeps (others ?A V :: 'z bt_scheme \<Rightarrow> bool) (bindE (wrapE w1 (os_Create f)) (\<lambda>layerFile.
          bindE (wrapE w2 (GetBlob (oi_layout i) (digest_of h))) (\<lambda>srcFile.
          bindE (file_reader srcFile) (\<lambda>rd. wrapE w3 (io_Copy layerFile rd)))))" if "comps f \<in> ?A" for f w1 w2 w3
  proof (rule triple_bind [OF triple_wrap [OF others_create [OF that]]])
    fix j
    have "triple (opened ?A V (comps f) j []) (io_Copy j rd) (\<lambda>_. others ?A V) (\<lambda>_. others ?A V :: 'z bt_scheme \<Rightarrow> bool)" for rd
      unfolding io_Copy_def
      by (rule triple_then [OF opened_write]) (auto split: option.split intro!: triple_return triple_throw intro: weak)
    then show "triple (opened ?A V (comps f) j []) (bindE (wrapE w2 (GetBlob (oi_layout i) (digest_of h))) (\<lambda>srcFile.
          bindE (file_reader srcFile) (\<lambda>rd. wrapE w3 (io_Copy j rd)))) (\<lambda>_. others ?A V) (\<lambda>_. others ?A V :: 'z bt_scheme \<Rightarrow> bool)"
      by (intro triple_bind [where M = "\<lambda>_. opened ?A V (comps f) j []"] triple_wrap
          triple_weaken [OF opened_GetBlob] triple_weaken [OF opened_file_reader]) (auto intro: weak)
  qed
  show ?thesis
    unfolding startSeedingLayer_def hex bindE_lift off if_False
    by (intro keeps_get_bind keeps_bind copy fn keeps_catch seed keeps_simple)
qed

lemma safe_seeding_layer:
  assumes "name_ok h" "\<not> c_UseHardlink cfg"
  shows "keeps (safe_st sha p K) (startSeedingLayer cfg L i (digest_of h))"
proof (rule keepsI)
  fix s :: "'a bt_scheme" assume s: "safe_st sha p K s"
  let ?t = "snd (startSeedingLayer cfg L i (digest_of h) s)"
  have o: "others (files_of h) (view s) ?t"
    by (rule keepsD [OF others_seeding_layer [OF assms]]) (use s in \<open>simp add: safe_image_def others_def\<close>)
  have "image_at sha p K s" using s by (simp add: safe_image_def)
  from this o have "image_at sha p K ?t" by (rule others_image) (auto simp: files_of_def layer_file_apart(3-5) [THEN not_sym])
  then show "safe_st sha p K ?t" using o by (simp add: safe_image_def others_def)
qed

text \<open>A layer that has been copied has the digest of what was copied.\<close>

lemma safe_copyLayer:
  assumes i: "visiting (lib_sha L) p i"
  shows "triple (safe_st (lib_sha L) p K :: 'z bt_scheme \<Rightarrow> bool) (copyLayer L i src l)
     (\<lambda>_ s. (\<exists>h. name_ok h \<and> bi_Digest l = digest_of h) \<and> safe_st (lib_sha L) p K s) (\<lambda>_. safe_st (lib_sha L) p K)"
proof -
  have le: "layout_ok (oi_layout i)" and sha: "sha_ok (lib_sha L)" using i by (auto simp: visiting_def session_def)
  have put: "triple (safe_st (lib_sha L) p K :: 'z bt_scheme \<Rightarrow> bool) (PutBlob (lib_sha L) (oi_layout i) rd)
      (\<lambda>(dg, n) s. dg = blob_digest (lib_sha L) (fst rd) \<and> safe_st (lib_sha L) p K s) (\<lambda>_. safe_st (lib_sha L) p K)" for rd
  proof (rule tripleI)
    fix s :: "'z bt_scheme" assume s: "safe_st (lib_sha L) p K s"
    then have st: "fs_st False (view s) s" by (simp add: fs_st_def safe_image_def one_name_wf)
    note tr = PutBlob_triple [OF le sha, where c = False and V = "view s" and d = "fst rd" and err = "snd rd", simplified]
    have "safe_st (lib_sha L) p K (snd (PutBlob (lib_sha L) (oi_layout i) rd s))"
      by (rule keepsD [OF safe_writes(1) [OF i] s])
    then show "case PutBlob (lib_sha L) (oi_layout i) rd s of (Inl e, t) \<Rightarrow> safe_st (lib_sha L) p K t
        | (Inr y, t) \<Rightarrow> (case y of (dg, n) \<Rightarrow> \<lambda>s. dg = blob_digest (lib_sha L) (fst rd) \<and> safe_st (lib_sha L) p K s) t"
      using tripleD_Inr [OF tr st] by (auto split: prod.splits sum.splits)
  qed
  have ok: "name_ok (hex_encode (lib_sha L d))" for d by (rule name_ok_sha [OF sha])
  show ?thesis
    unfolding copyLayer_def
  proof (rule triple_bind [where M = "\<lambda>_. safe_st (lib_sha L) p K"], goal_cases)
    case 1
    show ?case by (rule triple_lift) auto
  next
    case (2 rd)
    show ?case
    proof (rule triple_bind [OF triple_wrap [OF put]], goal_cases)
      case (1 y)
      show ?case by (cases y, simp only: prod.case, intro triple_if triple_throw triple_return)
          (use ok [of "fst rd"] in \<open>auto simp: blob_digest_def dest: sym\<close>)
    qed
  qed
qed

lemma safe_seed_layer:
  assumes i: "visiting (lib_sha L) p i" and cfg: "\<not> c_UseHardlink cfg"
  shows "keeps (safe_st (lib_sha L) p K) (seed_layer cfg L i src l)"
proof -
  have "triple (\<lambda>s. (\<exists>h. name_ok h \<and> bi_Digest l = digest_of h) \<and> safe_st (lib_sha L) p K s)
      (startSeedingLayer cfg L i (bi_Digest l)) (\<lambda>_. safe_st (lib_sha L) p K) (\<lambda>_. safe_st (lib_sha L) p K)"
    by (rule triple_assume) (auto simp: safe_seeding_layer cfg)
  then have "keeps (safe_st (lib_sha L) p K) (bindE (copyLayer L i src l) (\<lambda>_. startSeedingLayer cfg L i (bi_Digest l)))"
    by (rule triple_bind [OF safe_copyLayer [OF i]])
  then show ?thesis
    unfolding seed_layer_def by (intro keeps_bind [OF keeps_wrap [OF safe_reads(1)]] keeps_cases keeps_simple)
qed

text \<open>A request about another image keeps the invariant of this one.\<close>

lemma safe_elsewhere:
  fixes env :: "'z bt_scheme \<Rightarrow> 'z bt_scheme"
  assumes "libs_ok L" and cfg: "\<not> c_UseHardlink cfg" and env: "untouched p env" "\<And>u. one_name u \<Longrightarrow> one_name (env u)"
    and K: "lasting K" and q: "\<And>x. source_of q = Some x \<Longrightarrow> elsewhere cfg L p x"
  shows "keeps (safe_st (lib_sha L) p K) (apiServer cfg L commit env fuel q)"
proof -
  let ?I = "safe_st (lib_sha L) p K :: 'z bt_scheme \<Rightarrow> bool"
  have sha: "sha_ok (lib_sha L)" and dec: "dec_ok (desc_dec L)" using assms(1) by (auto simp: libs_ok_def codec_ok_def)
  have opens: "triple ?I (bindE (newOciImage (c_Root cfg) ref) f) Q (\<lambda>_. ?I)"
    if "ParseImageName L x = Inr ref" "elsewhere cfg L p x" "\<And>i. visiting (lib_sha L) p i \<Longrightarrow> triple ?I (f i) Q (\<lambda>_. ?I)"
    for x ref Q and f :: "OciImage \<Rightarrow> ('z bt_scheme, 'v) call"
    by (rule triple_bind [OF safe_newOciImage(1) [OF sha]]) (use that in \<open>auto simp: elsewhere_def intro!: triple_assume\<close>)
  have step: "keeps ?I (bindE (wrapE w (liftE (ParseImageName L x))) f)"
    if "\<And>ref. ParseImageName L x = Inr ref \<Longrightarrow> keeps ?I (f ref)" for x w and f :: "ImageReference \<Rightarrow> ('z bt_scheme, 'v) call"
    using that by (cases "ParseImageName L x") (simp_all add: triple_def bindE_def wrapE_def catchE_def tryE_def run)
  have seeder: "keeps ?I (startSeederDownload cfg L ctx x)" if "elsewhere cfg L p x" for ctx x
    unfolding startSeederDownload_def Let_def
    by (intro keep step opens [OF _ that] keeps_defer keeps_for safe_seed_layer safe_writes cfg)
  have leecher: "keeps ?I (startLeecherDownload cfg L env fuel reporting ctx x)" if "elsewhere cfg L p x" for ctx x reporting
    unfolding startLeecherDownload_def Let_def
    by (intro keep step opens [OF _ that] keeps_deferB safe_leech_layers safe_manifest safe_writes cfg env dec)
  show ?thesis
    unfolding apiServer_def StartDownload_def StopDownload_def daemon_Status_def Let_def using q
    by (cases q) (auto intro!: keep seeder leecher safe_with_image safe_reads safe_engine sha K)
qed

end
