(* ===== verification/Reference_Grammar.thy ===== *)
theory Reference_Grammar
  imports References
begin

text \<open>
  What the grammar of references gives: one reading of each string, references that are printed
  and parsed again, and names whose elements are proper path components.
\<close>

section \<open>Names\<close>

lemmas grammar_defs =
  a_z_def A_Z_def zero_9_def a_z0_9_def a_zA_Z0_9_def alphaNumericRegexp_def separatorRegexp_def nameComponentRegexp_def
  hostnameComponentRegexp_def hostnameRegexp_def TagRegexp_def xdigit_def DigestRegexp_def NameRegexp_def Let_def

lemmas builder_defs = literal_def expression_def optional_def repeated_def

lemma grammar_bytes:
  "\<not> may NameRegexp CHR ''@''" "\<not> may TagRegexp CHR ''@''" "\<not> may DigestRegexp CHR ''@''"
  "\<not> may TagRegexp CHR '':''" "\<not> may TagRegexp CHR ''/''" "\<not> may nameComponentRegexp CHR '':''"
  "\<not> may nameComponentRegexp CHR ''/''" "\<not> may hostnameRegexp CHR ''/''"
  by (simp_all add: grammar_defs)

lemma grammar_first:
  "\<not> first nameComponentRegexp CHR ''.''" "\<not> first hostnameRegexp CHR ''.''" "\<not> first TagRegexp CHR ''.''"
  by (simp_all add: grammar_defs builder_defs)

lemma grammar_nonempty:
  "\<not> accepts nameComponentRegexp []" "\<not> accepts hostnameRegexp []" "\<not> accepts TagRegexp []" "\<not> accepts DigestRegexp []"
  unfolding nullable_iff [symmetric] by (simp_all add: grammar_defs builder_defs)

lemma grammar_lacks:
  "accepts NameRegexp s \<Longrightarrow> CHR ''@'' \<notin> set s" "accepts TagRegexp s \<Longrightarrow> CHR ''@'' \<notin> set s"
  "accepts DigestRegexp s \<Longrightarrow> CHR ''@'' \<notin> set s" "accepts TagRegexp s \<Longrightarrow> CHR '':'' \<notin> set s"
  "accepts TagRegexp s \<Longrightarrow> CHR ''/'' \<notin> set s" "accepts nameComponentRegexp s \<Longrightarrow> CHR '':'' \<notin> set s"
  "accepts nameComponentRegexp s \<Longrightarrow> CHR ''/'' \<notin> set s" "accepts hostnameRegexp s \<Longrightarrow> CHR ''/'' \<notin> set s"
  using grammar_bytes accepts_may by blast+

lemma name_ok_start: "accepts r s \<Longrightarrow> \<not> first r CHR ''.'' \<Longrightarrow> \<not> accepts r [] \<Longrightarrow> slash \<notin> set s \<Longrightarrow> name_ok s"
  by (cases s) (auto simp: name_ok_def dest: accepts_first)

lemma grammar_name_ok:
  "accepts nameComponentRegexp s \<Longrightarrow> name_ok s" "accepts hostnameRegexp s \<Longrightarrow> name_ok s"
  "accepts TagRegexp s \<Longrightarrow> name_ok s"
  using name_ok_start [of nameComponentRegexp s] name_ok_start [of hostnameRegexp s] name_ok_start [of TagRegexp s]
  by (simp_all add: grammar_first grammar_nonempty grammar_lacks)

lemma join_with_Cons: "join_with c (x # xs) = x @ concat (map ((#) c) xs)"
  by (induction xs arbitrary: x) auto

text \<open>A name is components joined with slashes, after a host.\<close>

lemma all_prefixed:
  "(\<forall>u \<in> set us. \<exists>y. u = c # y \<and> P y) \<longleftrightarrow> (\<exists>xs. us = map ((#) c) xs \<and> (\<forall>y \<in> set xs. P y))"
proof (induction us)
  case (Cons u us)
  have "(\<forall>v \<in> set (u # us). \<exists>y. v = c # y \<and> P y) \<longleftrightarrow> (\<exists>y. u = c # y \<and> P y) \<and> (\<exists>xs. us = map ((#) c) xs \<and> (\<forall>y \<in> set xs. P y))"
    using Cons by simp
  then show ?case by (auto simp: Cons_eq_map_conv)
qed simp

lemma accepts_tail:
  "accepts (optional [repeated [literal ''/'', nameComponentRegexp]]) v \<longleftrightarrow>
     (\<exists>xs. v = concat (map ((#) slash) xs) \<and> (\<forall>y \<in> set xs. accepts nameComponentRegexp y))" (is "_ \<longleftrightarrow> ?r")
proof -
  have u: "accepts (expression [literal ''/'', nameComponentRegexp]) u \<longleftrightarrow> (\<exists>y. u = slash # y \<and> accepts nameComponentRegexp y)" for u
    by simp
  have "accepts (optional [repeated [literal ''/'', nameComponentRegexp]]) v \<longleftrightarrow>
      v = [] \<or> (\<exists>us. v = concat us \<and> us \<noteq> [] \<and> (\<forall>u \<in> set us. \<exists>y. u = slash # y \<and> accepts nameComponentRegexp y))"
    using accepts_repeated [of "[literal ''/'', nameComponentRegexp]" v, unfolded u] by (simp del: concat_eq_Nil_conv)
  also have "\<dots> \<longleftrightarrow> ?r"
    unfolding all_prefixed by force
  finally show ?thesis .
qed

lemma accepts_components:
  "accepts (expression [nameComponentRegexp, optional [repeated [literal ''/'', nameComponentRegexp]]]) s \<longleftrightarrow>
     (\<exists>x xs. s = join_with slash (x # xs) \<and> (\<forall>y \<in> set (x # xs). accepts nameComponentRegexp y))"
proof -
  have "accepts (expression [nameComponentRegexp, optional [repeated [literal ''/'', nameComponentRegexp]]]) s \<longleftrightarrow>
      (\<exists>x v. s = x @ v \<and> accepts nameComponentRegexp x \<and> accepts (optional [repeated [literal ''/'', nameComponentRegexp]]) v)"
    by (simp del: accepts_optional)
  then show ?thesis unfolding accepts_tail join_with_Cons by auto
qed

lemma accepts_NameRegexp:
  "accepts NameRegexp n \<longleftrightarrow>
     (\<exists>H x xs. n = H @ join_with slash (x # xs) \<and> (\<forall>y \<in> set (x # xs). accepts nameComponentRegexp y) \<and>
        (H = [] \<or> (\<exists>h. H = h @ [slash] \<and> accepts hostnameRegexp h)))"
proof -
  have "accepts NameRegexp n \<longleftrightarrow> (\<exists>H v. n = H @ v \<and> accepts (optional [hostnameRegexp, literal ''/'']) H \<and>
      accepts (expression [nameComponentRegexp, optional [repeated [literal ''/'', nameComponentRegexp]]]) v)"
    unfolding NameRegexp_def by (simp only: accepts_expression(2))
  then show ?thesis unfolding accepts_components by (simp add: accepts_optional) blast
qed

lemma name_split:
  assumes "accepts NameRegexp n"
  shows "\<exists>x xs. split_on slash n = x # xs \<and> (accepts nameComponentRegexp x \<or> accepts hostnameRegexp x) \<and>
    (\<forall>y \<in> set xs. accepts nameComponentRegexp y)"
proof -
  obtain H y ys where n: "n = H @ join_with slash (y # ys)" "\<forall>z \<in> set (y # ys). accepts nameComponentRegexp z"
      "H = [] \<or> (\<exists>h. H = h @ [slash] \<and> accepts hostnameRegexp h)"
    using assms unfolding accepts_NameRegexp by blast
  have ys: "split_on slash (join_with slash (y # ys)) = y # ys"
    using n(2) by (intro split_on_join) (auto dest: grammar_lacks(7))
  show ?thesis
    using n(3)
  proof (elim disjE exE conjE)
    fix h assume h: "H = h @ [slash]" "accepts hostnameRegexp h"
    then have "split_on slash n = split_on slash h @ split_on slash (join_with slash (y # ys))"
      unfolding n(1) by (simp del: join_with.simps add: split_on_append_sep)
    then show ?thesis using h ys n(2) by (simp add: split_on_no_sep grammar_lacks)
  qed (use n(2) in \<open>simp add: n(1) ys del: join_with.simps\<close>)
qed

lemma name_parts: "accepts NameRegexp n \<Longrightarrow> x \<in> set (split_on slash n) \<Longrightarrow> name_ok x"
  using name_split [of n] grammar_name_ok by (metis set_ConsD)

text \<open>A colon of a name is that of its host's port: a slash comes after it.\<close>

lemma before_lacking: "a @ c # b = H @ J \<Longrightarrow> c \<notin> set J \<Longrightarrow> \<exists>u. H = a @ c # u \<and> b = u @ J"
  by (auto simp: append_eq_append_conv2 Cons_eq_append_conv)

lemma name_colon:
  assumes "accepts NameRegexp (a @ colon # b)"
  shows "slash \<in> set b"
proof -
  obtain H y ys where n: "a @ colon # b = H @ join_with slash (y # ys)"
      "\<forall>z \<in> set (y # ys). accepts nameComponentRegexp z" "H = [] \<or> (\<exists>h. H = h @ [slash] \<and> accepts hostnameRegexp h)"
    using assms unfolding accepts_NameRegexp by blast
  have c: "colon \<notin> set (join_with slash (y # ys))"
    using n(2) grammar_lacks(6) by (auto simp: join_with_Cons simp del: join_with.simps)
  obtain u where "H = a @ colon # u" "b = u @ join_with slash (y # ys)"
    using before_lacking [OF n(1) c] by blast
  with n(3) show ?thesis by (auto simp: append_eq_append_conv2 append_eq_Cons_conv Cons_eq_append_conv simp del: join_with.simps)
qed

section \<open>One reading\<close>

abbreviation opt :: "char \<Rightarrow> string \<Rightarrow> string" where
  "opt c t \<equiv> (if t = [] then [] else c # t)"

lemma splits_iff: "(u, v) \<in> set (splits s) \<longleftrightarrow> s = u @ v"
  by (auto simp: splits_def intro!: image_eqI [of _ _ "length u"])

lemma part_iff: "(t, v) \<in> set (part c r s) \<longleftrightarrow> t = [] \<and> v = s \<or> accepts r t \<and> s = c # t @ v"
  by (auto simp: part_def splits_iff matches_iff split: list.splits)

lemma submatches_iff:
  "(n, t, d) \<in> set (ReferenceRegexp_submatches s) \<longleftrightarrow>
     accepts NameRegexp n \<and> (t = [] \<or> accepts TagRegexp t) \<and> (d = [] \<or> accepts DigestRegexp d) \<and>
     s = n @ opt colon t @ opt CHR ''@'' d"
  by (auto simp: ReferenceRegexp_submatches_def splits_iff part_iff matches_iff grammar_nonempty split: if_splits)

lemma opt_cut: "c \<notin> set u \<Longrightarrow> c \<notin> set u' \<Longrightarrow> u @ opt c d = u' @ opt c d' \<Longrightarrow> u = u' \<and> d = d'"
  by (auto simp: append_eq_append_conv2 append_eq_Cons_conv Cons_eq_append_conv split: if_splits)

lemma tag_cut:
  assumes "accepts NameRegexp n" "accepts NameRegexp n'" "t = [] \<or> accepts TagRegexp t" "t' = [] \<or> accepts TagRegexp t'"
    and "n @ opt colon t = n' @ opt colon t'"
  shows "n = n' \<and> t = t'"
proof -
  have lone: False if "accepts NameRegexp n" "accepts TagRegexp t" "n = n' @ colon # t" for n n' t
    using that name_colon [of n' t] grammar_lacks(5) by blast
  have two: "n = n' \<and> t = t'" if "n @ colon # t = n' @ colon # t'" "accepts TagRegexp t" "accepts TagRegexp t'" for n n' t t'
    using that grammar_lacks(4) [of t] grammar_lacks(4) [of t']
    by (auto simp: append_eq_append_conv2 append_eq_Cons_conv Cons_eq_append_conv)
  show ?thesis
  proof (cases "t = []"; cases "t' = []")
    assume "t = []" "t' \<noteq> []"
    then have "n = n' @ colon # t'" "accepts TagRegexp t'" using assms(4,5) by simp_all
    then show ?thesis using assms(1) lone by blast
  next
    assume "t \<noteq> []" "t' = []"
    then have "n' = n @ colon # t" "accepts TagRegexp t" using assms(3,5) by simp_all
    then show ?thesis using assms(2) lone by blast
  next
    assume "t \<noteq> []" "t' \<noteq> []"
    then show ?thesis using assms two [of n t n' t'] by simp
  qed (use assms in simp)
qed

lemma one_reading:
  assumes "(n, t, d) \<in> set (ReferenceRegexp_submatches s)" "(n', t', d') \<in> set (ReferenceRegexp_submatches s)"
  shows "n' = n \<and> t' = t \<and> d' = d"
proof -
  have "n @ opt colon t = n' @ opt colon t' \<and> d = d'"
    using assms unfolding submatches_iff
    by (intro opt_cut [of "CHR ''@''"]) (auto dest: grammar_lacks)
  then show ?thesis using assms tag_cut unfolding submatches_iff by metis
qed

section \<open>Parsing\<close>

definition valid_digest :: "string \<Rightarrow> bool" where
  "valid_digest d \<longleftrightarrow> matches DigestRegexp d \<and> Digest_Validate d = Inr ()"

definition valid_name :: "string \<Rightarrow> bool" where
  "valid_name n \<longleftrightarrow> matches NameRegexp n \<and> length n \<le> NameTotalLengthMax"

fun valid_reference :: "Reference \<Rightarrow> bool" where
  "valid_reference (reference n t d) \<longleftrightarrow> valid_name n \<and> matches TagRegexp t \<and> valid_digest d"
| "valid_reference (repository n) \<longleftrightarrow> valid_name n"
| "valid_reference (taggedReference n t) \<longleftrightarrow> valid_name n \<and> matches TagRegexp t"
| "valid_reference (canonicalReference n d) \<longleftrightarrow> valid_name n \<and> valid_digest d"
| "valid_reference (digestReference d) \<longleftrightarrow> False"

lemma name_nonempty: "\<not> accepts NameRegexp []"
  using name_parts [of "[]" "[]"] by (auto simp: name_ok_def)

lemma Parse_reading:
  assumes "(n, t, d) \<in> set (ReferenceRegexp_submatches s)"
  shows "Parse s =
    (if length n > NameTotalLengthMax then Inl ErrNameTooLong
     else bindR (if d \<noteq> [] then ParseDigest d else Inr []) (\<lambda>dgst.
       case getBestReferenceType (n, t, dgst) of None \<Rightarrow> Inl ErrNameEmpty | Some r \<Rightarrow> Inr r))"
proof -
  obtain n' t' d' ms where m: "ReferenceRegexp_submatches s = (n', t', d') # ms"
    using assms by (cases "ReferenceRegexp_submatches s") auto
  then have "n' = n \<and> t' = t \<and> d' = d" by (intro one_reading [OF assms]) simp
  with m show ?thesis by (simp add: Parse_def)
qed

lemma ParseDigest_iff: "ParseDigest d = Inr d' \<longleftrightarrow> Digest_Validate d = Inr () \<and> d' = d"
  by (auto simp: ParseDigest_def bindR_Inr)

text \<open>
  The reference of a reading: its string is the text read, and no two readings that are allowed
  give the same one.
\<close>

lemma Parse_some:
  assumes "(n, t, d) \<in> set (ReferenceRegexp_submatches s)"
  shows "Parse s = Inr r \<longleftrightarrow> length n \<le> NameTotalLengthMax \<and> (d = [] \<or> Digest_Validate d = Inr ()) \<and>
    getBestReferenceType (n, t, d) = Some r"
  by (auto simp: Parse_reading [OF assms] bindR_Inr ParseDigest_iff split: option.splits)

lemma Parse_valid:
  assumes "Parse s = Inr r"
  shows "valid_reference r \<and> Reference_String r = s"
proof -
  obtain n t d where m: "(n, t, d) \<in> set (ReferenceRegexp_submatches s)"
    using assms by (cases "ReferenceRegexp_submatches s") (auto simp: Parse_def split: if_splits)
  then show ?thesis
    using assms name_nonempty unfolding Parse_some [OF m] submatches_iff
    by (auto simp: getBestReferenceType_def valid_name_def valid_digest_def matches_iff split: if_splits)
qed

lemma Parse_string:
  assumes "valid_reference r"
  shows "Parse (Reference_String r) = Inr r"
proof -
  let ?n = "the (Reference_Name r)" and ?t = "case Reference_Tag r of None \<Rightarrow> [] | Some t \<Rightarrow> t"
    and ?d = "case Reference_Digest r of None \<Rightarrow> [] | Some d \<Rightarrow> d"
  have "(?n, ?t, ?d) \<in> set (ReferenceRegexp_submatches (Reference_String r))"
    using assms grammar_nonempty unfolding submatches_iff
    by (cases r) (auto simp: valid_name_def valid_digest_def matches_iff)
  moreover have "length ?n \<le> NameTotalLengthMax \<and> (?d = [] \<or> Digest_Validate ?d = Inr ()) \<and>
      getBestReferenceType (?n, ?t, ?d) = Some r"
    using assms name_nonempty grammar_nonempty
    by (cases r) (auto simp: getBestReferenceType_def valid_name_def valid_digest_def matches_iff)
  ultimately show ?thesis using Parse_some by blast
qed

lemma distreference_ParseNamed_eq: "distreference_ParseNamed s = Parse s"
proof (cases "Parse s")
  case (Inr r)
  then have "valid_reference r" using Parse_valid by blast
  then show ?thesis using Inr by (cases r) (simp_all add: distreference_ParseNamed_def)
qed (simp add: distreference_ParseNamed_def)

section \<open>Normalised names\<close>

lemma WithName_valid: "WithName n = Inr r \<Longrightarrow> \<exists>m. r = NamedRef m \<and> normalize n = Inr m \<and> valid_name m"
  by (auto simp: WithName_def bindR_Inr distreference_WithName_def valid_name_def split: if_splits)

text \<open>A reference of \<open>ParseNamed\<close>: the name is one of the grammar, and so are the tag and the digest.\<close>

fun valid_Named :: "Named \<Rightarrow> bool" where
  "valid_Named (NamedRef n) \<longleftrightarrow> valid_name n"
| "valid_Named (TaggedRef n t) \<longleftrightarrow> valid_name n \<and> matches TagRegexp t"
| "valid_Named (CanonicalRef n d) \<longleftrightarrow> valid_name n \<and> valid_digest d"

lemma valid_Named_name: "valid_Named r \<Longrightarrow> accepts NameRegexp (Name r)"
  by (cases r) (simp_all add: valid_name_def matches_iff)

lemma ParseNamed_tagged:
  assumes "valid_name n" "matches TagRegexp t"
  shows "ParseNamed (n @ colon # t) = bindR (WithName n) (\<lambda>r. Inr (TaggedRef (Name r) t))"
  using Parse_string [of "taggedReference n t"] assms
  by (simp add: ParseNamed_def distreference_ParseNamed_eq WithTag_def)

lemma ParseNamed_name:
  assumes "valid_name n"
  shows "ParseNamed n = WithName n"
  using Parse_string [of "repository n"] assms
  by (simp add: ParseNamed_def distreference_ParseNamed_eq) (simp add: bindR_def split: sum.splits)

lemma ParseNamed_digest:
  assumes "valid_name n" "valid_digest d"
  shows "ParseNamed (n @ CHR ''@'' # d) = bindR (WithName n) (\<lambda>r. Inr (CanonicalRef (Name r) d))"
  using Parse_string [of "canonicalReference n d"] assms
  by (simp add: ParseNamed_def distreference_ParseNamed_eq WithDigest_def valid_digest_def)

lemma ParseNamed_valid:
  assumes "ParseNamed s = Inr r"
  shows "valid_Named r"
proof -
  obtain q where q: "Parse s = Inr q"
    using assms by (auto simp: ParseNamed_def distreference_ParseNamed_eq split: sum.splits)
  then have "valid_reference q" using Parse_valid by blast
  then show ?thesis
    using assms q
    by (cases q) (auto simp: ParseNamed_def distreference_ParseNamed_eq bindR_Inr WithTag_def WithDigest_def valid_digest_def
        dest!: WithName_valid split: if_splits)
qed

lemma WithDefaultTag_valid: "valid_Named r \<Longrightarrow> valid_Named (WithDefaultTag r)"
proof -
  have "matches TagRegexp DefaultTag" by code_simp
  then show "valid_Named r \<Longrightarrow> valid_Named (WithDefaultTag r)" by (cases r) (simp_all add: WithDefaultTag_def)
qed

text \<open>The error that \<open>WithDefaultTag\<close> drops does not occur.\<close>

lemma WithDefaultTag_tag: "IsNameOnly r \<Longrightarrow> WithTag r DefaultTag = Inr (WithDefaultTag r)"
proof -
  have "matches TagRegexp DefaultTag" by code_simp
  then show "IsNameOnly r \<Longrightarrow> WithTag r DefaultTag = Inr (WithDefaultTag r)"
    by (cases r) (simp_all add: WithDefaultTag_def WithTag_def)
qed

text \<open>A registry of its own, that is neither the default one nor taken for a part of the path.\<close>

definition registry :: "string \<Rightarrow> bool" where
  "registry h \<longleftrightarrow> slash \<notin> set h \<and> (dot \<in> set h \<or> colon \<in> set h) \<and> h \<notin> {DefaultHostname, LegacyDefaultHostname}"

lemma splitHostname_registry: "registry h \<Longrightarrow> splitHostname (h @ slash # m) = (h, m)"
  using cut_char [of slash h m] by (auto simp: registry_def splitHostname_def Let_def)

lemma in_split_on: "c \<in> set s \<Longrightarrow> c \<noteq> sep \<Longrightarrow> \<exists>x \<in> set (split_on sep s). c \<in> set x"
  by (induction s) (auto split: list.splits)

lemma ToLower_id: "(\<And>c. c \<in> set s \<Longrightarrow> \<not> A_Z c) \<Longrightarrow> ToLower s = s"
  by (auto simp: ToLower_def intro: map_idI)

lemma WithName_registry:
  assumes "registry h" "valid_name (h @ slash # m)"
  shows "WithName (h @ slash # m) = Inr (NamedRef (h @ slash # m))"
proof -
  have h: "slash \<notin> set h" and ne: "h \<noteq> DefaultHostname" using assms(1) by (auto simp: registry_def)
  have "accepts NameRegexp (h @ slash # m)" using assms(2) by (simp add: valid_name_def matches_iff)
  then have m: "accepts nameComponentRegexp y" if "y \<in> set (split_on slash m)" for y
    using that h name_split [of "h @ slash # m"] by (auto simp: split_on_append_sep split_on_no_sep)
  have "\<not> A_Z c" if "c \<in> set m" for c
  proof (cases "c = slash")
    case False
    then obtain x where "x \<in> set (split_on slash m)" "c \<in> set x" using in_split_on [OF \<open>c \<in> set m\<close>] by blast
    then have "may nameComponentRegexp c" using m accepts_may by blast
    then show ?thesis by (auto simp: grammar_defs less_eq_char_def)
  qed (simp add: A_Z_def)
  then have "normalize (h @ slash # m) = Inr (h @ slash # m)"
    using ne by (simp add: normalize_def splitHostname_registry [OF assms(1)] ToLower_id)
  moreover have "\<not> may validHex slash" by (simp add: validHex_def zero_9_def)
  then have "\<not> matches validHex (h @ slash # m)"
    unfolding matches_iff using accepts_may [of validHex "h @ slash # m" slash] by auto
  ultimately show ?thesis
    using assms(2) by (simp add: WithName_def validateName_def validateID_def distreference_WithName_def valid_name_def)
qed

text \<open>What the daemon makes a directory of: the elements of the remote name are proper path components.\<close>

lemma remote_parts:
  assumes "\<And>y. y \<in> set (split_on slash n) \<Longrightarrow> name_ok y" "x \<in> set (split_on slash (snd (splitHostname n)))"
  shows "name_ok x"
proof -
  have lib: "split_on slash (DefaultRepoPrefix @ m) = ''library'' # split_on slash m" for m
    by (simp add: DefaultRepoPrefix_def)
  have l: "name_ok ''library''" by (simp add: name_ok_def)
  show ?thesis
  proof (cases "cut ''/'' n")
    case None
    then show ?thesis using assms l by (auto simp: splitHostname_def Let_def lib split: if_splits)
  next
    case (Some hr)
    then obtain h m where c: "cut ''/'' n = Some (h, m)" by (cases hr) auto
    then have "n = h @ slash # m" by (auto dest: cut_some)
    moreover have "slash \<notin> set h" using c by (rule cut_char_fst)
    ultimately have "split_on slash n = h # split_on slash m" by (simp add: split_on_append_sep split_on_no_sep)
    then show ?thesis using assms l c by (auto simp: splitHostname_def Let_def lib split: if_splits)
  qed
qed

lemma RemoteName_parts: "valid_Named r \<Longrightarrow> x \<in> set (split_on slash (RemoteName r)) \<Longrightarrow> name_ok x"
  unfolding RemoteName_def using name_parts [OF valid_Named_name] remote_parts by blast

end
