(* ===== verification/Image_Names.thy ===== *)
theory Image_Names
  imports Image_Apart Reference_Grammar
begin

text \<open>
  The name of an image from the client's argument to the daemon's directory: the grammar is exact, a
  directory is always below the daemon's, the names of the two kinds of requests agree, and what the
  scheme gets wrong (digests, hosts).
\<close>

section \<open>Names and directories\<close>

lemma WithDefaultTag_simps [simp]:
  "Name (WithDefaultTag r) = Name r" "WithDefaultTag (WithDefaultTag r) = WithDefaultTag r"
  "\<not> IsNameOnly (WithDefaultTag r)" "RemoteName (WithDefaultTag r) = RemoteName r"
  by (cases r; simp add: WithDefaultTag_def RemoteName_def)+

lemma buildNamedTagged_bind: "buildNamedTagged s = bindR (ParseNamed s) (\<lambda>r. Inr (WithDefaultTag r))"
  by (cases "ParseNamed s") (simp_all add: buildNamedTagged_def)

lemma ParseImageName_docker: "ParseImageName L (''docker://'' @ s) = bindR (ParseNamed s) (\<lambda>r. NewReference L (WithDefaultTag r))"
proof -
  have "''docker://'' @ s = ''docker'' @ colon # ''//'' @ s" by simp
  moreover have "cut '':'' (''docker'' @ colon # ''//'' @ s) = Some (''docker'', ''//'' @ s)"
    by (rule cut_char) simp
  ultimately show ?thesis
    by (simp add: ParseImageName_def SplitN2_def docker_ParseReference_def TrimPrefix_def)
qed

lemma NewReference_default:
  "NewReference L (WithDefaultTag r) =
     Inr \<lparr>DockerReference = Some (WithDefaultTag r), NewImage = newImage L (WithDefaultTag r),
          NewImageSource = newImageSource L (WithDefaultTag r)\<rparr>"
  by (simp add: NewReference_def)

lemma docker_dest:
  "bindR (ParseImageName L (''docker://'' @ name)) (buildOciDestFromReference root) =
     bindR (ParseNamed name) (\<lambda>r. buildOciDestSimple root (WithDefaultTag r))"
  unfolding ParseImageName_docker
  by (cases "ParseNamed name") (simp_all add: NewReference_default buildOciDestFromReference_def buildOciDestSimple_def)

lemma simple_dest:
  "bindR (buildNamedTagged name) (buildOciDestSimple root) =
     bindR (ParseNamed name) (\<lambda>r. buildOciDestSimple root (WithDefaultTag r))"
  by (cases "ParseNamed name") (simp_all add: buildNamedTagged_bind)

text \<open>C27. Parsing a reference and printing it are inverse: the parser accepts exactly the strings of the references
  with a valid name, tag and digest, and the reference it gives is the one with that string.\<close>

theorem parse_grammar: "Parse s = Inr r \<longleftrightarrow> valid_reference r \<and> Reference_String r = s"
  using Parse_valid [of s r] Parse_string [of r] by auto

text \<open>C7. A download of \<open>docker://name\<close> and a later request for \<open>name\<close> mean the same image: every name that parses
  for one parses for the other, with the same directory and tag, and the errors and panics are the same too.\<close>

theorem docker_names_agree:
  "bindR (ParseImageName L (''docker://'' @ name)) (buildOciDestFromReference root) =
     bindR (buildNamedTagged name) (buildOciDestSimple root)"
  unfolding docker_dest simple_dest by (rule refl)

lemma dest_name:
  assumes "bindR (ParseNamed name) (\<lambda>r. buildOciDestSimple root (WithDefaultTag r)) = Inr (p, tag)"
  obtains r where "valid_Named r" "Tag r = Inr tag" "p = Join [ociRootDir root, RemoteName r]"
proof -
  obtain r where r: "ParseNamed name = Inr r" "buildOciDestSimple root (WithDefaultTag r) = Inr (p, tag)"
    using assms by (auto simp: bindR_Inr)
  show ?thesis
  proof (rule that [of "WithDefaultTag r"])
    show "valid_Named (WithDefaultTag r)" using r(1) by (intro WithDefaultTag_valid ParseNamed_valid)
  qed (use r(2) in \<open>auto simp: buildOciDestSimple_def map_sum_def split: sum.splits\<close>)
qed

lemma ociRootDir_nonempty: "ociRootDir root \<noteq> []"
  by (cases "root = []") (simp_all add: ociRootDir_def Join_Cons, simp add: Join_def)

lemma dest_comps:
  assumes "valid_Named r"
  shows "comps (Join [ociRootDir root, RemoteName r]) = comps (Clean (ociRootDir root)) @ split_on slash (RemoteName r)"
  using comps_Join_names [OF ociRootDir_nonempty, of "split_on slash (RemoteName r)"] RemoteName_parts [OF assms] by simp

text \<open>C6. No name leaves the daemon's directory: the directory of every image that the API can name is strictly
  below the OCI directory of the daemon, through proper path components only, and the tag is one component.\<close>

theorem image_below_root:
  assumes "bindR (buildNamedTagged name) (buildOciDestSimple root) = Inr (p, tag) \<or>
    bindR (ParseImageName L (''docker://'' @ name)) (buildOciDestFromReference root) = Inr (p, tag)"
  shows "name_ok tag \<and> (\<exists>names. names \<noteq> [] \<and> comps p = comps (ociRootDir root) @ names \<and> list_all name_ok names)"
proof -
  obtain r where r: "valid_Named r" "Tag r = Inr tag" "p = Join [ociRootDir root, RemoteName r]"
    using assms unfolding docker_dest simple_dest by (auto elim: dest_name)
  have "name_ok tag"
    using r(1,2) by (cases r) (auto simp: matches_iff intro: grammar_name_ok)
  moreover have "comps p = comps (Clean (ociRootDir root)) @ split_on slash (RemoteName r)"
    unfolding r(3) by (rule dest_comps [OF r(1)])
  moreover have "Clean (ociRootDir root) = ociRootDir root"
    by (cases "root = []") (simp_all add: ociRootDir_def, code_simp)
  ultimately show ?thesis using RemoteName_parts [OF r(1)] by (auto simp: list_all_iff)
qed

theorem image_below_root_witness:
  "name_ok ''v1'' \<and> (\<exists>names. names \<noteq> [] \<and> comps demo_path = comps (ociRootDir ''root'') @ names \<and> list_all name_ok names)"
  by (rule image_below_root [where name = "''x:v1''" and L = demo_libs]) (simp add: demo_dest)

section \<open>Two images\<close>

text \<open>No name with a transport is a name without one: there is an empty element between two slashes.\<close>

lemma ParseNamed_docker: "\<exists>e. ParseNamed (''docker://'' @ name) = Inl e"
proof (cases "ParseNamed (''docker://'' @ name)")
  case (Inr r)
  let ?s = "''docker:/'' @ slash # name"
  have s: "''docker://'' @ name = ?s" by simp
  obtain q where "Parse ?s = Inr q"
    using Inr unfolding s by (auto simp: ParseNamed_def distreference_ParseNamed_eq split: sum.splits)
  then have q: "valid_reference q" "Reference_String q = ?s" using Parse_valid by blast+
  have "\<not> may DigestRegexp slash" by (simp add: grammar_defs)
  then have d: "accepts DigestRegexp d \<Longrightarrow> slash \<notin> set d" for d using accepts_may by blast
  have "\<exists>n rest. accepts NameRegexp n \<and> slash \<notin> set rest \<and> Reference_String q = n @ rest"
  proof (cases q)
    case (reference n t g)
    then show ?thesis using q(1) d [of g] grammar_lacks(5) [of t]
      by (intro exI [of _ n] exI [of _ "'':'' @ t @ ''@'' @ g"]) (simp add: valid_name_def valid_digest_def matches_iff)
  next
    case (repository n)
    then show ?thesis using q(1) by (intro exI [of _ n] exI [of _ "[]"]) (simp add: valid_name_def matches_iff)
  next
    case (taggedReference n t)
    then show ?thesis using q(1) grammar_lacks(5) [of t]
      by (intro exI [of _ n] exI [of _ "'':'' @ t"]) (simp add: valid_name_def matches_iff)
  next
    case (canonicalReference n g)
    then show ?thesis using q(1) d [of g]
      by (intro exI [of _ n] exI [of _ "''@'' @ g"]) (simp add: valid_name_def valid_digest_def matches_iff)
  qed (use q(1) in simp)
  then have "\<exists>n rest. accepts NameRegexp n \<and> slash \<notin> set rest \<and> ?s = n @ rest" unfolding q(2) .
  then obtain n rest where n: "accepts NameRegexp n" "slash \<notin> set rest" "?s = n @ rest" by blast
  obtain u where "n = ''docker:/'' @ slash # u" using before_lacking [OF n(3,2)] by (elim exE conjE)
  then have "[] \<in> set (split_on slash n)" by simp
  then show ?thesis using name_parts [OF n(1)] by (auto simp: name_ok_def)
qed simp

text \<open>Images whose names are not one inside the other are in directories that are not.\<close>

lemma names_elsewhere:
  assumes p: "valid_Named r0" "p = Join [ociRootDir (c_Root cfg), RemoteName r0]" and name: "ParseNamed name = Inr r"
    and "\<not> prefix (split_on slash (RemoteName r0)) (split_on slash (RemoteName r))"
    and "\<not> prefix (split_on slash (RemoteName r)) (split_on slash (RemoteName r0))"
  shows "elsewhere cfg L p (''docker://'' @ name)"
    and "(\<And>t x. SplitN2 name '':'' = [t, x] \<Longrightarrow> t \<noteq> ''docker'' \<and> transports L t = None) \<Longrightarrow> elsewhere cfg L p name"
proof -
  have "apart p q \<and> name_ok tag"
    if "bindR (ParseNamed name) (\<lambda>r. buildOciDestSimple (c_Root cfg) (WithDefaultTag r)) = Inr (q, tag)" for q tag
  proof -
    have r: "valid_Named r" using name by (rule ParseNamed_valid)
    have q: "q = Join [ociRootDir (c_Root cfg), RemoteName r]" "Tag (WithDefaultTag r) = Inr tag"
      using that name by (auto simp: buildOciDestSimple_def map_sum_def split: sum.splits)
    have "name_ok tag"
      using WithDefaultTag_valid [OF r] q(2) by (cases "WithDefaultTag r") (auto simp: matches_iff intro: grammar_name_ok)
    then show ?thesis using assms(4,5) by (simp add: apart_def p(2) q(1) dest_comps p(1) r)
  qed
  note dest = this
  obtain e where d: "buildNamedTagged (''docker://'' @ name) = Inl e"
    using ParseNamed_docker [of name] by (auto simp: buildNamedTagged_bind)
  show "elsewhere cfg L p (''docker://'' @ name)"
    unfolding elsewhere_def
  proof (intro conjI allI impI)
    fix q0 q tag assume a: "ParseImageName L (''docker://'' @ name) = Inr q0" "buildOciDestFromReference (c_Root cfg) q0 = Inr (q, tag)"
    show "apart p q" "name_ok tag"
      using dest [of q tag] docker_dest [of L name "c_Root cfg"] unfolding a(1) bindR_simps a(2) by auto
  qed (use d in auto)
  show "elsewhere cfg L p name"
    if no: "\<And>t x. SplitN2 name '':'' = [t, x] \<Longrightarrow> t \<noteq> ''docker'' \<and> transports L t = None"
    unfolding elsewhere_def
  proof (intro conjI allI impI)
    fix q0 q tag assume a: "buildNamedTagged name = Inr q0" "buildOciDestSimple (c_Root cfg) q0 = Inr (q, tag)"
    show "apart p q" "name_ok tag"
      using dest [of q tag] simple_dest [of name "c_Root cfg"] unfolding a(1) bindR_simps a(2) by auto
  qed (use no in \<open>auto simp: ParseImageName_def SplitN2_def split: option.splits prod.splits\<close>)
qed

section \<open>What the scheme gets wrong\<close>

lemma named_nonempty: "ParseNamed name = Inr r \<Longrightarrow> name \<noteq> []"
proof
  assume "ParseNamed name = Inr r" "name = []"
  moreover have "ParseNamed [] = Inl (Msg ''Error parsing reference: not a valid repository/tag'')" by code_simp
  ultimately show False by simp
qed

abbreviation no_tag :: error where
  "no_tag \<equiv> Panic ''interface conversion: missing method Tag''"

text \<open>C38. A name with a digest panics the daemon: the grammar accepts \<open>name@digest\<close>, no default tag is added to it, and
  the assertion to a tagged reference fails in \<open>Status\<close> and \<open>StopDownload\<close> at once and in both downloads as soon
  as the registry has answered. Nothing has been changed by then.\<close>

theorem digest_names_panic:
  assumes "ParseNamed name = Inr (CanonicalRef n d)"
    and "newImage L (CanonicalRef n d) (getSystemContext ctx) = Inr img"
    and "newImageSource L (CanonicalRef n d) (getSystemContext ctx) ociSupportedManifestMIMETypes = Inr src"
  shows "StopDownload cfg L name clean s = (Inl no_tag, s) \<and> daemon_Status cfg L name s = (Inl no_tag, s) \<and>
    startSeederDownload cfg L ctx (''docker://'' @ name) s = (Inl no_tag, s) \<and>
    startLeecherDownload cfg L env fuel reporting ctx (''docker://'' @ name) s = (Inl no_tag, s)"
proof -
  note ne = named_nonempty [OF assms(1)]
  have b: "buildNamedTagged name = Inr (CanonicalRef n d)"
    using assms(1) by (simp add: buildNamedTagged_def WithDefaultTag_def)
  let ?ref = "\<lparr>DockerReference = Some (CanonicalRef n d), NewImage = newImage L (CanonicalRef n d),
      NewImageSource = newImageSource L (CanonicalRef n d)\<rparr>"
  have p: "ParseImageName L (''docker://'' @ name) = Inr ?ref"
    unfolding ParseImageName_docker assms(1) by (simp add: NewReference_def WithDefaultTag_def)
  have dest: "buildOciDestSimple root (CanonicalRef n d) = Inl no_tag" "buildOciDestFromReference root ?ref = Inl no_tag" for root
    by (simp_all add: buildOciDestSimple_def buildOciDestFromReference_def WithDefaultTag_def)
  have "startSeederDownload cfg L ctx (''docker://'' @ name) s = (Inl no_tag, s)"
    unfolding startSeederDownload_def Let_def p using assms(2,3) by (simp add: newOciImage_def dest run)
  moreover have "startLeecherDownload cfg L env fuel reporting ctx (''docker://'' @ name) s = (Inl no_tag, s)"
    unfolding startLeecherDownload_def Let_def p using assms(2) by (simp add: newOciImage_def dest run)
  ultimately show ?thesis
    by (simp add: StopDownload_def daemon_Status_def with_image_def ne b newOciImageSimple_def dest run)
qed

theorem digest_names_panic_witness:
  "StopDownload demo_cfg demo_libs (''x@sha256:'' @ replicate 64 CHR ''0'') True demo_daemon = (Inl no_tag, demo_daemon)"
proof -
  have "valid_name ''x''" "valid_digest (''sha256:'' @ replicate 64 CHR ''0'')" by code_simp+
  moreover have "WithName ''x'' = Inr (NamedRef ''x'')" by code_simp
  ultimately have p: "ParseNamed (''x@sha256:'' @ replicate 64 CHR ''0'') = Inr (CanonicalRef ''x'' (''sha256:'' @ replicate 64 CHR ''0''))"
    using ParseNamed_digest [of "''x''" "''sha256:'' @ replicate 64 CHR ''0''"] by simp
  have i: "newImage demo_libs r c = Inr demo_img" "newImageSource demo_libs r c ts = Inr (\<lambda>_. Inr (''abc'', None))" for r c ts
    by (simp_all add: demo_libs_def)
  from digest_names_panic [where ctx = "\<lambda>_. None", OF p i] show ?thesis by blast
qed

text \<open>C39. The images of two registries share one directory and one reference: the directory comes from the name without
  its host, so the same path and tag on two registries is one image to the daemon, though the references differ.\<close>

theorem registries_share_image:
  assumes "registry h" "registry h'" "valid_name (h @ slash # m)" "valid_name (h' @ slash # m)" "matches TagRegexp t"
  shows "\<exists>r r'. buildNamedTagged ((h @ slash # m) @ colon # t) = Inr r \<and> Hostname r = h \<and>
    buildNamedTagged ((h' @ slash # m) @ colon # t) = Inr r' \<and> Hostname r' = h' \<and>
    buildOciDestSimple root r = Inr (Join [ociRootDir root, m], t) \<and>
    buildOciDestSimple root r' = Inr (Join [ociRootDir root, m], t)"
proof -
  have "buildNamedTagged ((k @ slash # m) @ colon # t) = Inr (TaggedRef (k @ slash # m) t) \<and>
      Hostname (TaggedRef (k @ slash # m) t) = k \<and> RemoteName (TaggedRef (k @ slash # m) t) = m"
    if "registry k" "valid_name (k @ slash # m)" for k
    using ParseNamed_tagged [OF that(2) assms(5)] WithName_registry [OF that] splitHostname_registry [OF that(1), of m]
    by (simp add: buildNamedTagged_def WithDefaultTag_def Hostname_def RemoteName_def)
  from this [OF assms(1,3)] this [OF assms(2,4)] show ?thesis by (auto simp: buildOciDestSimple_def)
qed

theorem registries_share_image_witness:
  "\<exists>r r'. buildNamedTagged ''a.io/x:v1'' = Inr r \<and> buildNamedTagged ''b:50/x:v1'' = Inr r' \<and> Hostname r \<noteq> Hostname r' \<and>
    buildOciDestSimple ''root'' r = buildOciDestSimple ''root'' r'"
proof -
  have "registry ''a.io''" "registry ''b:50''" by (simp_all add: registry_def DefaultHostname_def LegacyDefaultHostname_def)
  moreover have "valid_name (''a.io'' @ slash # ''x'')" "valid_name (''b:50'' @ slash # ''x'')" "matches TagRegexp ''v1''" by code_simp+
  ultimately show ?thesis using registries_share_image [of "''a.io''" "''b:50''" "''x''" "''v1''" "''root''"] by auto
qed

text \<open>A name of the default registry whose first element looks like a host loses the registry when it is normalised.\<close>

lemma normalize_changes_host:
  "ParseNamed ''docker.io/a.b/c'' = Inr (NamedRef ''a.b/c'')" "Hostname (NamedRef ''a.b/c'') = ''a.b''"
  by code_simp+

end
