(* ===== verification/Client_Storage.thy ===== *)
theory Client_Storage
  imports Image_Apart
begin

text \<open>
  The torrent client at work beside the images: its storage writes the files its torrents name, wherever
  these are. When none of them is below the directory of an image, the client leaves the image alone; this is
  what the daemon's promises ask of the environment (\<open>spares\<close>). The theory ends with the reason why it
  is enough to ask it of the torrents the client has been given: a call that ends in a state in which no torrent
  leads into the image was never in another one.
\<close>

section \<open>What the storage writes\<close>

lemma others_open_write:
  assumes A: "comps f \<in> A"
  shows "triple (others A V :: 'z fs_scheme \<Rightarrow> bool) (os_OpenWrite f)
    (\<lambda>i s. others A V s \<and> node_at s (comps f) = Some (File i)) (\<lambda>_. others A V)"
  unfolding os_OpenWrite_def
proof (rule triple_syscall)
  fix s t :: "'z fs_scheme" and i
  assume s: "others A V s" and k: "k_open_write (comps f) s = (Inr i, t)"
  have one: "one_name s" using s by (simp add: others_def)
  have wf: "wf_fs s" using one by (rule one_name_wf)
  obtain r where r: "resolve_new s (comps f) = Inr r" using k by (auto simp: k_open_write_def split: sum.splits)
  have n: "r = node_at s (comps f)" and up: "node_at s (butlast (comps f)) = Some Dir \<or> comps f = [[]]"
    using resolve_new_InrD [OF wf r] by auto
  show "others A V t \<and> node_at t (comps f) = Some (File i)"
  proof (cases r)
    case None
    then have new: "new_file (comps f) s = (Inr i, t)" using k r by (simp add: k_open_write_def)
    have a: "node_at s (comps f) = None" "node_at s (butlast (comps f)) = Some Dir" using n up None by auto
    note p = new_file_props [OF wf a new]
    have "one_name t" using one_name_new_file [OF one, of "comps f"] r None new by simp
    moreover have "node_at t (comps f) = Some (File i)" using p(1,4) by (simp add: sole_def)
    ultimately show ?thesis using s A p(3) by (auto simp: others_def simp del: view_simps)
  next
    case (Some m)
    then show ?thesis using k r n s by (auto simp: k_open_write_def split: node.splits)
  qed
next
  fix s t :: "'z fs_scheme" and e
  assume "others A V s" "k_open_write (comps f) s = (Inl e, t)"
  then show "others A V t" by (auto simp: k_open_write_def new_file_def split: sum.splits option.splits node.splits)
qed (simp_all add: others_faults)

lemma others_write_at:
  assumes "others A V s" "node_at s k = Some (File i)" "k \<in> A"
  shows "others A V (write_at i off bs s)"
proof -
  have one: "one_name s" using assms(1) by (simp add: others_def)
  let ?t = "write_at i off bs s"
  have n: "node_at ?t q = node_at s q" for q by (simp add: write_at_def)
  have "view ?t q = view s q" if "q \<noteq> k" for q
  proof (rule view_cong_inodes)
    fix j assume "node_at s q = Some (File j)"
    then have "j \<noteq> i" using assms(2) that one unfolding one_name_def by blast
    then show "inodes ?t j = inodes s j" by (simp add: write_at_def)
  qed (rule n)
  then have "view ?t q = V q" if "q \<notin> A" for q using assms(1,3) that by (metis others_def)
  moreover have "one_name ?t" using one by (simp add: write_at_def)
  ultimately show ?thesis by (simp add: others_def del: view_simps)
qed

lemma others_file_WriteAt:
  assumes "k \<in> A"
  shows "triple (\<lambda>s. others A V s \<and> node_at s k = Some (File i)) (file_WriteAt i bs off) (\<lambda>_. others A V) (\<lambda>_. others A V)"
proof (rule tripleI)
  fix s :: "'a fs_scheme" assume s: "others A V s \<and> node_at s k = Some (File i)"
  then have "others A V (write_at i n x s)" "others A V (write_at i n x (s\<lparr>faults := fl\<rparr>))" for n x fl
    using others_write_at [OF _ _ assms, of V s i] others_write_at [OF _ _ assms, of V "s\<lparr>faults := fl\<rparr>" i]
    by (simp_all add: others_faults)
  then show "case file_WriteAt i bs off s of (Inl e, t) \<Rightarrow> others A V t | (Inr x, t) \<Rightarrow> others A V t"
    using s by (auto simp: file_WriteAt_def split: list.splits option.splits)
qed

text \<open>A write for a torrent stays among the files of the torrent and the directories above them.\<close>

lemma prefix_Dir_Join: "prefix (comps (filepath_Dir (Join xs))) (comps (Join xs))"
proof (cases "dropWhile (\<lambda>e. e = []) xs")
  case Nil
  then have "Join xs = []" unfolding Join_def by (simp only: list.case)
  moreover have "comps (filepath_Dir []) = []" by code_simp
  ultimately show ?thesis by simp
next
  case (Cons y ys)
  then have "Join xs = Clean (join_with slash (y # ys))" unfolding Join_def by (simp only: list.case)
  then show ?thesis using prefix_comps_Dir [of "Join xs"] by simp
qed

lemma writeAt_step:
  assumes "\<not> off \<ge> fi_Length fi" "n1 = min (int (length p)) (int64 (fi_Length fi - off))"
  shows "writeAt_loop dir info (fi # fis) p off n =
    bindE (tryE (os_MkdirAll (filepath_Dir (fileInfoName dir info fi)))) (\<lambda>_.
    bindE (os_OpenWrite (fileInfoName dir info fi)) (\<lambda>f.
    if n1 < 0 then throwE (Panic ''slice bounds out of range'')
    else bindE (file_WriteAt f (take (nat n1) p) off) (\<lambda>_.
      if drop (nat n1) p = [] then returnE (n + n1) else writeAt_loop dir info fis (drop (nat n1) p) 0 (n + n1))))"
proof -
  have "(off \<ge> fi_Length fi) = False" using assms(1) by simp
  then show ?thesis unfolding writeAt_loop.simps(2) Let_def assms(2) by (simp only: if_False)
qed

lemma others_writeAt:
  assumes "\<And>fi k. fi \<in> set fis \<Longrightarrow> prefix k (comps (fileInfoName dir info fi)) \<Longrightarrow> k \<in> A"
  shows "keeps (others A V :: 'z fs_scheme \<Rightarrow> bool) (writeAt_loop dir info fis p off n)"
  using assms
proof (induction dir info fis p off n rule: writeAt_loop.induct)
  case (2 dir info fi fis p off n)
  let ?name = "fileInfoName dir info fi" and ?I = "others A V :: 'z fs_scheme \<Rightarrow> bool"
  define n1 where "n1 = min (int (length p)) (int64 (fi_Length fi - off))"
  have rest: "keeps ?I (writeAt_loop dir info fis p (int64 (off - fi_Length fi)) n)" if "off \<ge> fi_Length fi"
    by (rule "2.IH"(1) [OF that]) (use "2.prems" in auto)
  have more: "keeps ?I (writeAt_loop dir info fis (drop (nat n1) p) 0 (n + n1))"
    if "\<not> off \<ge> fi_Length fi" "\<not> n1 < 0" "drop (nat n1) p \<noteq> []"
    by (rule "2.IH"(2) [OF that(1) n1_def refl that(2,3)]) (use "2.prems" in auto)
  have up: "k \<in> A" if "prefix k (comps ?name)" for k using "2.prems" [of fi k] that by simp
  have dirs: "keeps ?I (os_MkdirAll (filepath_Dir ?name))"
    unfolding os_MkdirAll_def
    by (rule others_mkdirAll, rule up)
      (use prefix_Dir_Join in \<open>auto simp: fileInfoName_def intro: prefix_order.trans\<close>)
  have A: "comps ?name \<in> A" by (rule up) simp
  have wr: "triple (\<lambda>s. ?I s \<and> node_at s (comps ?name) = Some (File f))
      (if n1 < 0 then throwE (Panic ''slice bounds out of range'')
       else bindE (file_WriteAt f (take (nat n1) p) off) (\<lambda>_.
         if drop (nat n1) p = [] then returnE (n + n1) else writeAt_loop dir info fis (drop (nat n1) p) 0 (n + n1)))
      (\<lambda>_. ?I) (\<lambda>_. ?I)" if "\<not> off \<ge> fi_Length fi" for f
  proof (cases "n1 < 0")
    case False
    then have "keeps ?I (if drop (nat n1) p = [] then returnE (n + n1) else writeAt_loop dir info fis (drop (nat n1) p) 0 (n + n1))"
      using more [OF that] by (auto intro: keeps_simple)
    note tail = this
    have "(n1 < 0) = False" using False by simp
    then show ?thesis by (simp only: if_False) (rule triple_bind [OF others_file_WriteAt [OF A] tail])
  qed (auto intro: triple_throw)
  show ?case
  proof (cases "off \<ge> fi_Length fi")
    case False
    show ?thesis
      unfolding writeAt_step [OF False n1_def]
      by (intro keeps_bind keeps_try dirs triple_bind [OF others_open_write [OF A]] wr False)
  qed (simp add: rest)
qed (simp add: keeps_simple)

section \<open>Torrents that lead into an image\<close>

text \<open>
  A file of the torrent is below the directory of the image; or it is above the working directory of the
  daemon, from where it may come back to the image by another way.
\<close>

definition leads_into :: "string \<Rightarrow> string \<Rightarrow> Info \<Rightarrow> bool" where
  "leads_into p dir i \<longleftrightarrow>
     (\<exists>fi \<in> set (UpvertedFiles i).
        prefix (comps p) (comps (fileInfoName dir i fi)) \<or> ''..'' \<in> set (comps (fileInfoName dir i fi)))"

definition clear :: "string \<Rightarrow> 'z net_scheme \<Rightarrow> bool" where
  "clear p s \<longleftrightarrow>
     (\<forall>h i. h < next_handle s \<longrightarrow> h_info (handles s h) = Some i \<longrightarrow> \<not> leads_into p (storage_dir s (handles s h)) i)"

text \<open>
  What the daemon's promises ask of the environment, the peers and the client's transfers among it: it puts no file
  under a second name, gives the client no torrents, and leaves the image alone as long as no torrent of the
  client leads into it.
\<close>

definition spares :: "string \<Rightarrow> ('z net_scheme \<Rightarrow> 'z net_scheme) \<Rightarrow> bool" where
  "spares p env \<longleftrightarrow>
     (\<forall>s. clear p (env s) = clear p s) \<and>
     (\<forall>s. one_name s \<longrightarrow> one_name (env s) \<and>
        (clear p s \<longrightarrow> (\<forall>k. prefix (comps p) k \<longrightarrow> view (env s) k = view s k)))"

lemma clear_more:
  "handles t = handles s \<Longrightarrow> next_handle t = next_handle s \<Longrightarrow> clients t = clients s \<Longrightarrow> clear p t = clear p s"
  by (simp add: clear_def storage_dir_def)

lemma spares_id: "spares p (\<lambda>s. s)"
  by (simp add: spares_def)

lemma spares_comp: "spares p f \<Longrightarrow> spares p g \<Longrightarrow> spares p (\<lambda>s. f (g s))"
  by (simp add: spares_def del: view_simps)

lemma net_eqD:
  assumes "fs.more t = fs.more s"
  shows "handles t = handles s" "next_handle t = next_handle s" "clients t = clients s"
  using assms by (cases t; cases s; simp)+

lemma writeAt_more: "keeps (\<lambda>s. fs.more s = M) (writeAt_loop dir info fis q off n)"
proof (induction dir info fis q off n rule: writeAt_loop.induct)
  case (2 dir info fi fis q off n)
  have op: "keeps (\<lambda>s. fs.more s = M) (os_OpenWrite f)" for f
    unfolding os_OpenWrite_def
    by (rule syscall_frame; simp add: k_open_write_def new_file_def split: sum.splits option.splits node.splits)
  have wr: "keeps (\<lambda>s. fs.more s = M) (file_WriteAt f x o')" for f x o'
    by (rule keepsI) (auto simp: file_WriteAt_def write_at_def split: list.splits option.splits)
  define n1 where "n1 = min (int (length q)) (int64 (fi_Length fi - off))"
  show ?case
  proof (cases "off \<ge> fi_Length fi")
    case False
    have tail: "keeps (\<lambda>s. fs.more s = M) (if drop (nat n1) q = [] then returnE (n + n1)
        else writeAt_loop dir info fis (drop (nat n1) q) 0 (n + n1))" if "\<not> n1 < 0"
      using "2.IH"(2) [OF False n1_def refl that] by (auto intro: keeps_simple)
    have "keeps (\<lambda>s. fs.more s = M) (if n1 < 0 then throwE (Panic ''slice bounds out of range'')
        else bindE (file_WriteAt f (take (nat n1) q) off) (\<lambda>_. if drop (nat n1) q = [] then returnE (n + n1)
          else writeAt_loop dir info fis (drop (nat n1) q) 0 (n + n1)))" for f
      using keeps_bind [OF wr tail] by (auto intro: keeps_simple)
    from keeps_bind [OF op this] show ?thesis unfolding writeAt_step [OF False n1_def] by (rule keeps_bind [rotated]) (intro keep)
  qed (simp add: "2.IH"(1))
qed (simp add: keeps_simple)

text \<open>The client's writes are such an environment, whatever the peers send and wherever it goes; so is their news.\<close>

lemma client_write_more: "fs.more (client_write h bs off s) = fs.more s"
  using keepsD [OF writeAt_more [of "fs.more s"]] by (auto simp: client_write_def WriteAt_def split: option.split)

lemma client_write_clear: "clear p (client_write h bs off s) = clear p s"
  using net_eqD [OF client_write_more] by (intro clear_more)

lemma client_write_spares: "spares p (client_write h bs off)"
proof -
  have away: "one_name (client_write h bs off s) \<and>
      (clear p s \<longrightarrow> (\<forall>k. prefix (comps p) k \<longrightarrow> view (client_write h bs off s) k = view s k))"
    if one: "one_name s" for s :: "'a net_scheme"
  proof (cases "h < next_handle s \<and> (\<exists>i. h_info (handles s h) = Some i)")
    case True
    then obtain i where h: "h < next_handle s" and i: "h_info (handles s h) = Some i" by blast
    let ?d = "storage_dir s (handles s h)"
    let ?A = "{k. \<exists>fi \<in> set (UpvertedFiles i). prefix k (comps (fileInfoName ?d i fi))}"
    have t: "client_write h bs off s = snd (WriteAt ?d i bs off s)" using h i by (simp add: client_write_def)
    have "others ?A (view s) (snd (WriteAt ?d i bs off s))"
      unfolding WriteAt_def by (rule keepsD [OF others_writeAt others_self [OF one]]) auto
    moreover have "k \<notin> ?A" if "clear p s" "prefix (comps p) k" for k
      using that h i prefix_order.trans [OF that(2)] by (auto simp: clear_def leads_into_def)
    ultimately show ?thesis by (auto simp: t others_def simp del: view_simps)
  qed (use one in \<open>auto simp: client_write_def split: option.split\<close>)
  show ?thesis using away by (simp add: spares_def client_write_clear del: view_simps)
qed

lemma progress_spares: "spares p (progress h left complete pending)"
proof -
  have "clear p (progress h left complete pending s) = clear p s" for s :: "'a net_scheme"
    by (auto simp: clear_def progress_def upd_handle_def storage_dir_def)
  moreover have d: "tree (progress h left complete pending s) = tree s" "inodes (progress h left complete pending s) = inodes s"
    "next_ino (progress h left complete pending s) = next_ino s" "rnd (progress h left complete pending s) = rnd s" for s :: "'a net_scheme"
    by (simp_all add: progress_def upd_handle_def)
  moreover have "view (progress h left complete pending s) = view s" for s :: "'a net_scheme"
    by (rule view_cong) (simp_all add: d)
  ultimately show ?thesis using one_name_disk [OF d(1,3,4)] by (simp add: spares_def del: view_simps)
qed

section \<open>Runs that end with no torrent leading into the image\<close>

text \<open>Requests that add no torrent: what the client has been given stays as it is.\<close>

lemma clear_handles:
  fixes s t :: "'z bt_scheme"
  assumes "next_handle t = next_handle s" "\<And>k. cl_config (clients t k) = cl_config (clients s k)"
    and "\<And>h. h_client (handles t h) = h_client (handles s h) \<and> h_info (handles t h) = h_info (handles s h)"
  shows "clear p t = clear p s"
  using assms by (simp add: clear_def storage_dir_def)

interpretation resting: engine_frame "clear p" for p
proof
  fix s :: "'z bt_scheme" and f l h g k tab
  assume s: "clear p s"
  show "clear p (upd_engine f s)" "clear p (s\<lparr>gos := l\<rparr>)"
    "clear p (upd_client k (\<lambda>cl. cl\<lparr>cl_torrents := tab (cl_torrents cl)\<rparr>) s)"
    by (subst clear_handles [where s = s]; simp add: s upd_engine_def upd_client_def)+
  show "clear p (upd_handle h g s)"
    if "h_client (g (handles s h)) = h_client (handles s h)" "h_info (g (handles s h)) = h_info (handles s h)"
    by (subst clear_handles [where s = s]; simp add: s upd_handle_def that)
qed

lemma clear_files:
  fixes m :: "('z bt_scheme, 'v) call"
  assumes "\<And>M. keeps (\<lambda>s. fs.more s = M) m"
  shows "keeps (clear p) m"
proof (rule keepsI)
  fix s :: "'z bt_scheme" assume s: "clear p s"
  have "fs.more (snd (m s)) = fs.more s" using keepsD [OF assms] by blast
  from clear_more [OF net_eqD [OF this]] s show "clear p (snd (m s))" by simp
qed

lemma clear_requests:
  "keeps (clear p :: 'z bt_scheme \<Rightarrow> bool) (StopDownload cfg L source clean)"
  "keeps (clear p :: 'z bt_scheme \<Rightarrow> bool) (daemon_Status cfg L source)"
proof -
  have img: "keeps (clear p :: 'z bt_scheme \<Rightarrow> bool) (with_image cfg source body)" if "\<And>i. keeps (clear p) (body i)" for body :: "OciImage \<Rightarrow> ('z bt_scheme, 'v) call"
    unfolding with_image_def by (intro keep that clear_files)
  have lays: "keeps (clear p :: 'z bt_scheme \<Rightarrow> bool) (getOciImageLayers L i)" for i :: OciImage by (rule clear_files) (intro keep)
  have quiet: "keeps (clear p :: 'z bt_scheme \<Rightarrow> bool) (remove_quiet w f)" for w f by (rule clear_files) (unfold remove_quiet_def, intro keep)
  have "keeps (clear p :: 'z bt_scheme \<Rightarrow> bool) (DeleteTorrent idn)" for idn
    unfolding DeleteTorrent_def by (intro resting.guard keep resting.uncaching resting.books quiet)
  then have "keeps (clear p :: 'z bt_scheme \<Rightarrow> bool) (stop_layers clean ls)" for ls
    by (induction ls) (auto intro!: keep resting.stopping)
  then show "keeps (clear p :: 'z bt_scheme \<Rightarrow> bool) (StopDownload cfg L source clean)"
    unfolding StopDownload_def by (intro img keeps_bind lays)
  have "keeps (clear p :: 'z bt_scheme \<Rightarrow> bool) (layer_status l)" for l
    unfolding layer_status_def by (intro keep resting.reporting)
  then show "keeps (clear p :: 'z bt_scheme \<Rightarrow> bool) (daemon_Status cfg L source)"
    unfolding daemon_Status_def by (intro img keeps_bind lays keeps_map)
qed

text \<open>A torrent the client has been given stays with it: what leads into an image once does so for good.\<close>

definition stray :: "string \<Rightarrow> 'z net_scheme \<Rightarrow> bool" where
  "stray p s \<longleftrightarrow> \<not> clear p s"

lemma astray_files:
  fixes m :: "('z bt_scheme, 'v) call"
  assumes "\<And>M. keeps (\<lambda>s. fs.more s = M) m"
  shows "keeps (stray p) m"
proof (rule keepsI)
  fix s :: "'z bt_scheme" assume s: "stray p s"
  have "fs.more (snd (m s)) = fs.more s" using keepsD [OF assms] by blast
  from clear_more [OF net_eqD [OF this]] s show "stray p (snd (m s))" by (simp add: stray_def)
qed

interpretation astray: disk_frame "stray p" True for p
proof (rule disk_frame.intro)
  have cl: "stray p s \<Longrightarrow> (\<And>h. h < next_handle s \<Longrightarrow> grows (handles s h) (handles t h)) \<Longrightarrow>
      next_handle s \<le> next_handle t \<Longrightarrow> (\<And>k. cl_config (clients t k) = cl_config (clients s k)) \<Longrightarrow> stray p t"
    for s t :: "'z bt_scheme"
    unfolding stray_def clear_def storage_dir_def grows_def haveInfo_def by (metis option.distinct(1) order_less_le_trans)
  have same: "grows t t" for t by (simp add: grows_def)
  show "net_frame (stray p :: 'z bt_scheme \<Rightarrow> bool)"
    by unfold_locales
      (erule cl; simp add: same upd_engine_def upd_handle_def upd_client_def)+
  show "disk_frame_axioms (stray p :: 'z bt_scheme \<Rightarrow> bool) True"
  proof
    fix s :: "'z bt_scheme" and fl f g
    assume s: "stray p s"
    show "stray p (s\<lparr>faults := fl\<rparr>)" "stray p (s\<lparr>rnd := f\<rparr>)" "stray p (s\<lparr>inodes := g\<rparr>)"
      using s by (simp_all add: stray_def clear_def storage_dir_def)
  qed (rule astray_files, intro keep | rule astray_files, rule syscall_frame, simp)+
qed

text \<open>
  Two calls that do the same, for all that ends with no torrent leading into the image. Run with an environment
  that \<open>spares\<close> the image or with one that is cut off at such a torrent (\<open>guarded\<close>), the handlers are two such
  calls; the second environment leaves the image alone in every state.
\<close>

definition guarded :: "string \<Rightarrow> ('z net_scheme \<Rightarrow> 'z net_scheme) \<Rightarrow> 'z net_scheme \<Rightarrow> 'z net_scheme" where
  "guarded p env s = (if one_name s \<and> clear p s then env s else s)"

definition same_until :: "string \<Rightarrow> ('z net_scheme, 'a) call \<Rightarrow> ('z net_scheme, 'a) call \<Rightarrow> bool" where
  "same_until p m n \<longleftrightarrow> (\<forall>s. one_name s \<longrightarrow> clear p (snd (m s)) \<longrightarrow> n s = m s)"

lemma same_untilD: "same_until p m n \<Longrightarrow> one_name s \<Longrightarrow> m s = (r, t) \<Longrightarrow> clear p t \<Longrightarrow> n s = (r, t)"
  by (auto simp: same_until_def)

lemma guarded_untouched: "spares p env \<Longrightarrow> untouched p (guarded p env)"
  by (auto simp: untouched_def guarded_def spares_def one_name_wf simp del: view_simps)

lemma spares_one: "spares p env \<Longrightarrow> one_name s \<Longrightarrow> one_name (env s)"
  by (simp add: spares_def)

lemma guarded_one: "spares p env \<Longrightarrow> one_name s \<Longrightarrow> one_name (guarded p env s)"
  by (simp add: guarded_def spares_one)

lemma spares_astray: "spares p env \<Longrightarrow> stray p s \<Longrightarrow> stray p (env s)"
  by (simp add: spares_def stray_def)

lemma same_refl: "same_until p m m"
  by (simp add: same_until_def)

lemma same_env: "spares p env \<Longrightarrow> same_until p (modifyE env) (modifyE (guarded p env))"
  by (auto simp: same_until_def run guarded_def spares_def)

lemma same_bind:
  assumes "same_until p m m'" "keeps one_name m" "\<And>x. keeps (stray p) (f x)" "\<And>x. same_until p (f x) (f' x)"
  shows "same_until p (bindE m f) (bindE m' f')"
  unfolding same_until_def
proof (intro allI impI)
  fix s :: "'a net_scheme" assume one: "one_name s" and c: "clear p (snd (bindE m f s))"
  obtain r t where m: "m s = (r, t)" by fastforce
  have "one_name t" using keepsD [OF assms(2) one] m by simp
  moreover have "clear p t"
  proof (cases r)
    case (Inr x)
    then show ?thesis using c m keepsD [OF assms(3), of t x] by (auto simp: stray_def)
  qed (use c m in simp)
  moreover from this have "m' s = (r, t)" by (rule same_untilD [OF assms(1) one m])
  ultimately show "bindE m' f' s = bindE m f s"
    using c m assms(4) by (cases r) (auto simp: same_until_def)
qed

lemma same_wrap: "same_until p m m' \<Longrightarrow> same_until p (wrapE w m) (wrapE w m')"
  by (auto simp: same_until_def wrapE_def catchE_def tryE_def bindE_def run split: prod.splits sum.splits if_splits)

lemma same_cases:
  "(b \<Longrightarrow> same_until p m m') \<Longrightarrow> (\<not> b \<Longrightarrow> same_until p n n') \<Longrightarrow> same_until p (if b then m else n) (if b then m' else n')"
  by simp

lemma same_deferB:
  assumes "same_until p m m'" "keeps (stray p) fin"
  shows "same_until p (deferB fin m) (deferB fin m')"
  unfolding same_until_def
proof (intro allI impI)
  fix s :: "'a net_scheme" assume one: "one_name s" and c: "clear p (snd (deferB fin m s))"
  obtain r t where m: "m s = (r, t)" by fastforce
  have "clear p t" using c m keepsD [OF assms(2), of t] by (auto simp: stray_def deferB_def split: sum.splits bool.splits)
  then have "m' s = (r, t)" by (rule same_untilD [OF assms(1) one m])
  then show "deferB fin m' s = deferB fin m s" using m by (simp add: deferB_def)
qed

lemma same_look:
  assumes "\<And>s. snd (m s) = s" "\<And>x. same_until p (f x) (f' x)"
  shows "same_until p (bindE m f) (bindE m f')"
  unfolding same_until_def
proof (intro allI impI)
  fix s :: "'a net_scheme" assume s: "one_name s" "clear p (snd (bindE m f s))"
  obtain r where m: "m s = (r, s)" using assms(1) [of s] by (cases "m s") simp
  show "bindE m f' s = bindE m f s"
    using s m assms(2) by (cases r) (auto simp: same_until_def)
qed

lemma looks [simp]:
  "snd (getE g s) = s" "snd (liftE r s) = s" "snd (wrapE w (liftE r) s) = s" "snd (whenE b (liftE x) s) = s"
  by (auto simp: run wrapE_def catchE_def tryE_def bindE_def whenE_def split: sum.splits)

lemma same_when_started: "same_until p m m' \<Longrightarrow> same_until p (when_started m) (when_started m')"
  unfolding when_started_def by (intro same_look same_cases same_refl) simp_all

section \<open>The handlers\<close>

lemma same_StartLeecher:
  assumes env: "spares p env"
  shows "same_until p (StartLeecher c env n idn d reporting) (StartLeecher c (guarded p env) n idn d reporting)"
proof -
  have w: "same_until p (waitComplete env n tt) (waitComplete (guarded p env) n tt)" for tt
  proof (induction n)
    case (Suc n)
    have "keeps (stray p) (waitComplete env n tt)"
      by (induction n) (auto intro!: keep spares_astray [OF env])
    then have "same_until p (bindE (modifyE env) (\<lambda>_. waitComplete env n tt)) (bindE (modifyE (guarded p env)) (\<lambda>_. waitComplete (guarded p env) n tt))"
      by (intro same_bind [OF same_env [OF env] _ _ Suc.IH] keeps_modify spares_one [OF env])
    then show ?case unfolding waitComplete.simps by (intro same_look same_cases same_refl) simp_all
  qed (simp add: same_refl)
  have k: "keeps (stray p) (waitComplete env n tt)" for tt
    by (induction n) (auto intro!: keep spares_astray [OF env])
  have r: "same_until p (bindE (register c idn m) (\<lambda>t. if reporting then waitComplete env n (t_tt t) else returnE True))
      (bindE (register c idn m) (\<lambda>t. if reporting then waitComplete (guarded p env) n (t_tt t) else returnE True))" for m
    by (intro same_bind same_refl copies.registering same_cases w) (auto intro!: keep k)
  show ?thesis
    unfolding StartLeecher_def by (intro same_when_started same_look same_cases same_refl r) simp_all
qed

lemma same_leech_layers:
  assumes env: "spares p env" and cfg: "\<not> c_UseHardlink cfg"
  shows "same_until p (leech_layers cfg L env n reporting i ls) (leech_layers cfg L (guarded p env) n reporting i ls)"
proof (induction ls)
  case (Cons l ls)
  have one: "keeps one_name (startLeechingLayer cfg L env n reporting i l)"
    by (rule copies.leeching_layer) (use cfg spares_one [OF env] in auto)
  have stray: "keeps (stray p) (leech_layers cfg L env n reporting i ls)" for ls
    by (rule astray.leeching_layers) (use spares_astray [OF env] in auto)
  have lay: "keeps (stray p) (startLeechingLayer cfg L env n reporting i l)"
    by (rule astray.leeching_layer) (use spares_astray [OF env] in auto)
  have off: "c_UseHardlink cfg = False" using cfg by simp
  have "same_until p (startLeechingLayer cfg L env n reporting i l) (startLeechingLayer cfg L (guarded p env) n reporting i l)"
    unfolding startLeechingLayer_def off if_False
    by (intro same_look same_bind same_StartLeecher env copies.leeching same_cases same_refl spares_one [OF env])
      (auto intro!: keep astray.layout astray.calls)
  then have rest: "same_until p (bindE (startLeechingLayer cfg L env n reporting i l) (\<lambda>b. if b then leech_layers cfg L env n reporting i ls else returnE False))
     (bindE (startLeechingLayer cfg L (guarded p env) n reporting i l) (\<lambda>b. if b then leech_layers cfg L (guarded p env) n reporting i ls else returnE False))"
    by (intro same_bind one same_cases Cons.IH same_refl) (auto intro!: keep stray)
  have tail: "keeps (stray p) (if ok then leech_layers cfg L env n reporting i ls
      else bindE (startLeechingLayer cfg L env n reporting i l) (\<lambda>b. if b then leech_layers cfg L env n reporting i ls else returnE False))" for ok
    by (intro keep stray lay)
  show ?case
    unfolding leech_layers.simps
    by (rule same_bind [OF same_refl keeps_wrap [OF copies.layout(5)] tail same_cases [OF Cons.IH rest]])
qed (simp add: same_refl)

lemma same_leecher:
  assumes env: "spares p env" and cfg: "\<not> c_UseHardlink cfg"
  shows "same_until p (startLeecherDownload cfg L env n reporting ctx source)
    (startLeecherDownload cfg L (guarded p env) n reporting ctx source)"
proof -
  have one: "keeps one_name (leech_layers cfg L env n reporting i ls)" for i ls
    by (rule copies.leeching_layers) (use cfg spares_one [OF env] in auto)
  have stray: "keeps (stray p) (leech_layers cfg L env n reporting i ls)" for i ls
    by (rule astray.leeching_layers) (use spares_astray [OF env] in auto)
  show ?thesis
    unfolding startLeecherDownload_def Let_def
    by (intro same_cases same_refl same_look same_bind [OF same_refl] same_bind [OF same_leech_layers [OF env cfg]] same_deferB copies.images)
      (auto intro!: keep keeps_deferB astray.images one stray)
qed

text \<open>Every request, and every run of them.\<close>

lemma same_apiServer:
  assumes env: "spares p env" and cfg: "\<not> c_UseHardlink cfg"
  shows "same_until p (apiServer cfg L commit env n q) (apiServer cfg L commit (guarded p env) n q)"
proof -
  have one: "keeps one_name (StartDownload cfg L env n ctx r)" for ctx r
    by (rule copies.downloading) (use cfg spares_one [OF env] in auto)
  have "same_until p (StartDownload cfg L env n ctx r) (StartDownload cfg L (guarded p env) n ctx r)" for ctx r
    unfolding StartDownload_def Let_def
    by (intro same_look same_cases same_refl same_leecher env cfg) simp_all
  then show ?thesis
    unfolding apiServer_def by (cases q) (auto intro!: same_refl same_bind one keep)
qed

lemma served_guarded:
  assumes env: "spares p env" and cfg: "\<not> c_UseHardlink cfg"
    and run: "served cfg L commit env s qs t" "one_name s" "clear p t"
  shows "served cfg L commit (guarded p env) s qs t"
proof -
  have "one_name t \<and> (clear p t \<longrightarrow> served cfg L commit (guarded p env) s qs t)"
    using run(1)
  proof (induction rule: served.induct)
    case start
    then show ?case using run(2) by (simp add: served.start)
  next
    case (request qs t n q r u)
    then have t: "one_name t" "clear p t \<Longrightarrow> served cfg L commit (guarded p env) s qs t" by auto
    have "one_name u"
      using keepsD [OF copies.api [of cfg env L commit n q] t(1)] request.hyps(2) cfg spares_one [OF env] by auto
    moreover have "served cfg L commit (guarded p env) s (qs @ [q]) u" if "clear p u"
    proof -
      have "clear p t"
        using keepsD [OF astray.api [of cfg p env L commit n q], of t] request.hyps(2) that spares_astray [OF env] by (auto simp: stray_def)
      moreover have "apiServer cfg L commit (guarded p env) n q t = (r, u)"
        by (rule same_untilD [OF same_apiServer [OF env cfg] t(1) request.hyps(2) that])
      ultimately show ?thesis using served.request [OF t(2)] by blast
    qed
    ultimately show ?case by blast
  next
    case (between qs t)
    then have t: "one_name t" "clear p t \<Longrightarrow> served cfg L commit (guarded p env) s qs t" by auto
    show ?case
    proof (cases "clear p t")
      case True
      then have "guarded p env t = env t" using t(1) by (simp add: guarded_def)
      then show ?thesis using served.between [OF t(2) [OF True]] spares_one [OF env t(1)] by simp
    next
      case False
      then show ?thesis using env t(1) by (simp add: spares_def)
    qed
  qed
  then show ?thesis using run(3) by simp
qed

end
