(* ===== verification/Daemon_Copying.thy ===== *)
theory Daemon_Copying
  imports Image_Names Client_Storage
begin

text \<open>
  What a daemon that copies promises: what a leecher's and a seeder's download leave behind, and the safety of
  all requests, in both modes. Where the client may run, the promises hold up to the state in which a torrent of the
  client leads into the image (\<open>clear\<close>): its storage would write there.
\<close>

section \<open>A leecher's download\<close>

text \<open>C1. A leecher's download, in copying mode: whatever the registry and the seeder deliver, whatever digests the
  manifest names, whatever fails and whatever bytes the peers send, every blob of the image keeps hashing to its name
  and nothing stored is lost; and when the handler returns success, every layer and the configuration are there with
  the content their digests ask for, and the tag is bound to the stored OCI manifest. The one condition: no torrent the
  client has been given names a file below the image's directory, or one above the working directory (\<open>clear\<close>); its
  storage does not check the names, and writes where they lead.\<close>

theorem leech_complete:
  assumes "libs_ok L" "leecher_mode cfg" "spares p env"
    and "ParseImageName L source = Inr ref" "NewImage ref (getSystemContext ctx) = Inr img"
    and "buildOciDestFromReference (c_Root cfg) ref = Inr (p, tag)" "name_ok tag"
    and "image_at (lib_sha L) p K s" "one_name s"
    and "startLeecherDownload cfg L env fuel reporting ctx source s = (r, t)" "clear p t"
  shows "image_at (lib_sha L) p K t \<and>
    (r = Inr True \<longrightarrow>
       (\<forall>d \<in> set (bi_Digest (ConfigInfo img) # map bi_Digest (LayerInfos img)). \<forall>h. name_ok h \<and> d = digest_of h \<longrightarrow>
          (\<exists>c. view t (blob_file p h) = Some (Some c) \<and> d = blob_digest (lib_sha L) c)) \<and>
       (\<exists>raw. ImageManifest img = Inr raw \<and> manifest_stored L p tag raw t))"
proof -
  have "\<not> c_UseHardlink cfg" using assms(2) by (simp add: leecher_mode_def)
  note run = same_untilD [OF same_leecher [OF assms(3) this] assms(9-11)]
  show ?thesis by (rule leech_untouched [OF assms(1,2) guarded_untouched [OF assms(3)] assms(4-8) run])
qed

lemma demo_daemon_one: "one_name demo_daemon"
  unfolding one_name_def using demo_daemon_wf by (auto simp: node_at_def demo_daemon_tree split: if_splits)

lemma one_name_put:
  "one_name s \<Longrightarrow> node_at s k = None \<Longrightarrow> node_at s (butlast k) = Some Dir \<Longrightarrow> one_name (append_to i d (snd (new_file k s)))"
  using one_name_fresh [of s k] by (simp add: append_to_def)

lemma demo_stored_one: "one_name demo_stored"
proof -
  have "butlast (blob_file demo_path h) = comps demo_path @ [blobDirectory, BlobAlgorithm]" for h
    by (simp add: blob_file_def butlast_append)
  then show ?thesis
    unfolding demo_stored_def by (intro one_name_put [OF demo_daemon_one]) (simp_all add: demo_daemon_nodes)
qed

text \<open>A client's write for its first torrent, whichever bytes come in.\<close>

theorem leech_complete_witness:
  "\<exists>t. startLeecherDownload demo_cfg demo_libs (client_write 0 ''evil'' 0) 1 True (\<lambda>_. None) ''docker://x:v1'' demo_stored = (Inr True, t) \<and>
     (\<exists>c. view t (blob_file demo_path (hex_encode (demo_sha ''abc''))) = Some (Some c)) \<and>
     manifest_stored demo_libs demo_path ''v1'' ''m'' t"
proof -
  let ?h = "hex_encode (demo_sha ''abc'')"
  obtain t where run: "startLeecherDownload demo_cfg demo_libs (client_write 0 ''evil'' 0) 1 True (\<lambda>_. None) ''docker://x:v1'' demo_stored = (Inr True, t)"
    and m: "fs.more t = fs.more demo_stored" using demo_leech_run by blast
  have L: "ParseImageName demo_libs ''docker://x:v1'' = Inr (demo_ref ''x'')" "NewImage (demo_ref ''x'') c = Inr demo_img" for c
    by (simp_all add: demo_names demo_ref_def)
  have dst: "buildOciDestFromReference (c_Root demo_cfg) (demo_ref ''x'') = Inr (demo_path, ''v1'')"
    by (simp add: demo_cfg_def demo_dest)
  have sha: "lib_sha demo_libs = demo_sha" by (simp add: demo_libs_def)
  have "next_handle demo_stored = 0" by (simp add: demo_stored_def new_file_def append_to_def set_node_def demo_daemon_def)
  then have c: "clear demo_path t" using net_eqD [OF m] by (simp add: clear_def)
  have "leecher_mode demo_cfg" "name_ok ''v1''" by (simp_all add: leecher_mode_def demo_cfg_def name_ok_def)
  note got = leech_complete [OF demo_libs_laws this(1) client_write_spares L dst this(2) demo_stored_image [folded sha] demo_stored_one run c]
  have h: "name_ok ?h" by (rule name_ok_sha [OF demo_sha_ok])
  have D: "digest_of ?h \<in> set (map bi_Digest (LayerInfos demo_img))"
    by (simp add: demo_img_def demo_digest_def blob_digest_def)
  have "\<exists>c. view t (blob_file demo_path ?h) = Some (Some c)" using got D h by fastforce
  moreover have "ImageManifest demo_img = Inr ''m''" by (simp add: demo_img_def)
  then have "manifest_stored demo_libs demo_path ''v1'' ''m'' t" using got by auto
  ultimately show ?thesis using run by blast
qed

section \<open>A seeder's download\<close>

lemma seeded_open:
  assumes dst: "buildOciDestFromReference root r = Inr (p, tag)" and sha: "sha_ok sha"
    and B: "B = {h. view s (blob_file p h) \<noteq> None}"
    and s: "safe_image sha p K s" "root_is R s"
  shows "case newOciImage root r s of (Inl x, t) \<Rightarrow> safe_image sha p K t
    | (Inr i, t) \<Rightarrow> oci_session sha p tag i \<and> seeded sha p R B K t"
proof -
  have im: "image_at sha p K s" and one: "one_name s" using s(1) by (simp_all add: safe_image_def)
  have n: "newOciImage root r = bindE (Open p) (\<lambda>layout. returnE \<lparr>oi_path = p, oi_ref = tag, oi_layout = layout\<rparr>)"
    by (simp add: newOciImage_def dst)
  note tr = newOciImage_triple [OF dst sha, where K = K]
  note keys = newDirLayout_keys [OF dest_paths(1) [OF dst], where V = "view s"]
  have one': "one_name (snd (newOciImage root r s))" by (rule keepsD [OF copies.images(1) one])
  have root': "root_is R (snd (newOciImage root r s))" by (rule keepsD [OF more_root [OF oci_more(1)] s(2)])
  show ?thesis
  proof (cases "newOciImage root r s")
    case (Pair q t)
    show ?thesis
    proof (cases q)
      case (Inl x)
      then show ?thesis using tripleD_Inl [OF tr im] Pair one' by (simp add: safe_image_def)
    next
      case (Inr i)
      then have call: "newOciImage root r s = (Inr i, t)" using Pair by simp
      then obtain e where "newDirLayout p s = (Inr e, t)"
        unfolding n by (auto simp: Open_def bindE_def run split: prod.splits sum.splits)
      then have k: "keys_kept p (view s) t" using tripleD_Inr [OF keys image_at_self [OF im]] by blast
      have b: "view t (blob_file p h) = view s (blob_file p h)" for h using k by (simp add: keys_kept_def del: view_simps)
      have "seeded sha p R B K t"
        using tripleD_Inr [OF tr im call] one' root' call by (auto simp: seeded_def B b simp del: view_simps)
      then show ?thesis using tripleD_Inr [OF tr im call] call by simp
    qed
  qed
qed

text \<open>Closing removes the session's temporary directory, which has to be outside the engine's.\<close>

lemma seeded_Close:
  assumes i: "oci_session sha p tag i" and s: "seeded sha p R B K s"
    and apart: "\<And>h. name_ok h \<Longrightarrow> \<not> prefix (comps p) (layer_file R h)"
  shows "seeded sha p R B K (snd (OciImage_Close i s))"
proof -
  let ?t = "snd (OciImage_Close i s)" and ?T = "comps (l_temp (oi_layout i))"
  have e: "session sha p (oi_layout i)" using i by (simp add: oci_session_def)
  then have le: "layout_ok (oi_layout i)" "l_path (oi_layout i) = p" by (simp_all add: session_def)
  have im: "image_at sha p K s" and one: "one_name s" and r: "root_is R s" using s by (simp_all add: seeded_def)
  have "agree ?T (view s) s" using im by (simp add: agree_def image_at_wf)
  moreover have "triple (agree ?T (view s)) (Close (oi_layout i)) (\<lambda>_. agree ?T (view s)) (\<lambda>_. agree ?T (view s))"
    unfolding Close_def by (rule triple_weaken [OF os_RemoveAll_triple [OF layout_paths(7) [OF le(1)]]]) auto
  ultimately have ag: "agree ?T (view s) ?t" unfolding OciImage_Close_def by (rule triple_snd [rotated])
  have b: "view ?t (blob_file p h) = view s (blob_file p h)" for h
    using ag layout_paths(5) [OF le(1), of h] le(2) by (simp add: agree_def del: view_simps)
  obtain sfx where T: "?T = comps p @ [''tmp-'' @ sfx]" using le by (auto simp: layout_ok_def)
  have l: "view ?t (layer_file R h) = view s (layer_file R h)" if "name_ok h" for h
  proof -
    have "\<not> prefix ?T (layer_file R h)" using apart [OF that] unfolding T by (meson append_prefixD)
    then show ?thesis using ag by (simp add: agree_def del: view_simps)
  qed
  have "image_at sha p K ?t" by (rule keepsD [OF image_OciImage_Close [OF i] im])
  moreover have "one_name ?t" by (rule keepsD [OF copies.images(3) one])
  moreover have "root_is R ?t" by (rule keepsD [OF more_root [OF oci_more(3)] r])
  ultimately show ?thesis using s by (simp add: seeded_def b l del: view_simps)
qed

lemma safe_Close:
  fixes s :: "'z bt_scheme"
  shows "oci_session sha p tag i \<Longrightarrow> safe_image sha p K s \<Longrightarrow> safe_image sha p K (snd (OciImage_Close i s))"
  unfolding safe_image_def using keepsD [OF image_OciImage_Close] keepsD [OF copies.images(3)] by blast

lemma seed_download:
  assumes L: "ParseImageName L source = Inr ref" "NewImage ref (getSystemContext ctx) = Inr img"
    and dst: "buildOciDestFromReference (c_Root cfg) ref = Inr (p, tag)"
    and sha: "sha_ok (lib_sha L)" and cfg: "\<not> c_UseHardlink cfg"
    and s: "safe_image (lib_sha L) p K s" "root_is R s" and B: "B = {h. view s (blob_file p h) \<noteq> None}"
    and call: "startSeederDownload cfg L ctx source s = (r, t)"
  shows "safe_image (lib_sha L) p K t"
    "r = Inr () \<Longrightarrow> (\<And>h. name_ok h \<Longrightarrow> \<not> prefix (comps p) (layer_file R h)) \<Longrightarrow>
      seeded (lib_sha L) p R B (K \<union> hashes (map bi_Digest (LayerInfos img))) t"
proof -
  let ?K = "K \<union> hashes (map bi_Digest (LayerInfos img))" and ?sha = "lib_sha L"
  have "safe_image ?sha p K t \<and> (r = Inr () \<longrightarrow> (\<forall>h. name_ok h \<longrightarrow> \<not> prefix (comps p) (layer_file R h)) \<longrightarrow> seeded ?sha p R B ?K t)"
  proof (cases "source = [] \<or> isl (NewImageSource ref (getSystemContext ctx) ociSupportedManifestMIMETypes)")
    case True
    then show ?thesis
      using s(1) call L
      by (cases "NewImageSource ref (getSystemContext ctx) ociSupportedManifestMIMETypes")
        (auto simp: startSeederDownload_def Let_def run bindE_def wrapE_def catchE_def tryE_def split: if_splits)
  next
    case False
    then obtain src where src: "NewImageSource ref (getSystemContext ctx) ociSupportedManifestMIMETypes = Inr src" "source \<noteq> []"
      by (cases "NewImageSource ref (getSystemContext ctx) ociSupportedManifestMIMETypes") auto
    have run': "startSeederDownload cfg L ctx source s =
        bindE (newOciImage (c_Root cfg) ref) (\<lambda>i. deferE (OciImage_Close i) (forE (LayerInfos img) (seed_layer cfg L i src))) s"
      using src L by (simp add: startSeederDownload_def Let_def bindE_def wrapE_def catchE_def tryE_def run)
    note op = seeded_open [OF dst sha B s]
    show ?thesis
    proof (cases "newOciImage (c_Root cfg) ref s")
      case (Pair q u)
      show ?thesis
      proof (cases q)
        case (Inl x)
        then show ?thesis using op call Pair by (auto simp: run' bindE_def)
      next
        case (Inr i)
        then have i: "oci_session ?sha p tag i" and u: "seeded ?sha p R B K u" using op Pair by auto
        then have e: "session ?sha p (oi_layout i)" by (simp add: oci_session_def)
        note tr = seed_layers_triple [OF e cfg, where R = R and B = B and K = K and ls = "LayerInfos img" and src = src]
        obtain y v where y: "forE (LayerInfos img) (seed_layer cfg L i src) u = (y, v)" by fastforce
        have t: "r = y" "t = snd (OciImage_Close i v)"
          using call Pair Inr y by (auto simp: run' bindE_def deferE_def split: sum.splits)
        show ?thesis
        proof (cases y)
          case (Inl x)
          then show ?thesis using tripleD_Inl [OF tr u] y t by (auto intro: safe_Close [OF i])
        next
          case (Inr z)
          then have v: "seeded ?sha p R B ?K v" using tripleD_Inr [OF tr u] y by simp
          show ?thesis using seeded_Close [OF i v] safe_Close [OF i seeded_safe [OF v]] by (auto simp: t)
        qed
      qed
    qed
  qed
  then show "safe_image ?sha p K t"
    "r = Inr () \<Longrightarrow> (\<And>h. name_ok h \<Longrightarrow> \<not> prefix (comps p) (layer_file R h)) \<Longrightarrow> seeded ?sha p R B ?K t" by auto
qed

text \<open>C3. A seeder's download, in copying mode: whatever the registry delivers, whatever digests the manifest names and
  whatever fails, every blob of the image keeps hashing to its name, no stored blob is lost and no two files share their
  bytes; and when the handler returns success, every layer is in the image with the content its digest asks for, and
  each of them the image did not have before is in the engine's directory, under its ID, with the same content.\<close>

theorem seed_complete:
  assumes "libs_ok L" "\<not> c_UseHardlink cfg"
    and "ParseImageName L source = Inr ref" "NewImage ref (getSystemContext ctx) = Inr img"
    and "buildOciDestFromReference (c_Root cfg) ref = Inr (p, tag)"
    and "image_at (lib_sha L) p K s" "one_name s"
    and "\<And>h. name_ok h \<Longrightarrow> \<not> prefix (comps p) (comps (GetFilePath (engine s) h))"
    and "startSeederDownload cfg L ctx source s = (r, t)"
  shows "image_at (lib_sha L) p K t \<and> one_name t \<and>
    (r = Inr () \<longrightarrow>
       (\<forall>l \<in> set (LayerInfos img). \<forall>h. name_ok h \<and> bi_Digest l = digest_of h \<longrightarrow>
          (\<exists>c. view t (blob_file p h) = Some (Some c) \<and> bi_Digest l = blob_digest (lib_sha L) c \<and>
            (view s (blob_file p h) = None \<longrightarrow> view t (comps (GetFilePath (engine t) h)) = Some (Some c)))))"
proof -
  let ?R = "e_rootDir (engine s)" and ?B = "{h. view s (blob_file p h) \<noteq> None}"
  have sha: "sha_ok (lib_sha L)" using assms(1) by (simp add: libs_ok_def)
  have s: "safe_image (lib_sha L) p K s" "root_is ?R s" using assms(6,7) by (simp_all add: safe_image_def root_is_def)
  note D = seed_download [OF assms(3,4,5) sha assms(2) s refl assms(9)]
  have ap: "\<not> prefix (comps p) (layer_file ?R h)" if "name_ok h" for h
    using assms(8) [OF that] engine_files(1) [OF that] by simp
  have layer: "\<exists>c. view t (blob_file p h) = Some (Some c) \<and> bi_Digest l = blob_digest (lib_sha L) c \<and>
      (view s (blob_file p h) = None \<longrightarrow> view t (comps (GetFilePath (engine t) h)) = Some (Some c))"
    if r: "r = Inr ()" and l: "l \<in> set (LayerInfos img)" "name_ok h" "bi_Digest l = digest_of h" for l h
  proof -
    have t: "seeded (lib_sha L) p ?R ?B (K \<union> hashes (map bi_Digest (LayerInfos img))) t" by (rule D(2) [OF r ap])
    have "digest_of h \<in> set (map bi_Digest (LayerInfos img))" unfolding l(3) [symmetric] using l(1) by simp
    then have "Blob h \<in> hashes (map bi_Digest (LayerInfos img))" using l(2) by (simp add: hashes_def)
    then have "view t (blob_file p h) \<noteq> None" "view t (blob_file p h) \<noteq> Some None"
      using t l(2) by (auto simp: seeded_def image_at_def simp del: view_simps)
    then obtain c where c: "view t (blob_file p h) = Some (Some c)" by (cases "view t (blob_file p h)") auto
    then have "h = hex_encode (lib_sha L c)" using t l(2) unfolding seeded_def image_at_def by blast
    moreover have "comps (GetFilePath (engine t) h) = layer_file ?R h"
      using t engine_files(1) [OF l(2)] by (simp add: seeded_def root_is_def)
    moreover have "view t (layer_file ?R h) = Some (Some c)" if "view s (blob_file p h) = None"
      using t c l(2) that by (simp add: seeded_def del: view_simps)
    ultimately show ?thesis using c l(3) by (simp add: blob_digest_def del: view_simps)
  qed
  show ?thesis using D(1) layer by (simp add: safe_image_def del: view_simps)
qed

section \<open>An example\<close>

lemma more_after:
  assumes "\<And>M. keeps (\<lambda>s. fs.more s = M) m" "m s = (r, t)"
  shows "fs.more t = fs.more s"
proof -
  have "fs.more (snd (m s)) = fs.more s" by (rule keepsD [OF assms(1)]) (rule refl)
  then show ?thesis using assms(2) by simp
qed

text \<open>A layer that is not in the image yet, seeded before: with no fault it is copied and its start counted.\<close>

lemma seed_layer_fresh:
  fixes t :: "'z bt_scheme"
  assumes rd: "ready p (oi_layout i) V" and sha: "sha_ok (lib_sha L)" and cfg: "\<not> c_UseHardlink cfg"
    and l: "bi_Digest l = blob_digest (lib_sha L) c" "src (bi_Digest l) = Inr (c, None)" and h: "h = hex_encode (lib_sha L c)"
    and V: "V (blob_file p h) = None" "V (layer_file R h) = None" "V (engine_dir R ''data'') = Some None"
    and t: "fs_st True V t" "root_is R t" "e_started (engine t)" "info_of t h = Some a" "ii_Started a"
  shows "\<exists>u. seed_layer cfg L i src l t = (Inr (), u)"
proof -
  let ?e = "oi_layout i" and ?b = "blob_file p h" and ?f = "layer_file R h"
  let ?V = "V(?b \<mapsto> Some c)"
  have e: "layout_ok ?e" "l_path ?e = p" "layout_dirs ?e V" and free: "\<And>x. V (comps (l_temp ?e) @ [x]) = None"
    using rd by (auto simp: ready_def)
  have ok: "name_ok h" unfolding h by (rule name_ok_sha [OF sha])
  have d: "bi_Digest l = digest_of h" using l(1) h by (simp add: blob_digest_def)
  note ex = Exist_triple [OF e(1) ok, where c = True and V = V]
  obtain t1 where x: "Exist ?e (digest_of h) t = (Inr False, t1)" and t1: "fs_st True V t1"
  proof (cases "Exist ?e (digest_of h) t")
    case (Pair r u)
    show ?thesis
    proof (cases r)
      case (Inl y)
      then show ?thesis using tripleD_Inl [OF ex t(1)] Pair e by auto
    next
      case (Inr b)
      then have "Exist ?e (digest_of h) t = (Inr b, u)" using Pair by simp
      from tripleD_Inr [OF ex t(1) this] V(1) e(2) have "\<not> b" "fs_st True V u" by auto
      then show ?thesis using that Pair Inr by simp
    qed
  qed
  note put = PutBlob_triple [OF e(1) sha, where c = True and V = V and d = c and err = None, simplified]
  have pre: "fs_st True V t1 \<and> layout_dirs ?e V \<and> temp_free ?e ''blob-'' V t1 \<and> V (blob_file (l_path ?e) (hex_encode (lib_sha L c))) \<noteq> Some None"
    using t1 e V(1) free h by (auto simp: temp_free_def intro: exI [of _ 0])
  obtain n t2 where p: "PutBlob (lib_sha L) ?e (c, None) t1 = (Inr (digest_of h, n), t2)" and t2: "fs_st True ?V t2"
  proof (cases "PutBlob (lib_sha L) ?e (c, None) t1")
    case (Pair r u)
    show ?thesis
    proof (cases r)
      case (Inl y)
      then show ?thesis using tripleD_Inl [OF put] pre Pair e(2) by (auto simp: h)
    next
      case (Inr y)
      then have "PutBlob (lib_sha L) ?e (c, None) t1 = (Inr (fst y, snd y), u)" using Pair by simp
      from tripleD_Inr [OF put _ this] pre e(2) have "fst y = digest_of h" "fs_st True ?V u" by (auto simp: h blob_digest_def)
      then show ?thesis using that [of "snd y" u] Pair Inr by (cases y) simp
    qed
  qed
  have m2: "fs.more t2 = fs.more t"
  proof -
    have "fs.more t1 = fs.more t" by (rule more_after [OF layout_more(2) x])
    moreover have "fs.more t2 = fs.more t1" by (rule more_after [OF layout_more(1) p])
    ultimately show ?thesis by simp
  qed
  have fn: "comps (GetFilePath (engine u) h) = ?f" if "fs.more u = fs.more t" for u :: "'z bt_scheme"
    using engine_files(1) [OF ok] more_eqD(4) [OF that] t(2) by (simp add: root_is_def)
  let ?fn = "GetFilePath (engine t2) h"
  have f: "comps ?fn = ?f" by (rule fn [OF m2])
  have fV: "?V ?f = None" "?V (butlast ?f) = Some None"
  proof -
    have "?f \<noteq> ?b" by simp
    then show "?V ?f = None" using V(2) by simp
    have "engine_dir R ''data'' \<noteq> ?b" using V(1,3) by auto
    then show "?V (butlast ?f) = Some None" using V(3) by (simp add: layer_file_def)
  qed
  note cr = os_Create_triple [where V = ?V and p = ?fn and c = True]
  obtain j t3 where c3: "os_Create ?fn t2 = (Inr j, t3)" and t3: "temp_st True ?V ?f j [] t3"
  proof (cases "os_Create ?fn t2")
    case (Pair r u)
    show ?thesis
    proof (cases r)
      case (Inl y)
      then show ?thesis using tripleD_Inl [OF cr t2] Pair fV by (auto simp: f)
    next
      case (Inr y)
      then show ?thesis using tripleD_Inr [OF cr t2] Pair fV that by (auto simp: f)
    qed
  qed
  let ?W = "?V(?f \<mapsto> Some [])"
  note gb = GetBlob_triple [OF e(1) ok, where c = True and V = ?W]
  have s3: "fs_st True ?W t3" using temp_st_fs_st [OF t3] .
  obtain nd t4 where c4: "GetBlob ?e (digest_of h) t3 = (Inr nd, t4)" and t4: "fs_st True ?W t4" "node_at t4 ?b = Some nd"
  proof (cases "GetBlob ?e (digest_of h) t3")
    case (Pair r u)
    show ?thesis
    proof (cases r)
      case (Inl y)
      then show ?thesis using tripleD_Inl [OF gb s3] Pair e(2) by auto
    next
      case (Inr y)
      then show ?thesis using tripleD_Inr [OF gb s3] Pair e(2) that by auto
    qed
  qed
  have "view t4 ?b = Some (Some c)" using t4(1) by (simp add: fs_st_def del: view_simps)
  then obtain k where nd: "nd = File k" "inodes t4 k = c" using t4(2) by auto
  have "faults t4 = []" using t4(1) by (simp add: fs_st_def)
  then have c5: "file_reader nd t4 = (Inr (c, None), t4)" "io_Copy j (c, None) t4 = (Inr (), append_to j c t4)"
    by (simp_all add: nd file_reader_def io_Copy_def file_Write_def run)
  let ?t5 = "append_to j c t4"
  have m5: "fs.more ?t5 = fs.more t"
  proof -
    have "fs.more t3 = fs.more t2" by (rule more_after [OF sys_more(4) c3])
    moreover have "fs.more t4 = fs.more t3" by (rule more_after [OF layout_more(3) c4])
    ultimately show ?thesis using m2 by simp
  qed
  have eng: "e_started (engine ?t5)" "info_of ?t5 h = Some a" using more_eqD(4) [OF m5] t(3,4) by simp_all
  obtain u where c6: "StartSeed (lib_torrent L) h ?t5 = (Inr (), u)"
    using eng t(5) by (auto simp: StartSeed_def when_started_def run)
  have hex: "Digest_Hex (digest_of h) = Inr h" by (simp add: Digest_Hex_def BlobAlgorithm_def)
  have "copyLayer L i src l t1 = (Inr (), t2)"
    using p l(2) d by (simp add: copyLayer_def run wrapE_run)
  moreover have "startSeedingLayer cfg L i (digest_of h) t2 = (Inr (), u)"
    using cfg c3 c4 c5 c6 by (simp add: startSeedingLayer_def hex run wrapE_run catchE_def tryE_def bindE_def)
  ultimately show ?thesis using x d by (simp add: seed_layer_def run wrapE_def catchE_def tryE_def bindE_def)
qed

text \<open>The daemon of \<open>Daemon_Demo\<close> with the layer's ID seeded already, its image empty.\<close>

definition demo_seeding :: bt where
  "demo_seeding = set_idInfo (hex_encode (demo_sha ''abc''))
     \<lparr>ii_Id = hex_encode (demo_sha ''abc''), ii_InfoHash = [], ii_Started = True, ii_Count = 0\<rparr> demo_daemon"

lemma demo_seeding_disk:
  "tree demo_seeding = tree demo_daemon" "inodes demo_seeding = inodes demo_daemon" "next_ino demo_seeding = next_ino demo_daemon"
  "rnd demo_seeding = (\<lambda>n. replicate n CHR ''0'')" "faults demo_seeding = []"
  by (simp_all add: demo_seeding_def set_idInfo_def upd_engine_def)

lemma demo_seeding_node: "node_at demo_seeding = node_at demo_daemon"
  by (rule node_at_cong [OF demo_seeding_disk(1)])

lemma demo_seeding_wf: "wf_fs demo_seeding"
  using demo_daemon_wf by (simp add: wf_fs_def demo_seeding_disk demo_seeding_node)

lemma demo_seeding_one: "one_name demo_seeding"
  by (rule one_name_disk [OF _ _ _ demo_daemon_one]) (simp_all add: demo_seeding_disk)

lemma demo_seeding_image: "image_at demo_sha demo_path {} demo_seeding"
proof -
  have "view demo_seeding (blob_file demo_path h) = None" "view demo_seeding (ref_file demo_path n) = None"
    "view demo_seeding (comps demo_path @ [blobDirectory]) = Some None" for h n
    by (simp_all add: demo_seeding_node demo_daemon_nodes)
  then show ?thesis by (simp add: image_at_def demo_seeding_wf whole_image_def del: view_simps)
qed

lemma demo_layer_file: "layer_file ''root'' h = [''root'', ''data'', h @ ''.layer'']"
proof -
  have "comps (Clean ''root'') = [''root'']" by code_simp
  then show ?thesis by (simp add: layer_file_def engine_dir_def)
qed

lemma demo_seeding_engine:
  "e_rootDir (engine demo_seeding) = ''root''" "e_started (engine demo_seeding)"
  "info_of demo_seeding (hex_encode (demo_sha ''abc'')) =
     Some \<lparr>ii_Id = hex_encode (demo_sha ''abc''), ii_InfoHash = [], ii_Started = True, ii_Count = 0\<rparr>"
  by (simp_all add: demo_seeding_def set_idInfo_def)

lemma demo_seeding_run:
  "\<exists>t. startSeederDownload (demo_cfg\<lparr>c_BtSeeder := True\<rparr>) demo_libs (\<lambda>_. None) ''docker://x:v1'' demo_seeding = (Inr (), t)"
proof -
  let ?c = "demo_cfg\<lparr>c_BtSeeder := True\<rparr>" and ?h = "hex_encode (demo_sha ''abc'')"
  have p: "image_paths demo_path" unfolding image_paths_def by code_simp
  have d: "comps (filepath_Dir demo_path) = [''root'', ''oci'', ''library'']" by code_simp
  have "node_at demo_seeding [''root'', ''oci'', ''library''] = Some Dir"
    unfolding demo_seeding_node by (simp add: node_at_def demo_daemon_tree)
  then have par: "has_parent (view demo_seeding) demo_path" by (simp add: has_parent_def d demo_comps_path)
  have "node_at demo_seeding (comps demo_path @ [''tmp-'']) = None"
    unfolding demo_seeding_node demo_comps_path by (simp add: node_at_def demo_daemon_tree)
  then have free: "names_left demo_path (view demo_seeding) demo_seeding"
    by (auto simp: names_left_def demo_seeding_disk intro: exI [of _ 0])
  have st: "fs_st True (view demo_seeding) demo_seeding" by (simp add: fs_st_def demo_seeding_wf demo_seeding_disk)
  have dirs: "view demo_seeding (comps demo_path) = Some None" "view demo_seeding (comps demo_path @ [layoutFile]) \<noteq> None"
    "view demo_seeding (comps demo_path @ [blobDirectory, BlobAlgorithm]) = Some None"
    "view demo_seeding (comps demo_path @ [refDirectory]) = Some None"
    by (simp_all add: demo_seeding_node demo_daemon_nodes)
  obtain e t where o: "Open demo_path demo_seeding = (Inr e, t)" "opens demo_path (view demo_seeding) e t"
    by (rule Open_total [OF p par dirs(1,2) st free])
  let ?V = "(view demo_seeding)(comps (l_temp e) \<mapsto> None)"
  have rd: "ready demo_path e ?V" by (rule opens_ready [OF o(2) demo_seeding_wf refl dirs(3,4)])
  have s: "fs_st True ?V t" using o(2) by (simp add: opens_def)
  have m: "fs.more t = fs.more demo_seeding" by (rule more_after [OF Open_more o(1)])
  let ?i = "\<lparr>oi_path = demo_path, oi_ref = ''v1'', oi_layout = e\<rparr>"
  obtain sfx where tmp: "comps (l_temp e) = comps demo_path @ [''tmp-'' @ sfx]"
    using rd by (auto simp: ready_def layout_ok_def)
  have "length ?h = 64" using demo_sha_ok by (simp add: sha_ok_def)
  then have "?h \<noteq> ''a''" "?h \<noteq> ''b''" by (auto simp del: length_hex_encode)
  moreover have "comps (Clean ''root'') = [''root'']" by code_simp
  ultimately have V: "?V (blob_file demo_path h) = None" "?V (layer_file ''root'' h) = None" "?V (engine_dir ''root'' ''data'') = Some None"
    if "h = ?h" for h
    using that by (simp_all add: tmp demo_comps_path demo_files demo_layer_file demo_seeding_node engine_dir_def)
      (simp_all add: node_at_def demo_daemon_tree append_eq_Cons_conv)
  have eng: "root_is ''root'' t" "e_started (engine t)" "info_of t ?h = Some \<lparr>ii_Id = ?h, ii_InfoHash = [], ii_Started = True, ii_Count = 0\<rparr>"
    using more_eqD(4) [OF m] demo_seeding_engine by (simp_all add: root_is_def)
  have "\<exists>u. seed_layer ?c demo_libs ?i (\<lambda>_. Inr (''abc'', None)) \<lparr>bi_Digest = demo_digest, bi_Size = 3\<rparr> t = (Inr (), u)"
    by (rule seed_layer_fresh [where c = "''abc''" and h = ?h and V = ?V, OF _ _ _ _ _ _ V s eng])
      (use rd in \<open>simp_all add: demo_libs_def demo_sha_ok demo_cfg_def demo_digest_def\<close>)
  then obtain u where u: "seed_layer ?c demo_libs ?i (\<lambda>_. Inr (''abc'', None)) \<lparr>bi_Digest = demo_digest, bi_Size = 3\<rparr> t = (Inr (), u)" ..
  have L: "ParseImageName demo_libs ''docker://x:v1'' = Inr (demo_ref ''x'')" "NewImage (demo_ref ''x'') x = Inr demo_img"
    "NewImageSource (demo_ref ''x'') x ts = Inr (\<lambda>_. Inr (''abc'', None))" for x ts
    by (simp_all add: demo_names demo_ref_def)
  have root: "c_Root ?c = ''root''" by (simp add: demo_cfg_def)
  have "newOciImage ''root'' (demo_ref ''x'') demo_seeding = (Inr ?i, t)"
    using o(1) by (simp add: newOciImage_def demo_dest run)
  then show ?thesis using u by (simp add: startSeederDownload_def Let_def L root demo_img_def deferE_def run)
qed

theorem seed_complete_witness:
  "\<exists>t. startSeederDownload (demo_cfg\<lparr>c_BtSeeder := True\<rparr>) demo_libs (\<lambda>_. None) ''docker://x:v1'' demo_seeding = (Inr (), t) \<and>
     (\<exists>c. view t (blob_file demo_path (hex_encode (demo_sha ''abc''))) = Some (Some c) \<and>
       view t (comps (GetFilePath (engine t) (hex_encode (demo_sha ''abc'')))) = Some (Some c)) \<and> one_name t"
proof -
  let ?c = "demo_cfg\<lparr>c_BtSeeder := True\<rparr>" and ?h = "hex_encode (demo_sha ''abc'')"
  obtain t where run: "startSeederDownload ?c demo_libs (\<lambda>_. None) ''docker://x:v1'' demo_seeding = (Inr (), t)"
    using demo_seeding_run by blast
  have L: "ParseImageName demo_libs ''docker://x:v1'' = Inr (demo_ref ''x'')" "NewImage (demo_ref ''x'') x = Inr demo_img" for x
    by (simp_all add: demo_names demo_ref_def)
  have dst: "buildOciDestFromReference (c_Root ?c) (demo_ref ''x'') = Inr (demo_path, ''v1'')"
    by (simp add: demo_cfg_def demo_dest)
  have link: "\<not> c_UseHardlink ?c" and sha: "lib_sha demo_libs = demo_sha" by (simp_all add: demo_cfg_def demo_libs_def)
  have apart: "\<not> prefix (comps demo_path) (comps (GetFilePath (engine demo_seeding) h))" if "name_ok h" for h
    by (simp add: engine_files(1) [OF that] demo_seeding_engine demo_layer_file demo_comps_path)
  note got = seed_complete [OF demo_libs_laws link L dst demo_seeding_image [folded sha] demo_seeding_one apart run]
  have h: "name_ok ?h" by (rule name_ok_sha [OF demo_sha_ok])
  have l: "\<lparr>bi_Digest = demo_digest, bi_Size = 3\<rparr> \<in> set (LayerInfos demo_img)" "demo_digest = digest_of ?h"
    by (simp_all add: demo_img_def demo_digest_def blob_digest_def)
  have "view demo_seeding (blob_file demo_path ?h) = None" by (simp add: demo_seeding_node demo_daemon_nodes)
  then have "\<exists>c. view t (blob_file demo_path ?h) = Some (Some c) \<and> view t (comps (GetFilePath (engine t) ?h)) = Some (Some c)"
    using got l h by (fastforce simp del: view_simps)
  then show ?thesis using run got by blast
qed

section \<open>All requests\<close>

lemma image_seeder:
  fixes s :: "'z bt_scheme"
  assumes "about cfg L p source" "sha_ok (lib_sha L)" "\<not> c_UseHardlink cfg" "safe_image (lib_sha L) p K s"
  shows "image_at (lib_sha L) p K (snd (startSeederDownload cfg L ctx source s))"
proof (cases "\<exists>ref img q. ParseImageName L source = Inr ref \<and> NewImage ref (getSystemContext ctx) = Inr img \<and>
    buildOciDestFromReference (c_Root cfg) ref = Inr q")
  case True
  then obtain ref img p' tag where r: "ParseImageName L source = Inr ref" "NewImage ref (getSystemContext ctx) = Inr img"
    "buildOciDestFromReference (c_Root cfg) ref = Inr (p', tag)" by fastforce
  then have "p' = p" using assms(1) by (auto simp: about_def)
  then have d: "buildOciDestFromReference (c_Root cfg) ref = Inr (p, tag)" using r(3) by simp
  obtain q t where call: "startSeederDownload cfg L ctx source s = (q, t)" by fastforce
  have "root_is (e_rootDir (engine s)) s" by (simp add: root_is_def)
  from seed_download(1) [OF r(1,2) d assms(2,3,4) this refl call] show ?thesis using call by (simp add: safe_image_def)
next
  case False
  have "snd (startSeederDownload cfg L ctx source s) = s"
    using False unfolding startSeederDownload_def Let_def newOciImage_def
    by (cases "ParseImageName L source"; cases "NewImage (projr (ParseImageName L source)) (getSystemContext ctx)";
        cases "buildOciDestFromReference (c_Root cfg) (projr (ParseImageName L source))")
      (auto simp: run wrapE_def catchE_def tryE_def bindE_def liftE_def split: sum.splits prod.splits)
  then show ?thesis using assms(4) by (simp add: safe_image_def)
qed

lemma safe_apiServer:
  fixes env :: "'z bt_scheme \<Rightarrow> 'z bt_scheme"
  assumes "libs_ok L" "\<not> c_UseHardlink cfg" "untouched p env" "\<And>u. one_name u \<Longrightarrow> one_name (env u)"
    and "lasting K" "\<And>x. source_of q = Some x \<Longrightarrow> about cfg L p x"
  shows "keeps (safe_image (lib_sha L) p K) (apiServer cfg L commit env fuel q)"
proof (rule keepsI)
  fix s :: "'z bt_scheme" assume s: "safe_image (lib_sha L) p K s"
  then have im: "image_at (lib_sha L) p K s" and one: "one_name s" by (simp_all add: safe_image_def)
  have l: "sha_ok (lib_sha L)" "codec_ok (desc_enc L) (desc_dec L)" using assms(1) by (auto simp: libs_ok_def)
  have "one_name (snd (apiServer cfg L commit env fuel q s))"
    by (rule keepsD [OF copies.api [OF _ assms(4)] one]) (use assms(2) in auto)
  moreover have "image_at (lib_sha L) p K (snd (apiServer cfg L commit env fuel q s))"
  proof (cases "c_BtSeeder cfg \<and> (\<exists>ctx r. q = StartRequest ctx r)")
    case True
    then obtain ctx r where q: "q = StartRequest ctx r" by blast
    have "image_at (lib_sha L) p K (snd (startSeederDownload cfg L ctx (sd_Source r) s))"
      by (rule image_seeder [OF assms(6) l(1) assms(2) s]) (simp add: q)
    moreover have "snd (apiServer cfg L commit env fuel q s) \<in> {s, snd (startSeederDownload cfg L ctx (sd_Source r) s)}"
      using True by (auto simp: q apiServer_def StartDownload_def Let_def whenE_def liftE_def bindE_def returnE_def
          split: sum.splits prod.splits)
    ultimately show ?thesis using im by auto
  next
    case False
    have "keeps (image_at (lib_sha L) p K) (apiServer cfg L commit env fuel q)"
      unfolding apiServer_def using assms(6) False
      by (cases q) (auto intro!: keeps_bind keeps_simple image_StopDownload image_Status image_GetTorrent
          image_StartDownload l assms(2,3,5))
    then show ?thesis by (rule keepsD [where I = "image_at (lib_sha L) p K", OF _ im])
  qed
  ultimately show "safe_image (lib_sha L) p K (snd (apiServer cfg L commit env fuel q s))" by (simp add: safe_image_def)
qed

text \<open>With an environment that leaves the image alone in every state.\<close>

lemma requests_untouched:
  assumes "libs_ok L" "\<not> c_UseHardlink cfg" "untouched p env"
    and "\<And>u. bt_inv u \<Longrightarrow> bt_inv (env u)" "\<And>u. one_name u \<Longrightarrow> one_name (env u)"
    and "\<And>q x. q \<in> set qs \<Longrightarrow> source_of q = Some x \<Longrightarrow> about cfg L p x \<or> elsewhere cfg L p x"
    and "lasting K" "image_at (lib_sha L) p K s" "one_name s" "bt_inv s" "served cfg L commit env s qs t"
  shows "image_at (lib_sha L) p K t \<and> one_name t \<and> bt_inv t"
proof -
  have "safe_image (lib_sha L) p K t \<and> bt_inv t"
    using assms(11,6)
  proof (induction rule: served.induct)
    case (request qs t fuel q r u)
    then have I: "safe_image (lib_sha L) p K t" "bt_inv t" by auto
    have ab: "about cfg L p x \<or> elsewhere cfg L p x" if "source_of q = Some x" for x by (rule request.prems [OF _ that]) simp
    have "keeps (safe_image (lib_sha L) p K) (apiServer cfg L commit env fuel q)"
      using ab safe_apiServer [OF assms(1-3,5,7)] safe_elsewhere [OF assms(1-3,5,7)] by (cases "source_of q") fastforce+
    then have "safe_image (lib_sha L) p K (snd (apiServer cfg L commit env fuel q t))" using I(1) by (rule keepsD)
    moreover have "bt_inv (snd (apiServer cfg L commit env fuel q t))"
      by (rule keepsD [OF bt_inv_apiServer [OF assms(1)] I(2)]) (rule assms(4))
    ultimately show ?case using request.hyps(2) by simp
  next
    case (between qs t)
    then show ?case using untouched_image [OF assms(3)] assms(4,5) by (auto simp: safe_image_def)
  qed (use assms(8-10) in \<open>simp add: safe_image_def\<close>)
  then show ?thesis by (simp add: safe_image_def)
qed

text \<open>C2. Over every run of a daemon that copies, as a seeder or a leecher, whatever requests come in whatever order, for
  this image or for others whose directories are not inside its own, whatever fails and whatever bytes the peers send
  the client: every blob of the image hashes to its name, no name is taken by a directory, no two files share their
  bytes, and the engine's registry, cache and client stay consistent. \<open>K\<close> is any set of blobs that are there and of
  references with the content they have, of which no reference has a name that ends in \<open>.layer\<close> or \<open>.torrent\<close>
  (\<open>lasting\<close>): all of them stay. A reference with such a name may be removed: a hostile digest makes the engine take it
  for a file of its own. The other condition is on the torrents: none that the client has been given names a
  file below the image's directory or above the working directory (\<open>clear\<close>), since its storage writes where the names lead.\<close>

theorem requests_safe:
  assumes "libs_ok L" "\<not> c_UseHardlink cfg" "spares p env" "\<And>u. bt_inv u \<Longrightarrow> bt_inv (env u)"
    and "\<And>q x. q \<in> set qs \<Longrightarrow> source_of q = Some x \<Longrightarrow> about cfg L p x \<or> elsewhere cfg L p x"
    and "lasting K" "image_at (lib_sha L) p K s" "one_name s" "bt_inv s" "served cfg L commit env s qs t" "clear p t"
  shows "image_at (lib_sha L) p K t \<and> one_name t \<and> bt_inv t"
proof (rule requests_untouched [OF assms(1,2) guarded_untouched [OF assms(3)]])
  show "bt_inv u \<Longrightarrow> bt_inv (guarded p env u)" for u by (simp add: guarded_def assms(4))
  show "one_name u \<Longrightarrow> one_name (guarded p env u)" for u by (rule guarded_one [OF assms(3)])
  show "served cfg L commit (guarded p env) s qs t" by (rule served_guarded [OF assms(3,2,10,8,11)])
qed (use assms(5-9) in auto)

abbreviation demo_start :: "string \<Rightarrow> api_request" where
  "demo_start x \<equiv> StartRequest (\<lambda>_. None) \<lparr>sd_Source = x, sd_Stdout = [], sd_Stderr = [], sd_Username = [], sd_Password = []\<rparr>"

lemma demo_elsewhere: "elsewhere demo_cfg demo_libs demo_path ''docker://y:v1''" "elsewhere demo_cfg demo_libs demo_path ''y:v1''"
proof -
  have n: "ParseNamed ''x:v1'' = Inr (TaggedRef ''x'' ''v1'')" "ParseNamed ''y:v1'' = Inr (TaggedRef ''y'' ''v1'')" by code_simp+
  have m: "RemoteName (TaggedRef ''x'' ''v1'') = ''library/x''" "RemoteName (TaggedRef ''y'' ''v1'') = ''library/y''" by code_simp+
  have "split_on slash ''library/x'' = [''library'', ''x'']" "split_on slash ''library/y'' = [''library'', ''y'']" by code_simp+
  moreover have "demo_path = Join [ociRootDir (c_Root demo_cfg), RemoteName (TaggedRef ''x'' ''v1'')]"
    using demo_dest(2) by (simp add: buildOciDestSimple_def demo_cfg_def)
  moreover have "SplitN2 ''y:v1'' '':'' = [''y'', ''v1'']" by code_simp
  ultimately show "elsewhere demo_cfg demo_libs demo_path ''docker://y:v1''" "elsewhere demo_cfg demo_libs demo_path ''y:v1''"
    using names_elsewhere [OF ParseNamed_valid [OF n(1)] _ n(2), where L = demo_libs and cfg = demo_cfg and p = demo_path]
    by (simp_all add: m demo_libs_def)
qed

lemma demo_full_one: "one_name demo_full"
proof -
  let ?a = "blob_file demo_path (hex_encode (demo_sha ''abc''))" and ?k = "blob_file demo_path (hex_encode (demo_sha ''m''))"
  let ?r = "ref_file demo_path ''v1''" and ?s1 = "with_file (blob_file demo_path (hex_encode (demo_sha ''m''))) ''m'' demo_stored"
  have b: "butlast (blob_file demo_path h) = comps demo_path @ [blobDirectory, BlobAlgorithm]"
    "butlast ?r = comps demo_path @ [refDirectory]" for h
    by (simp_all add: blob_file_def ref_file_def butlast_append)
  have 1: "one_name ?s1"
    unfolding with_file_def by (rule one_name_put [OF demo_stored_one]) (simp_all add: b demo_stored_nodes demo_other_hash)
  have "comps demo_path @ [refDirectory] \<noteq> ?k" by (simp add: blob_file_def)
  then have "view ?s1 ?r = None" "view ?s1 (butlast ?r) = Some None"
    unfolding b demo_full_steps(2) by (simp_all add: demo_stored_nodes)
  then have "node_at ?s1 ?r = None" "node_at ?s1 (butlast ?r) = Some Dir" by simp_all
  then show ?thesis unfolding demo_full_def by (subst with_file_def) (rule one_name_put [OF 1])
qed

text \<open>The daemon of \<open>Daemon_Stored\<close> with a torrent the client is downloading.\<close>

definition demo_fetching :: bt where
  "demo_fetching = demo_full\<lparr>handles := (\<lambda>_. (newTorrent 0 demo_hash)\<lparr>h_info := Some demo_layer_info\<rparr>), next_handle := 1\<rparr>"

lemma demo_fetching_disk:
  "tree demo_fetching = tree demo_full" "inodes demo_fetching = inodes demo_full" "next_ino demo_fetching = next_ino demo_full"
  "rnd demo_fetching = rnd demo_full" "faults demo_fetching = []"
  by (simp_all add: demo_fetching_def demo_full_steps(6))

lemma demo_fetching_view: "view demo_fetching = view demo_full"
  by (rule view_cong) (simp_all add: demo_fetching_disk)

lemma demo_fetching_inv: "bt_inv demo_fetching"
proof -
  have e: "client_Torrent k x demo_full = None" for k x
    using more_eqD [OF demo_full_steps(5)]
    by (simp add: client_Torrent_def) (simp add: demo_stored_def new_file_def append_to_def set_node_def demo_daemon_def demo_bt_def demo_new_def)
  have "length demo_hash = 20" by (rule demo_mi_simps)
  then show ?thesis
    using demo_full_engine e more_eqD [OF demo_full_steps(5)]
    by (auto simp: demo_fetching_def bt_inv_def handles_ok_def client_Torrent_def newTorrent_def)
qed

lemma demo_fetching_clear: "clear demo_path demo_fetching"
proof -
  have d: "tc_DataDir (cl_config (clients demo_fetching 0)) = ''root/data''"
  proof -
    have "tc_DataDir (torrent_config (NewBtEngine ''root'' [''tr''] None)) = ''root/data''" 
      by (simp add: torrent_config_def NewBtEngine_def) code_simp
    then show ?thesis
      using more_eqD [OF demo_full_steps(5)]
      by (simp add: demo_fetching_def demo_stored_def new_file_def append_to_def set_node_def demo_daemon_def demo_bt_def demo_new_def upd_engine_def)
  qed
  have "comps (fileInfoName ''root/data'' demo_layer_info fi) = [''root'', ''data'', ''a.layer'']"
    if "fi \<in> set (UpvertedFiles demo_layer_info)" for fi
  proof -
    have "fi_Path fi = []" using that by (simp add: UpvertedFiles_def demo_layer_info_def)
    moreover have "comps (Join [''root/data'', ''a.layer'']) = [''root'', ''data'', ''a.layer'']" by code_simp
    ultimately show ?thesis by (simp add: fileInfoName_def demo_layer_info_def)
  qed
  then have "\<not> leads_into demo_path ''root/data'' demo_layer_info"
    by (auto simp: leads_into_def demo_comps_path)
  then show ?thesis using d by (simp add: clear_def storage_dir_def demo_fetching_def newTorrent_def)
qed

text \<open>A download of an image that has all of its layers gives the client nothing.\<close>

lemma demo_fetching_start: "fs.more (snd (apiServer demo_cfg demo_libs ''git'' env n (demo_start ''docker://x:v1'') demo_fetching)) = fs.more demo_fetching"
proof -
  let ?V = "view demo_fetching" and ?M = "fs.more demo_fetching" and ?h = "hex_encode (demo_sha ''abc'')"
  have op: "openable demo_path demo_fetching"
    using demo_full_openable by (simp add: openable_def has_parent_def names_left_def demo_fetching_view demo_fetching_disk del: view_simps)
  have p: "image_paths demo_path" unfolding image_paths_def by code_simp
  have wf: "wf_fs demo_fetching" using demo_full_steps(3) by (simp add: wf_fs_def demo_fetching_disk node_at_cong [OF demo_fetching_disk(1)])
  then have st: "fs_st True ?V demo_fetching" by (simp add: fs_st_def demo_fetching_disk)
  have dirs: "?V (comps demo_path @ [blobDirectory, BlobAlgorithm]) = Some None" "?V (comps demo_path @ [refDirectory]) = Some None"
    unfolding demo_fetching_view demo_full_steps(4,2) by (simp_all add: blob_file_def ref_file_def) (simp_all add: demo_stored_nodes)
  obtain e t where o: "Open demo_path demo_fetching = (Inr e, t)" "opens demo_path ?V e t"
    by (rule Open_total [OF p _ _ _ st]) (use op in \<open>simp_all add: openable_def del: view_simps\<close>)
  let ?W = "?V(comps (l_temp e) \<mapsto> None)" and ?i = "\<lparr>oi_path = demo_path, oi_ref = ''v1'', oi_layout = e\<rparr>"
  have rd: "ready demo_path e ?W" by (rule opens_ready [OF o(2) wf refl dirs])
  have t: "fs_st True ?W t" "fs.more t = ?M"
    using o(2) keepsD [OF Open_more [where M = ?M and p = demo_path], of demo_fetching] o(1) by (simp_all add: opens_def)
  have h: "name_ok ?h" by (rule name_ok_sha [OF demo_sha_ok])
  have b: "?W (blob_file demo_path ?h) \<noteq> None"
  proof -
    have "comps (l_temp e) \<notin> image_keys demo_path" using rd by (auto simp: ready_def layout_ok_def)
    then have "?W (blob_file demo_path ?h) = ?V (blob_file demo_path ?h)" by (metis fun_upd_other key_files(3))
    then show ?thesis unfolding demo_fetching_view demo_full_view by simp
  qed
  have "\<exists>u. leech_layers demo_cfg demo_libs env n reporting ?i (LayerInfos demo_img) t = (Inr True, u) \<and> fs_st True ?W u \<and> fs.more u = fs.more t" for reporting
    by (rule leech_layers_present [OF _ _ _ t(1), where p = demo_path])
      (use rd h b in \<open>auto simp: ready_def session_def demo_libs_def demo_sha_ok demo_img_def demo_digest_def blob_digest_def\<close>)
  then obtain u where u: "leech_layers demo_cfg demo_libs env n False ?i (LayerInfos demo_img) t = (Inr True, u)" "fs.more u = fs.more t"
    by blast
  have L: "ParseImageName demo_libs ''docker://x:v1'' = Inr (demo_ref ''x'')" "NewImage (demo_ref ''x'') c = Inr demo_img" for c
    by (simp_all add: demo_names demo_ref_def)
  have img: "newOciImage (c_Root demo_cfg) (demo_ref ''x'') demo_fetching = (Inr ?i, t)"
    using o(1) by (simp add: newOciImage_def demo_cfg_def demo_dest run)
  let ?rest = "bindE (pull_config demo_libs ?i demo_img) (\<lambda>_.
      bindE (wrapE ''Error reading manifest'' (liftE (ImageManifest demo_img))) (\<lambda>manifest.
      bindE (wrapE ''Error writing manifest'' (putManifest demo_libs ?i manifest)) (\<lambda>_. returnE True)))"
  have "keeps (\<lambda>s. fs.more s = ?M) ?rest" by (intro keep)
  then have "keeps (\<lambda>s. fs.more s = ?M) (deferB (OciImage_Close ?i) ?rest)" by (intro keep)
  then have r: "fs.more (snd (deferB (OciImage_Close ?i) ?rest u)) = ?M" by (rule keepsD) (simp add: u(2) t(2))
  have "startLeecherDownload demo_cfg demo_libs env n False ctx ''docker://x:v1'' demo_fetching = deferB (OciImage_Close ?i) ?rest u" for ctx
    using u(1) by (simp add: startLeecherDownload_def Let_def L img deferB_def run)
  then show ?thesis using r
    by (auto simp: apiServer_def StartDownload_def Let_def demo_cfg_def [THEN arg_cong, of c_BtSeeder] bindE_def run split: prod.splits sum.splits)
qed

theorem requests_safe_witness:
  "\<exists>u. served demo_cfg demo_libs ''git'' (client_write 0 ''evil'' 0) demo_fetching
       [demo_start ''docker://x:v1'', StopRequest ''x:v1'' True, StatusRequest ''y:v1''] u \<and>
     image_at demo_sha demo_path {Blob (hex_encode (demo_sha ''abc'')), Bound ''v1'' (demo_enc demo_man_desc)} u \<and>
     one_name u \<and> bt_inv u"
proof -
  let ?q = "demo_start ''docker://x:v1''" and ?env = "client_write 0 ''evil'' 0"
  let ?qs = "[?q, StopRequest ''x:v1'' True, StatusRequest ''y:v1'']"
  let ?K = "{Blob (hex_encode (demo_sha ''abc'')), Bound ''v1'' (demo_enc demo_man_desc)}"
  obtain r t where 1: "apiServer demo_cfg demo_libs ''git'' ?env 1 ?q demo_fetching = (r, t)" by fastforce
  obtain r' t' where 2: "apiServer demo_cfg demo_libs ''git'' ?env 1 (StopRequest ''x:v1'' True) (?env t) = (r', t')" by fastforce
  obtain r'' u where 3: "apiServer demo_cfg demo_libs ''git'' ?env 1 (StatusRequest ''y:v1'') t' = (r'', u)" by fastforce
  have run: "served demo_cfg demo_libs ''git'' ?env demo_fetching ?qs u"
    using served.request [OF served.request [OF served.between [OF served.request [OF served.start 1]] 2] 3] by simp
  have "clear demo_path t"
    using demo_fetching_start [of ?env 1] 1 clear_more [OF net_eqD [of t demo_fetching]] demo_fetching_clear by simp
  then have c1: "clear demo_path (?env t)" by (simp only: client_write_clear)
  have k: "keeps (clear demo_path) (apiServer demo_cfg demo_libs ''git'' ?env 1 (StopRequest ''x:v1'' True))"
    "keeps (clear demo_path) (apiServer demo_cfg demo_libs ''git'' ?env 1 (StatusRequest ''y:v1''))"
    by (auto simp: apiServer_def intro!: keep clear_requests)
  have c2: "clear demo_path t'" using keepsD [OF k(1) c1] unfolding 2 by (simp only: snd_conv)
  have c: "clear demo_path u" using keepsD [OF k(2) c2] unfolding 3 by (simp only: snd_conv)
  have sha: "lib_sha demo_libs = demo_sha" and mode: "\<not> c_UseHardlink demo_cfg" by (simp_all add: demo_libs_def demo_cfg_def)
  have inv: "bt_inv (?env w)" if "bt_inv w" for w :: bt using bt_inv_more [OF client_write_more] that by blast
  have "image_at (lib_sha demo_libs) demo_path ?K u \<and> one_name u \<and> bt_inv u"
  proof (rule requests_safe [OF demo_libs_laws mode client_write_spares inv])
    have "\<not> suffix ''.layer'' ''v1''" "\<not> suffix ''.torrent'' ''v1''" by (simp_all add: suffix_def append_eq_Cons_conv)
    then show "lasting ?K" using name_ok_sha [OF demo_sha_ok, of "''abc''"] by (auto simp: lasting_def)
    have "view demo_full (blob_file demo_path (hex_encode (demo_sha ''abc''))) \<noteq> None"
      "view demo_full (ref_file demo_path ''v1'') = Some (Some (demo_enc demo_man_desc))"
      unfolding demo_full_view by (simp_all only: simp_thms if_True if_split_eq1 option.distinct)
    then have "image_at demo_sha demo_path ?K demo_full" by (intro image_at_pins [OF demo_full_image]) (auto simp del: view_simps)
    then show "image_at (lib_sha demo_libs) demo_path ?K demo_fetching"
      unfolding sha by (rule image_at_disk [rotated 4]) (simp_all add: demo_fetching_disk)
    show "one_name demo_fetching" by (rule one_name_disk [OF _ _ _ demo_full_one]) (simp_all add: demo_fetching_disk)
    show "bt_inv demo_fetching" by (rule demo_fetching_inv)
    show "served demo_cfg demo_libs ''git'' ?env demo_fetching ?qs u" by (rule run)
    show "clear demo_path u" by (rule c)
    show "about demo_cfg demo_libs demo_path x \<or> elsewhere demo_cfg demo_libs demo_path x"
      if "q \<in> set ?qs" "source_of q = Some x" for q x
      using that demo_about demo_elsewhere by auto
  qed
  then show ?thesis using run sha by auto
qed

end
