(* ===== verification/Cmd_Daemon.thy ===== *)
theory Cmd_Daemon
  imports Api_Server
begin

text \<open>
  The daemon's program, cmd/daemon/main.go: the flags and their defaults, the configuration made of
  them, the start of the daemon and of its server, and the loop of the stack dump. The parser of
  the command line, the listeners and the signals are parameters; \<open>sockets\<close> gives the number of
  listeners made for a protocol and an address.
\<close>

section \<open>Flags\<close>

record daemon_flags =
  f_debug :: bool
  f_root_dir :: string
  f_disable_bt :: bool
  f_bt_seeder :: bool
  f_bt_tracker :: "string list"
  f_seeder_addr :: "string list"
  f_upload_rate :: int
  f_download_rate :: int
  f_listen :: string
  f_conn_timeout :: int
  f_hardlink :: bool

definition defaultRootDir :: string where "defaultRootDir = ''/data/oci-torrentd''"
definition defaultGRPCEndpoint :: string where "defaultGRPCEndpoint = ''unix:///run/oci-torrentd/oci-torrentd.sock''"

text \<open>The flags of an empty command line; durations are in nanoseconds.\<close>

definition daemonFlags :: daemon_flags where
  "daemonFlags =
     \<lparr>f_debug = False, f_root_dir = defaultRootDir, f_disable_bt = False, f_bt_seeder = False, f_bt_tracker = [],
      f_seeder_addr = [], f_upload_rate = 0, f_download_rate = 0, f_listen = defaultGRPCEndpoint,
      f_conn_timeout = 1000000000, f_hardlink = False\<rparr>"

definition app_Version :: "string \<Rightarrow> string" where
  "app_Version commit = (if commit \<noteq> [] then Version @ '' commit: '' @ commit else Version)"

definition flags_config :: "daemon_flags \<Rightarrow> Config" where
  "flags_config f =
     \<lparr>c_Pidfile = [], c_Root = f_root_dir f, c_ConnTimeout = f_conn_timeout f, c_UseHardlink = f_hardlink f,
      c_BtEnable = (\<not> f_disable_bt f), c_BtSeeder = f_bt_seeder f, c_BtTrackers = f_bt_tracker f,
      c_BtSeederServer = f_seeder_addr f, c_UploadRateLimit = f_upload_rate f, c_DownloadRateLimit = f_download_rate f\<rparr>"

section \<open>The server\<close>

definition startServer :: "(string \<Rightarrow> string \<Rightarrow> nat result) \<Rightarrow> string \<Rightarrow> string \<Rightarrow> unit result" where
  "startServer sockets protocol address =
     (case sockets protocol address of
        Inl err \<Rightarrow> Inl err
      | Inr n \<Rightarrow> if n \<noteq> 1 then Inl (Msg ''incorrect number of listeners'') else Inr ())"

text \<open>
  \<open>runDaemon\<close> up to the loop over the signals: the first of them stops the server and ends the
  process with 0; None while there is none and the server goes on.
\<close>

definition runDaemon ::
  "libs \<Rightarrow> (string \<Rightarrow> string \<Rightarrow> nat result) \<Rightarrow> daemon_flags \<Rightarrow> string list \<Rightarrow> ('z bt_scheme, int option) call" where
  "runDaemon L sockets f signals =
     bindE (NewDaemon L (flags_config f)) (\<lambda>_.
     let listenParts = SplitN2 (f_listen f) ''://'' in
     if length listenParts \<noteq> 2 then
       throwE (Msg (''bad listen address format '' @ f_listen f @ '', expected proto://address''))
     else
       bindE (liftE (startServer sockets (listenParts ! 0) (listenParts ! 1))) (\<lambda>_.
       returnE (case signals of [] \<Rightarrow> None | ss # _ \<Rightarrow> Some 0)))"

text \<open>The exit code of the process: \<open>logrus.Fatal\<close> ends it with 1, a panic with 2.\<close>

definition daemon_main ::
  "libs \<Rightarrow> (string \<Rightarrow> string \<Rightarrow> nat result) \<Rightarrow> daemon_flags \<Rightarrow> string list \<Rightarrow> 'z bt_scheme \<Rightarrow> int option \<times> 'z bt_scheme" where
  "daemon_main L sockets f signals s =
     (case runDaemon L sockets f signals s of
        (Inr code, t) \<Rightarrow> (code, t)
      | (Inl err, t) \<Rightarrow> (Some (if is_panic err then 2 else 1), t))"

section \<open>The stack dump\<close>

text \<open>
  \<open>runtime.Stack\<close> fills the buffer with the first bytes of a dump of \<open>needed\<close> bytes; a buffer it
  fills to the end is doubled. The result is the number of bytes dumped.
\<close>

partial_function (option) dump_loop :: "nat \<Rightarrow> nat \<Rightarrow> nat option" where
  "dump_loop needed bufferLen =
     (let stackSize = min needed bufferLen in
      if stackSize = bufferLen then dump_loop needed (bufferLen * 2) else Some stackSize)"

definition dumpStacks :: "nat \<Rightarrow> nat option" where
  "dumpStacks needed = dump_loop needed 16384"

lemma dump_loop_full: "bufferLen > 0 \<Longrightarrow> dump_loop needed bufferLen = Some needed"
proof (induction "Suc needed - bufferLen" arbitrary: bufferLen rule: less_induct)
  case less
  show ?case
  proof (cases "bufferLen \<le> needed")
    case True
    then have "dump_loop needed (bufferLen * 2) = Some needed" using less by (intro less.hyps) auto
    then show ?thesis using True by (subst dump_loop.simps) (auto simp: min_def)
  next
    case False
    then show ?thesis by (subst dump_loop.simps) (simp add: min_def)
  qed
qed

text \<open>The dump ends, and it is complete, however large it is.\<close>

lemma dumpStacks_complete: "dumpStacks needed = Some needed"
  by (simp add: dumpStacks_def dump_loop_full)

section \<open>What the flags make of the daemon\<close>

text \<open>A daemon that starts serves, over the directories of the engine and the images.\<close>

lemma runDaemon_Inr:
  assumes "runDaemon L sockets f signals s = (Inr r, t)"
  shows "NewDaemon L (flags_config f) s = (Inr (), t)" "r \<in> {None, Some 0}"
    "\<exists>a b. SplitN2 (f_listen f) ''://'' = [a, b] \<and> sockets a b = Inr 1"
proof -
  obtain q u where n: "NewDaemon L (flags_config f) s = (q, u)" by fastforce
  have len: "length xs = 2 \<Longrightarrow> xs = [xs ! 0, xs ! 1]" for xs :: "string list"
    by (cases xs; cases "tl xs") auto
  show "NewDaemon L (flags_config f) s = (Inr (), t)" "r \<in> {None, Some 0}"
    using assms n by (auto simp: runDaemon_def bindE_def Let_def run split: sum.splits if_splits list.splits)
  have "length (SplitN2 (f_listen f) ''://'') = 2"
    "startServer sockets (SplitN2 (f_listen f) ''://'' ! 0) (SplitN2 (f_listen f) ''://'' ! 1) = Inr ()"
    using assms n by (auto simp: runDaemon_def bindE_def Let_def run split: sum.splits if_splits)
  then show "\<exists>a b. SplitN2 (f_listen f) ''://'' = [a, b] \<and> sockets a b = Inr 1"
    using len by (auto simp: startServer_def split: sum.splits if_splits)
qed

end
