(* ===== verification/Cmd_Ctr.thy ===== *)
theory Cmd_Ctr
  imports Cmd_Daemon
begin

text \<open>
  The client program, cmd/ctr: its commands from the parsed command line to the request, the call
  of the daemon and what is printed. Client and daemon run on one host over one file system, which
  the FIFOs need; the call of the daemon is the call of its API server. A FIFO is a node without
  content: the copying goroutines of \<open>attachStdio\<close> only print. Cells of the status table are given
  before \<open>tabwriter\<close> aligns them.
\<close>

definition ExitStatusOK :: int where "ExitStatusOK = 0"
definition ExitStatusMissingArg :: int where "ExitStatusMissingArg = 1"

definition TruncateID :: "string \<Rightarrow> string" where
  "TruncateID idn = (let shortLen = 12; shortLen = (if length idn < shortLen then length idn else shortLen) in take shortLen idn)"

section \<open>The FIFOs\<close>

record stdio =
  io_stdin :: string
  io_stdout :: string
  io_stderr :: string

definition no_stdio :: stdio where
  "no_stdio = \<lparr>io_stdin = [], io_stdout = [], io_stderr = []\<rparr>"

definition set_fd :: "string \<Rightarrow> string \<Rightarrow> stdio \<Rightarrow> stdio" where
  "set_fd name path s =
     (if name = ''stdin'' then s\<lparr>io_stdin := path\<rparr>
      else if name = ''stdout'' then s\<lparr>io_stdout := path\<rparr> else s\<lparr>io_stderr := path\<rparr>)"

definition Mkfifo :: "string \<Rightarrow> ('z fs_scheme, unit) call" where
  "Mkfifo path = bindE (create_excl path) (\<lambda>_. returnE ())"

text \<open>The map of the three names is iterated in an order of its own; an error comes with what was made.\<close>

fun make_fifos :: "string \<Rightarrow> string list \<Rightarrow> stdio \<Rightarrow> ('z fs_scheme, stdio \<times> error option) call" where
  "make_fifos tmp [] s = returnE (s, None)"
| "make_fifos tmp (name # names) s =
     (let path = Join [tmp, name] in
      bindE (tryE (Mkfifo path)) (\<lambda>r.
      case r of
        Inl err \<Rightarrow>
          if \<not> os_IsExist err then returnE (s, Some err) else make_fifos tmp names (set_fd name path s)
      | Inr _ \<Rightarrow> make_fifos tmp names (set_fd name path s)))"

definition createStdio :: "string \<Rightarrow> string list \<Rightarrow> ('z fs_scheme, stdio \<times> error option) call" where
  "createStdio tempDir order =
     bindE (tryE (ioutil_TempDir tempDir ''ctr-'')) (\<lambda>r.
     case r of
       Inl err \<Rightarrow> returnE (no_stdio, Some err)
     | Inr tmp \<Rightarrow> make_fifos tmp order no_stdio)"

definition attachStdio :: "stdio \<Rightarrow> ('z fs_scheme, unit) call" where
  "attachStdio s = bindE (os_Open (io_stdout s)) (\<lambda>_. bindE (os_Open (io_stderr s)) (\<lambda>_. returnE ()))"

section \<open>The connection\<close>

text \<open>\<open>fatal\<close> prints its message and panics with the exit code, 1 at each of its calls.\<close>

definition getClient :: "libs \<Rightarrow> string \<Rightarrow> unit result" where
  "getClient L address =
     (let bindParts = SplitN2 address ''://'' in
      if length bindParts \<noteq> 2 then
        Inl (Msg (''bad bind address format '' @ address @ '', expected proto://address''))
      else grpc_Dial L address)"

text \<open>A panic in a handler ends the daemon: the client sees its connection close.\<close>

definition rpc :: "('s, 'a) call \<Rightarrow> ('s, 'a) call" where
  "rpc m s =
     (case m s of
        (Inl err, t) \<Rightarrow> (Inl (if is_panic err then Msg ''transport is closing'' else err), t)
      | (Inr x, t) \<Rightarrow> (Inr x, t))"

section \<open>Commands\<close>

text \<open>The parsed command line: the global address, and a command with its flags and first argument.\<close>

datatype ctr_command =
    StartCommand string bool string string
  | StopCommand string bool
  | StatusCommand string
  | VersionCommand

text \<open>What the client is run against: the daemon's configuration, its libraries, revision and environment.\<close>

record 'z host =
  ho_config :: Config
  ho_libs :: libs
  ho_commit :: string
  ho_env :: "'z bt_scheme \<Rightarrow> 'z bt_scheme"
  ho_fuel :: nat
  ho_tempDir :: string
  ho_order :: "string list"

definition daemon_call :: "'z host \<Rightarrow> api_request \<Rightarrow> ('z bt_scheme, api_response) call" where
  "daemon_call H q = rpc (apiServer (ho_config H) (ho_libs H) (ho_commit H) (ho_env H) (ho_fuel H) q)"

definition startDownloadCommand ::
  "'z host \<Rightarrow> string \<Rightarrow> string \<Rightarrow> bool \<Rightarrow> string \<Rightarrow> string \<Rightarrow> ('z bt_scheme, bool) call" where
  "startDownloadCommand H address img quiet username password =
     (if img = [] then throwE (Msg ''image cannot be empty'')
      else
        bindE (createStdio (ho_tempDir H) (ho_order H)) (\<lambda>(s, err).
        deferB (whenE (io_stdin s \<noteq> []) (os_RemoveAll (filepath_Dir (io_stdin s))))
          (case err of
             Some e \<Rightarrow> throwE e
           | None \<Rightarrow>
               bindE (whenE (\<not> quiet) (attachStdio s)) (\<lambda>_.
               bindE (liftE (getClient (ho_libs H) address)) (\<lambda>_.
               bindE (daemon_call H (StartRequest (\<lambda>_. None)
                 \<lparr>sd_Source = img, sd_Stdout = io_stdout s, sd_Stderr = io_stderr s,
                  sd_Username = username, sd_Password = password\<rparr>)) (\<lambda>r.
               returnE (case r of StartResponse b \<Rightarrow> b | _ \<Rightarrow> True)))))))"

definition stopDownloadCommand :: "'z host \<Rightarrow> string \<Rightarrow> string \<Rightarrow> bool \<Rightarrow> ('z bt_scheme, string list) call" where
  "stopDownloadCommand H address img no_clean =
     (if img = [] then throwE (Msg ''image cannot be empty'')
      else
        bindE (liftE (getClient (ho_libs H) address)) (\<lambda>_.
        bindE (daemon_call H (StopRequest img (\<not> no_clean))) (\<lambda>r.
        returnE (case r of StopResponse ids \<Rightarrow> map (\<lambda>idn. ''Stopped: '' @ idn) ids | _ \<Rightarrow> []))))"

definition status_row :: "LayerDownState \<Rightarrow> string list" where
  "status_row s =
     [TruncateID (ls_Id s), ls_State s, Itoa (ls_Completed s), Itoa (ls_Size s),
      (if ls_Seeding s then ''true'' else ''false'')]"

definition statusCommand :: "'z host \<Rightarrow> string \<Rightarrow> string \<Rightarrow> ('z bt_scheme, string list list) call" where
  "statusCommand H address img =
     (if img = [] then throwE (Msg ''image cannot be empty'')
      else
        bindE (liftE (getClient (ho_libs H) address)) (\<lambda>_.
        bindE (daemon_call H (StatusRequest img)) (\<lambda>r.
        returnE ([''ID'', ''STATE'', ''COMPLETED'', ''TOTALLEN'', ''SEEDING''] #
          (case r of StatusResponse lss \<Rightarrow> map status_row lss | _ \<Rightarrow> [])))))"

definition versionCommand :: "'z host \<Rightarrow> string \<Rightarrow> ('z bt_scheme, string) call" where
  "versionCommand H address =
     bindE (liftE (getClient (ho_libs H) address)) (\<lambda>_.
     bindE (daemon_call H GetServerVersionRequest) (\<lambda>r.
     returnE (case r of
         GetServerVersionResponse major minor patch revision \<Rightarrow>
           ''daemon version '' @ Itoa major @ ''.'' @ Itoa minor @ ''.'' @ Itoa patch @ '' commit: '' @ revision
       | _ \<Rightarrow> [])))"

text \<open>A run of the program: None while it waits, else its exit code with the lines of cells it printed.\<close>

definition ctr_main :: "'z host \<Rightarrow> string \<Rightarrow> ctr_command \<Rightarrow> 'z bt_scheme \<Rightarrow> (int \<times> string list list) option \<times> 'z bt_scheme" where
  "ctr_main H address c s =
     (let done = (\<lambda>(r, t). (case r of
            Inr None \<Rightarrow> None
          | Inr (Some out) \<Rightarrow> Some (ExitStatusOK, out)
          | Inl err \<Rightarrow> Some (if is_panic err then 2 else ExitStatusMissingArg, []), t)) in
      case c of
        StartCommand img quiet username password \<Rightarrow>
          done (bindE (startDownloadCommand H address img quiet username password) (\<lambda>b.
            returnE (if b then Some [] else None)) s)
      | StopCommand img no_clean \<Rightarrow>
          done (bindE (stopDownloadCommand H address img no_clean) (\<lambda>ls. returnE (Some (map (\<lambda>l. [l]) ls))) s)
      | StatusCommand img \<Rightarrow> done (bindE (statusCommand H address img) (\<lambda>rows. returnE (Some rows)) s)
      | VersionCommand \<Rightarrow> done (bindE (versionCommand H address) (\<lambda>l. returnE (Some [[l]])) s))"

section \<open>Credentials\<close>

lemma StartDownload_credentials:
  "StartDownload cfg L env fuel ctx r = StartDownload cfg L env fuel ctx (r\<lparr>sd_Username := u, sd_Password := p\<rparr>)"
  by (simp add: StartDownload_def Let_def)

text \<open>C40. The credentials of a user get lost on the way: \<open>ctr start\<close> with a user name and a password does, to the whole
  state, exactly what it does without them, and ends in the same way, whatever the image, the mode of the daemon, the
  registry and the failures. The context the handler drops would have carried them to the registry.\<close>

theorem credentials_dropped:
  "ctr_main H address (StartCommand img quiet username password) s = ctr_main H address (StartCommand img quiet u p) s \<and>
   DockerAuthConfig (getSystemContext (WithValue (WithValue ctx usernameKey username) passwordKey password)) = Some (username, password)"
proof -
  have "startDownloadCommand H address img quiet username password = startDownloadCommand H address img quiet u p"
  proof -
    have "daemon_call H (StartRequest c \<lparr>sd_Source = img, sd_Stdout = so, sd_Stderr = se, sd_Username = username, sd_Password = password\<rparr>) =
        daemon_call H (StartRequest c \<lparr>sd_Source = img, sd_Stdout = so, sd_Stderr = se, sd_Username = u, sd_Password = p\<rparr>)" for c so se
      using StartDownload_credentials [where cfg = "ho_config H" and L = "ho_libs H" and env = "ho_env H" and fuel = "ho_fuel H" and
          ctx = c and u = u and p = p and
          r = "\<lparr>sd_Source = img, sd_Stdout = so, sd_Stderr = se, sd_Username = username, sd_Password = password\<rparr>"]
      by (simp add: daemon_call_def apiServer_def)
    then show ?thesis unfolding startDownloadCommand_def by (simp cong: option.case_cong)
  qed
  then show ?thesis
    by (simp add: ctr_main_def getSystemContext_def WithValue_def usernameKey_def passwordKey_def Let_def)
qed

section \<open>The printed tables\<close>

lemma TruncateID_length: "length (TruncateID idn) = min 12 (length idn)" "prefix (TruncateID idn) idn"
  by (auto simp: TruncateID_def Let_def take_is_prefix min_def)

end
