(* ===== verification/Spec2Isabelle.thy ===== *)
theory Spec2Isabelle
  imports Oci_Properties Bt_Properties Bt_Registry Bt_Files Bt_Status Bt_Limits Daemon_Status Well_Formed Daemon_Gaps Daemon_Progress Daemon_Copying Cmd_Ctr
begin

text \<open>
  oci-torrent distributes the layers of container images with BitTorrent.

  \<^bold>\<open>The program.\<close> A daemon (cmd/daemon, daemon) answers requests of a client (cmd/ctr) and of other
  daemons over gRPC (api/grpc). As a seeder it copies an image from a registry into an OCI image
  directory (oci), copies each layer to the directory of its BitTorrent engine (bt) and serves it. As a
  leecher it asks the registry for the list of layers, a seeder for the torrent data of each, lets the
  engine download it, copies the file into its own OCI directory and stores configuration and manifest.
  \<open>StopDownload\<close> and \<open>Status\<close> read the stored manifest and go to the engine for each of its layers.

  \<^bold>\<open>State and calls.\<close> A Go function that returns an error is a \<open>call\<close>: a function from a state to
  \<open>error + result\<close> and a state (Prelude). An \<open>error\<close> is one of the program's error values, an errno, a
  message, or \<open>Panic\<close>. \<open>bindE\<close> is sequencing with early return, \<open>wrapE\<close> is \<open>fmt.Errorf\<close> around an
  error, \<open>tryE\<close> and \<open>catchE\<close> inspect one, \<open>deferE\<close> and \<open>deferB\<close> are \<open>defer\<close>. The states grow by record
  extension: \<open>fs\<close> is the file system, \<open>bt_scheme\<close> the file system with the engine, the table of its
  client, the handles of torrents and the pending goroutines. A component's calls hence run unchanged
  in the larger state of the component that uses it.

  \<^bold>\<open>Theories and sources.\<close>
  Prelude: calls, their combinators, Hoare triples (\<open>triple\<close>), preservation (\<open>keeps\<close>).
  Go_Lib: strings, path and path/filepath, encoding/hex, strconv, as far as the program uses them.
  File_System, File_Rules: the system calls of os and io/ioutil with hard links and a schedule of
  faults; their rules over a view of the tree.
  Content_Store: the contracts of an image, as the locales \<open>content_store\<close> and \<open>image_store\<close>.
  Oci_Layout, Oci_Frames, Oci_Properties: oci/layout.go and oci/dir.go.
  Torrent_Client: what bt/engine.go uses of the vendored anacrolix/torrent: torrent files, the builder
  that hashes pieces, the table of torrents, handles, the validation of an info dictionary. Torrent_Storage:
  the client's storage (storage/file.go), which writes the files its torrents name.
  Bt_Engine: bt/engine.go, bt/torrent.go, bt/btprogress.go. Bt_Rules, Bt_Frames: its rules and the frame
  contracts \<open>engine_frame\<close> and \<open>net_frame\<close>. Bt_Properties, Bt_Registry, Bt_Files, Bt_Status, Bt_Limits: its properties.
  Regexp, References, Reference_Grammar: the names of images, from the vendored docker/distribution
  (reference/regexp.go, reference/reference.go, digest) and containers/image (docker/reference):
  expressions with a matcher by derivatives, the grammar and the parser, and what the parser accepts.
  Daemon_Oci: daemon/oci.go with what it uses of the vendored manifests, transports and signatures.
  Daemon: daemon/daemon.go, daemon/remote.go, daemon/config.go. Daemon_Image, Daemon_Rules,
  Daemon_Handlers: the image invariant of the daemon and its preservation by each handler.
  Api_Server: api/grpc/server/server.go, version/version.go, the runs of a server (\<open>served\<close>).
  Daemon_Runs, Daemon_Demo, Daemon_Stored: the fault-free paths of the handlers, two example daemons.
  Disk_Frames, Well_Formed, One_Name, Engine_Files, Daemon_Seeder: what requests keep of the disk, and the
  invariant of a seeder's download. Image_Apart, Image_Names: requests about different images, and the
  name of an image from the client's argument to the directory. Client_Storage: the client's writes beside the
  images, and the runs in which none of its torrents leads into one. Daemon_Properties, Daemon_Requests,
  Daemon_Status, Daemon_Progress, Well_Formed, Daemon_Gaps, Daemon_Copying: the daemon's properties.
  Cmd_Daemon: cmd/daemon/main.go. Cmd_Ctr: cmd/ctr.
  Definitions have the names of the Go functions; a handler whose name two packages share has the
  package in front (\<open>engine_GetTorrent\<close>, \<open>daemon_GetTorrent\<close>), a loop body or a closure a name of its own.

  \<^bold>\<open>The OCI image.\<close> \<open>store_inv\<close>, the invariant of an open image, holds of the directories and of each blob,
  whose content hashes to its name; every operation keeps it under every schedule of faults. With the
  laws of single calls it gives the interpretation \<open>image\<close> of \<open>image_store\<close>, whose lemmas (a blob put is
  the blob read, over later puts and deletes of others; a reference never changes; sessions of calls)
  carry the claims on it: round trips, atomicity of \<open>PutBlob\<close>, progress without faults, \<open>ErrClobber\<close>,
  complete listings, opening and closing. Two claims say where the code falls short: a directory half
  initialised can never be opened again, and the hash part of a digest is not checked.

  \<^bold>\<open>The engine.\<close> \<open>bt_inv\<close> links the registry of IDs, the cache of torrents by info hash, the handles and
  the client's table. The reachable states (\<open>bt_reach\<close> and its runs) interleave calls, goroutines and
  events of peers. \<open>registry_refines\<close> maps each run, operation by operation and with its outcomes, to a run of a
  machine of counted starts (\<open>reg_step\<close>), in which operations and outcomes determine the registry. The claims
  give the effect of each operation on every branch; they include the reference count that is one too
  low, the dropped handle a restart keeps, the two IDs that share a torrent, and limits that never apply.
  \<open>net_frame\<close> states what the operations without files need to keep a property (\<open>engine_frame\<close>, less, is
  enough for those that add no torrent) and \<open>client_frame\<close> extends it to all of them; \<open>disk\<close>, \<open>images\<close>, \<open>nodes\<close>
  and \<open>beside\<close> interpret the first, \<open>resting\<close> the second, \<open>limits\<close> the third.

  \<^bold>\<open>The daemon.\<close> \<open>image_at sha p K\<close> is the image invariant without a session: it carries from one request
  to the next, and \<open>K\<close> pins blobs and references that have to stay (\<open>pin\<close>; over all requests only \<open>lasting\<close> ones:
  the engine can be made to remove a reference whose name ends like its own files). \<open>disk_frame\<close> (Disk_Frames)
  extends \<open>net_frame\<close> to every handler: what the system calls keep,
  all requests keep. \<open>tree\<close> interprets it on the well-formed trees, \<open>copies\<close> (One_Name) on the trees in which
  no two paths lead to one file, which hard links alone break. \<open>leech_complete\<close> and \<open>seed_complete\<close> say what a
  download leaves behind, \<open>requests_safe\<close> that all runs of requests to a daemon that copies keep images and
  engine intact and lose no blob and no lasting reference, whatever registry, seeder and disk do, whatever bytes the
  peers send, and whichever other images the requests are about (\<open>apart\<close>, \<open>elsewhere\<close>). Their condition: no
  torrent the client has been given names a file below the image's directory (\<open>clear\<close>). The client does not check
  the names, and a torrent that does can overwrite blobs. \<open>spares\<close> is what is asked of the environment, and
  Client_Storage proves it of the storage's own write (\<open>client_write_spares\<close>); a run that ends \<open>clear\<close> was so all
  along (\<open>stray\<close>), and up to there it is a run with an environment that leaves the image alone (\<open>untouched\<close>,
  \<open>guarded\<close>, \<open>same_until\<close>, \<open>served_guarded\<close>). Engine_Files shows that writing the
  engine's files changes nothing else (\<open>others\<close>, \<open>beside\<close>), Daemon_Seeder carries it through the loop over
  the layers (\<open>seeded\<close>). \<open>requests_well_formed\<close> has no condition on the mode. A manifest put into an
  image gives its layers back (\<open>manifest_layers\<close>), which \<open>stop_download_effect\<close> and \<open>status_layers\<close> use;
  \<open>stored_requests_succeed\<close> says when both requests answer for all of them (\<open>openable\<close>, \<open>live\<close>).
  \<open>seeder_leaves_no_reference\<close>, \<open>hardlink_unverified\<close> and \<open>credentials_dropped\<close> are what the daemon does not
  keep; the last goes from the client's command line through the API to the registry's context.

  \<^bold>\<open>The names.\<close> \<open>accepts\<close> is the language of an expression, \<open>matches\<close> a matcher that runs, and they agree
  (\<open>matches_iff\<close>). \<open>ReferenceRegexp_submatches\<close> lists the ways the reference expression can split a string;
  there is at most one (\<open>one_reading\<close>), so it does not matter which one Go's matcher prefers.
  \<open>parse_grammar\<close> says that parsing and printing are inverse, \<open>docker_names_agree\<close> that a download and a
  later request of a name mean one directory, \<open>image_below_root\<close> that no name leads out of the daemon's.
  \<open>digest_names_panic\<close> and \<open>registries_share_image\<close> are what the scheme gets wrong.

  \<^bold>\<open>Parameters.\<close> SHA-256, SHA-1, JSON, bencoding, the registry (\<open>newImage\<close>, \<open>newImageSource\<close> and what
  they return), the transports other than docker, the seeder's answer, listeners, the parsed command line. They
  are fields of \<open>libs\<close>, \<open>codec\<close> and \<open>host\<close>. \<open>libs_ok\<close>, \<open>codec_laws\<close> and \<open>sha_ok\<close> state what is documented of
  them: decoding inverts encoding, a hash has its length. JSON is taken to decode every value it encodes; Go's
  encoder replaces invalid UTF-8, which the descriptors and manifests here, ASCII throughout, do not have. Of torrent
  data from elsewhere nothing is assumed: its info dictionary may be missing or not decode. Each claim with a hypothesis is applied to a
  concrete engine or daemon in a witness that follows it.

  \<^bold>\<open>Faults, time, bounds.\<close> \<open>faults\<close> is a list with one entry for each system call: none, or a hardware error
  and the number of bytes written or read before it. An empty list means no faults. \<open>temp_loop\<close> tries the
  10000 names the Go library tries. \<open>waitComplete\<close> polls until a download is complete; \<open>fuel\<close> bounds the
  polls and a call that runs out of it has not returned (False), which is a result of its own: \<open>wait_complete\<close>
  shows that it returns at the first complete state, given enough polls, and never when there is none.
  The stack dump's loop is a partial function shown to end (\<open>dumpStacks_complete\<close>). Loops over data are
  structural. Lengths in torrents come from peers and are int64: their sums and the check of the number of pieces
  wrap around (\<open>int64\<close>, \<open>int64_quot\<close>). Counts the program makes itself are int: starts, polls, bytes written.

  \<^bold>\<open>Concurrency.\<close> Every method of the engine is one step. Starts, \<open>StopTorrent\<close>, \<open>DeleteTorrent\<close>, \<open>GetAllStatus\<close>,
  \<open>GetTorrents\<close> and \<open>Started\<close> hold its mutex (\<open>StartLeecher\<close> up to its wait, which is a loop of steps); \<open>GetStatus\<close>,
  \<open>GetTorrent\<close>, the rate limit methods and \<open>Run\<close> take none in the code, so that making them steps leaves out their
  races. The goroutine a start leaves behind, which takes none either, is a step of its own at any later time. The daemon's handlers run one at a time; between polls, and between
  requests, a function \<open>env\<close> moves the state: peers, goroutines, other handlers. What a theorem needs of it
  is one of its hypotheses (it keeps the engine's invariant, and \<open>spares\<close> the image).

  \<^bold>\<open>Not modelled.\<close> Reports to the client's FIFO, log lines, progress bars and the alignment of tables, which
  change no state; connections that are never closed; the display fields of a torrent (percent, rates,
  time), which are floats; file permissions and owners; symbolic links; \<open>getPolicyContext\<close>, which nothing
  calls; the goroutine that hands a signal to \<open>dumpStacks\<close>; utils/utils.go and test/ref.go, which only
  print; api.pb.go, which is generated; the storage's reads and its database of complete pieces. Of the vendored packages, only what the program's state depends on: the
  network and the peers of the BitTorrent client and of the registry are parameters or steps of \<open>env\<close>.
  Handlers interleave between requests and polls, not at each system call.
\<close>

end
